(* ===== verification/OG_Prelude.thy ===== *)
theory OG_Prelude
  imports Complex_Main "HOL-Library.Word" "HOL-Library.Multiset" "HOL-Library.List_Lexorder" "HOL-Library.Char_ord"
begin

text \<open>
  Shared vocabulary of the development: the Go values every component uses (bytes and byte
  streams, big-endian 32-bit integers, 16-byte UUIDs, instants and durations, IEEE-754 doubles as
  far as they are compared, maps whose iteration order is arbitrary), the lemmas about them, and
  the fact collections the component proofs draw on.
\<close>

unbundle bit_operations_syntax

named_theorems wire_simps \<open>unfolding of readers and writers of byte streams\<close>
named_theorems wire_len \<open>lengths of what the writers produce\<close>

section \<open>Bytes and streams\<close>

type_synonym byte = "8 word"
type_synonym bytes = "8 word list"

text \<open>
  A reader is the list of bytes still to come. \<open>io.ReadFull\<close> fails with \<open>io.EOF\<close> when nothing was
  left, and with \<open>io.ErrUnexpectedEOF\<close> when the stream ended before the buffer was full; a request
  for no byte always succeeds.
\<close>

datatype io_error = EOF | UnexpectedEOF

definition read_full :: "nat \<Rightarrow> bytes \<Rightarrow> io_error + (bytes \<times> bytes)" where
  "read_full n r =
     (if n \<le> length r then Inr (take n r, drop n r)
      else if r = [] then Inl EOF else Inl UnexpectedEOF)"

lemma read_full_append [simp]: "read_full (length xs) (xs @ ys) = Inr (xs, ys)"
  by (simp add: read_full_def)

lemma read_full_exact: "length xs = n \<Longrightarrow> read_full n (xs @ ys) = Inr (xs, ys)"
  by auto

lemma read_full_zero [simp]: "read_full 0 r = Inr ([], r)"
  by (simp add: read_full_def)

lemma read_full_one [simp]: "read_full (Suc 0) (b # r) = Inr ([b], r)"
  by (simp add: read_full_def)

lemma read_full_short: "length r < n \<Longrightarrow> \<exists>e. read_full n r = Inl e"
  by (auto simp: read_full_def)

lemma read_full_InrD:
  assumes "read_full n r = Inr (xs, ys)"
  shows "r = xs @ ys" and "length xs = n"
  using assms by (auto simp: read_full_def split: if_splits)

section \<open>Big-endian 32-bit integers\<close>

definition put_u32 :: "32 word \<Rightarrow> bytes" where
  "put_u32 v = [ucast (drop_bit 24 v), ucast (drop_bit 16 v), ucast (drop_bit 8 v), ucast v]"

text \<open>\<open>binary.BigEndian.Uint32\<close>; the source always passes at least four bytes.\<close>

fun get_u32 :: "bytes \<Rightarrow> 32 word" where
  "get_u32 (a # b # c # d # _) =
     push_bit 24 (ucast a) OR push_bit 16 (ucast b) OR push_bit 8 (ucast c) OR ucast d"
| "get_u32 _ = 0"

lemma length_put_u32 [simp, wire_len]: "length (put_u32 v) = 4"
  by (simp add: put_u32_def)

lemma unat_lt_u32 [simp]: "unat (w :: 32 word) < 4294967296"
proof -
  have "unat w < 2 ^ LENGTH(32)" by (rule unsigned_less)
  then show ?thesis by simp
qed

lemma unat_lt_u64 [simp]: "unat (w :: 64 word) < 18446744073709551616"
proof -
  have "unat w < 2 ^ LENGTH(64)" by (rule unsigned_less)
  then show ?thesis by simp
qed

lemma get_put_u32_append [simp]: "get_u32 (put_u32 v @ xs) = v"
proof (rule bit_word_eqI)
  fix n assume "n < LENGTH(32)"
  then consider "n < 8" | "8 \<le> n" "n < 16" | "16 \<le> n" "n < 24" | "24 \<le> n" "n < 32"
    by force
  then show "bit (get_u32 (put_u32 v @ xs)) n = bit v n"
    by cases (auto simp: put_u32_def bit_simps)
qed

lemma get_put_u32 [simp]: "get_u32 (put_u32 v) = v"
  using get_put_u32_append [of v "[]"] by simp

lemma put_get_u32_bytes: "put_u32 (get_u32 [a, b, c, d]) = [a, b, c, d]"
  by (auto simp: put_u32_def bit_simps intro!: bit_word_eqI) (auto dest: bit_imp_le_length)

lemma put_get_u32: "length xs = 4 \<Longrightarrow> put_u32 (get_u32 xs) = xs"
  using put_get_u32_bytes by (auto simp: numeral_eq_Suc length_Suc_conv)

lemma get_u32_append: "length xs = 4 \<Longrightarrow> get_u32 (xs @ ys) = get_u32 xs"
  by (auto simp: numeral_eq_Suc length_Suc_conv)

lemma unat_of_nat_u32 [simp]: "n < 2 ^ 32 \<Longrightarrow> unat (word_of_nat n :: 32 word) = n"
  by (simp add: unat_of_nat take_bit_nat_eq_self)

section \<open>UUIDs\<close>

text \<open>
  A \<open>uuid.UUID\<close> is an array of sixteen bytes, here one 128-bit word whose most significant byte
  comes first; \<open>uuid.Nil\<close> is the all-zero value.
\<close>

type_synonym uuid = "128 word"

abbreviation (input) uuid_Nil :: uuid where
  "uuid_Nil \<equiv> 0"

definition uuid_bytes :: "uuid \<Rightarrow> bytes" where
  "uuid_bytes u = map (\<lambda>i. ucast (drop_bit (8 * (15 - i)) u)) [0..<16]"

lemma length_uuid_bytes [simp, wire_len]: "length (uuid_bytes u) = 16"
  by (simp add: uuid_bytes_def)

section \<open>Instants and durations\<close>

text \<open>
  A \<open>time.Time\<close> is a number of nanoseconds since Go's zero time, so that \<open>IsZero\<close> is equality with
  0; a \<open>time.Duration\<close> is a number of nanoseconds.
\<close>

type_synonym instant = int
type_synonym duration = int

abbreviation (input) time_second :: duration where "time_second \<equiv> 1000000000"
abbreviation (input) time_minute :: duration where "time_minute \<equiv> 60 * time_second"
abbreviation (input) time_hour :: duration where "time_hour \<equiv> 60 * time_minute"

text \<open>\<open>Time.Sub\<close> saturates at the ends of the 64-bit range.\<close>

definition time_Sub :: "instant \<Rightarrow> instant \<Rightarrow> duration" where
  "time_Sub t u = max (- (2 ^ 63)) (min (2 ^ 63 - 1) (t - u))"

lemma time_Sub_less:
  "- (2 ^ 63) < d \<Longrightarrow> d < 2 ^ 63 \<Longrightarrow> time_Sub t u < d \<longleftrightarrow> t - u < d"
  by (auto simp: time_Sub_def)

section \<open>Doubles\<close>

text \<open>
  The \<open>float64\<close> values the code stores and compares: the two infinities, not-a-number and the
  finite values, kept as rationals. Every comparison with \<open>F64_NaN\<close> is false, as in IEEE 754. The
  signed zeros compare equal and are one value here.
\<close>

datatype float64 = F64_NaN | F64_NegInf | F64 rat | F64_PosInf

fun f64_le :: "float64 \<Rightarrow> float64 \<Rightarrow> bool" where
  "f64_le F64_NaN _ = False"
| "f64_le _ F64_NaN = False"
| "f64_le F64_NegInf _ = True"
| "f64_le _ F64_PosInf = True"
| "f64_le (F64 a) (F64 b) = (a \<le> b)"
| "f64_le _ _ = False"

fun f64_lt :: "float64 \<Rightarrow> float64 \<Rightarrow> bool" where
  "f64_lt F64_NaN _ = False"
| "f64_lt _ F64_NaN = False"
| "f64_lt F64_NegInf b = (b \<noteq> F64_NegInf)"
| "f64_lt a F64_PosInf = (a \<noteq> F64_PosInf)"
| "f64_lt (F64 a) (F64 b) = (a < b)"
| "f64_lt _ _ = False"

definition f64_is_nan :: "float64 \<Rightarrow> bool" where
  "f64_is_nan x \<longleftrightarrow> x = F64_NaN"

lemma f64_not_lt: "\<not> f64_is_nan a \<Longrightarrow> \<not> f64_is_nan b \<Longrightarrow> \<not> f64_lt a b \<longleftrightarrow> f64_le b a"
  by (cases a; cases b) (auto simp: f64_is_nan_def)

lemma f64_le_refl [simp]: "f64_le a a \<longleftrightarrow> \<not> f64_is_nan a"
  by (cases a) (auto simp: f64_is_nan_def)

lemma f64_le_not_nan: "f64_le a b \<Longrightarrow> \<not> f64_is_nan a \<and> \<not> f64_is_nan b"
  by (cases a; cases b) (auto simp: f64_is_nan_def)

lemma f64_lt_not_nan: "f64_lt a b \<Longrightarrow> \<not> f64_is_nan a \<and> \<not> f64_is_nan b"
  by (cases a; cases b) (auto simp: f64_is_nan_def)

lemma f64_lt_imp_le: "f64_lt a b \<Longrightarrow> f64_le a b"
  by (cases a; cases b) auto

lemma f64_lt_not_le: "f64_lt a b \<Longrightarrow> \<not> f64_le b a"
  by (cases a; cases b) auto

lemma f64_lt_NaN [simp]: "\<not> f64_lt a F64_NaN" "\<not> f64_lt F64_NaN a"
  by (cases a; simp)+

lemma f64_le_trans: "f64_le a b \<Longrightarrow> f64_le b c \<Longrightarrow> f64_le a c"
  by (cases a; cases b; cases c) auto

definition f64_of_u32 :: "32 word \<Rightarrow> float64" where
  "f64_of_u32 w = F64 (of_nat (unat w))"

text \<open>
  The conversion \<open>uint32(f)\<close>: truncation toward zero when the result fits; what the machine does with
  any other value is implementation-dependent in Go, the parameter \<open>other\<close>.
\<close>

definition f64_to_u32 :: "(float64 \<Rightarrow> 32 word) \<Rightarrow> float64 \<Rightarrow> 32 word" where
  "f64_to_u32 other v =
     (case v of
        F64 r \<Rightarrow> if - 1 < r \<and> r < 4294967296
                 then word_of_int (if r < 0 then 0 else \<lfloor>r\<rfloor>) else other v
      | _ \<Rightarrow> other v)"

lemma f64_to_u32_of_u32 [simp]: "f64_to_u32 other (f64_of_u32 w) = w"
proof -
  define k where "k = uint w"
  have "0 \<le> k" "k < 4294967296" using uint_lt2p [of w] by (simp_all add: k_def)
  then have "rat_of_int k < rat_of_int 4294967296" "- 1 < rat_of_int k"
    by simp_all
  moreover have "f64_of_u32 w = F64 (rat_of_int k)" "w = word_of_int k"
    unfolding k_def f64_of_u32_def by simp_all
  ultimately show ?thesis using \<open>0 \<le> k\<close> by (simp add: f64_to_u32_def)
qed

section \<open>Maps with an arbitrary iteration order\<close>

text \<open>
  A Go map is an association list with distinct keys: the list fixes one of the iteration orders
  the language allows, and what a theorem shows for every list it shows for every order.
\<close>

type_synonym ('k, 'v) gomap = "('k \<times> 'v) list"

definition gomap_wf :: "('k, 'v) gomap \<Rightarrow> bool" where
  "gomap_wf m \<longleftrightarrow> distinct (map fst m)"

definition gomap_put :: "'k \<Rightarrow> 'v \<Rightarrow> ('k, 'v) gomap \<Rightarrow> ('k, 'v) gomap" where
  "gomap_put k v m = (k, v) # filter (\<lambda>e. fst e \<noteq> k) m"

definition gomap_del :: "'k \<Rightarrow> ('k, 'v) gomap \<Rightarrow> ('k, 'v) gomap" where
  "gomap_del k m = filter (\<lambda>e. fst e \<noteq> k) m"

lemma map_of_gomap_del [simp]: "map_of (gomap_del k m) = (map_of m)(k := None)"
  by (induction m) (auto simp: gomap_del_def)

lemma map_of_gomap_put [simp]: "map_of (gomap_put k v m) = (map_of m)(k \<mapsto> v)"
  using map_of_gomap_del [of k m] by (auto simp: gomap_put_def gomap_del_def)

lemma gomap_wf_del [simp, intro]: "gomap_wf m \<Longrightarrow> gomap_wf (gomap_del k m)"
  by (simp add: gomap_wf_def gomap_del_def distinct_map_filter)

lemma gomap_wf_put [simp, intro]: "gomap_wf m \<Longrightarrow> gomap_wf (gomap_put k v m)"
  by (auto simp: gomap_wf_def gomap_put_def distinct_map_filter)

lemma gomap_put_length: "length (gomap_put k v m) \<le> Suc (length m)"
  by (simp add: gomap_put_def)

lemma gomap_wf_Nil [simp]: "gomap_wf []"
  by (simp add: gomap_wf_def)

lemma gomap_mem_map_of: "gomap_wf m \<Longrightarrow> (k, v) \<in> set m \<longleftrightarrow> map_of m k = Some v"
  by (auto simp: gomap_wf_def map_of_eq_Some_iff)

section \<open>Stable sorting\<close>

text \<open>\<open>sort.SliceStable\<close>: sorted by the given order, equal elements keeping their order.\<close>

fun insert_stable :: "('a \<Rightarrow> 'a \<Rightarrow> bool) \<Rightarrow> 'a \<Rightarrow> 'a list \<Rightarrow> 'a list" where
  "insert_stable lt x [] = [x]"
| "insert_stable lt x (y # ys) = (if lt y x then y # insert_stable lt x ys else x # y # ys)"

definition stable_sort :: "('a \<Rightarrow> 'a \<Rightarrow> bool) \<Rightarrow> 'a list \<Rightarrow> 'a list" where
  "stable_sort lt xs = foldr (insert_stable lt) xs []"

lemma mset_insert_stable [simp]: "mset (insert_stable lt x ys) = add_mset x (mset ys)"
  by (induction ys) auto

lemma mset_stable_sort [simp]: "mset (stable_sort lt xs) = mset xs"
  by (induction xs) (simp_all add: stable_sort_def)

lemma set_stable_sort [simp]: "set (stable_sort lt xs) = set xs"
  by (rule mset_eq_setD) simp

lemma insert_stable_cong:
  "(\<And>y. y \<in> set ys \<Longrightarrow> lt (f y) (f x) \<longleftrightarrow> lt y x) \<Longrightarrow>
     insert_stable lt (f x) (map f ys) = map f (insert_stable lt x ys)"
  by (induction ys) auto

text \<open>A map that keeps the order commutes with sorting.\<close>

lemma stable_sort_map:
  assumes "\<And>x y. lt (f x) (f y) \<longleftrightarrow> lt x y"
  shows "stable_sort lt (map f xs) = map f (stable_sort lt xs)"
  using assms by (induction xs) (simp_all add: stable_sort_def insert_stable_cong)

lemma sorted_insert_stable:
  assumes "\<And>x y. lt x y \<Longrightarrow> key x \<le> (key y :: 'k :: linorder)"
    and "\<And>x y. \<not> lt x y \<Longrightarrow> key y \<le> key x"
    and "sorted (map key ys)"
  shows "sorted (map key (insert_stable lt x ys))"
proof -
  have "set (insert_stable lt x ys) = insert x (set ys)" for x ys
    by (induction ys) auto
  then show ?thesis using assms(3)
    by (induction ys) (auto simp: assms(1,2) intro: order_trans [OF assms(2)])
qed

text \<open>Sorting by an order that refines the order of a key sorts by the key.\<close>

lemma sorted_stable_sort:
  assumes "\<And>x y. lt x y \<Longrightarrow> key x \<le> (key y :: 'k :: linorder)"
    and "\<And>x y. \<not> lt x y \<Longrightarrow> key y \<le> key x"
  shows "sorted (map key (stable_sort lt xs))"
  by (induction xs) (simp_all add: stable_sort_def sorted_insert_stable assms)

section \<open>Reachability\<close>

text \<open>
  The states a step relation reaches from its initial states, and the rule every invariant of a
  component is proved by.
\<close>

inductive reachable :: "('s \<Rightarrow> bool) \<Rightarrow> ('s \<Rightarrow> 's \<Rightarrow> bool) \<Rightarrow> 's \<Rightarrow> bool" for start step where
  reachable_start: "start s \<Longrightarrow> reachable start step s"
| reachable_step: "reachable start step s \<Longrightarrow> step s s' \<Longrightarrow> reachable start step s'"

locale step_invariant =
  fixes start :: "'s \<Rightarrow> bool" and step :: "'s \<Rightarrow> 's \<Rightarrow> bool" and inv :: "'s \<Rightarrow> bool"
  assumes inv_start: "start s \<Longrightarrow> inv s"
    and inv_step: "inv s \<Longrightarrow> step s s' \<Longrightarrow> inv s'"
begin

lemma holds: "reachable start step s \<Longrightarrow> inv s"
  by (induction rule: reachable.induct) (auto intro: inv_start inv_step)

end

section \<open>Updating one element of a list\<close>

lemma length_filter_update:
  assumes "i < length xs"
  shows "length (filter P (xs[i := y])) + (if P (xs ! i) then 1 else 0) =
         length (filter P xs) + (if P y then 1 else 0)"
  using assms
proof (induction xs arbitrary: i)
  case (Cons x xs)
  then show ?case by (cases i) auto
qed simp

lemma all_nth_update:
  assumes "\<And>j. j < length xs \<Longrightarrow> P j (xs ! j)" "P i y" "j < length (xs[i := y])"
  shows "P j (xs[i := y] ! j)"
  using assms by (cases "i = j") auto

lemma nth_update_keeps: "f y = f (xs ! a) \<Longrightarrow> f (xs[a := y] ! j) = f (xs ! j)"
  by (metis list_update_beyond not_le_imp_less nth_list_update_eq nth_list_update_neq)

end
