(* ===== verification/Wire_Codec.thy ===== *)
theory Wire_Codec
  imports OG_Prelude
begin

text \<open>
  The contract shared by the length-delimited encodings of the system: what a writer puts on a byte
  stream the reader of the other end takes off it, whole and without touching what follows. The
  consequences (sequences of messages, injectivity, prefix-freedom) are proved here once; the
  agent frame format and the APF messages are interpretations of the locale.
\<close>

text \<open>
  An \<open>io.Writer\<close> is the state of the sink and a function that takes one buffer and reports an error
  or none; a buffer in memory (\<open>bytes.Buffer\<close>) appends every write and fails none.
\<close>

type_synonym ('e, 'w) writer = "'w \<Rightarrow> bytes \<Rightarrow> 'e option \<times> 'w"

definition buffer_write :: "('e, bytes) writer" where
  "buffer_write w bs = (None, w @ bs)"

text \<open>Reading a given number of messages one after another, as a receive loop does.\<close>

fun read_n :: "(bytes \<Rightarrow> 'e + ('a \<times> bytes)) \<Rightarrow> nat \<Rightarrow> bytes \<Rightarrow> 'e + ('a list \<times> bytes)" where
  "read_n dec 0 r = Inr ([], r)"
| "read_n dec (Suc n) r =
     (case dec r of
        Inl e \<Rightarrow> Inl e
      | Inr (x, r') \<Rightarrow>
          (case read_n dec n r' of Inl e \<Rightarrow> Inl e | Inr (xs, r'') \<Rightarrow> Inr (x # xs, r'')))"

locale wire_codec =
  fixes enc :: "'a \<Rightarrow> bytes"
    and dec :: "bytes \<Rightarrow> 'e + ('a \<times> bytes)"
    and ok :: "'a \<Rightarrow> bool"
  assumes dec_enc: "ok x \<Longrightarrow> dec (enc x @ rest) = Inr (x, rest)"
begin

lemma stream:
  assumes "list_all ok xs"
  shows "read_n dec (length xs) (concat (map enc xs) @ rest) = Inr (xs, rest)"
  using assms by (induction xs) (auto simp: dec_enc)

lemma enc_eq_iff:
  assumes "ok x" "ok y"
  shows "enc x @ r = enc y @ s \<longleftrightarrow> x = y \<and> r = s"
proof
  assume "enc x @ r = enc y @ s"
  then have "Inr (x, r) = dec (enc y @ s)"
    using dec_enc [OF assms(1), of r] by simp
  then show "x = y \<and> r = s"
    unfolding dec_enc [OF assms(2), of s] by simp
qed simp

lemma prefix_free:
  assumes "ok x" "ok y" "enc x = enc y @ s"
  shows "x = y \<and> s = []"
  using enc_eq_iff [OF assms(1,2), of "[]" s] assms(3) by simp

lemma concat_inj:
  assumes "list_all ok xs" "list_all ok ys" "length xs = length ys"
    and "concat (map enc xs) = concat (map enc ys)"
  shows "xs = ys"
proof -
  have "Inr (xs, []) = read_n dec (length ys) (concat (map enc ys) @ [])"
    using stream [OF assms(1), of "[]"] assms(3,4) by simp
  then show ?thesis unfolding stream [OF assms(2), of "[]"] by simp
qed

end

text \<open>
  A codec whose reader accepts nothing but what the writer produces. The bytes consumed are then
  determined by the message, and a reader that returned has taken exactly one encoding.
\<close>

locale canonical_codec = wire_codec +
  assumes dec_canonical: "dec r = Inr (x, rest) \<Longrightarrow> ok x \<and> r = enc x @ rest"
begin

lemma strict_prefix_rejected:
  assumes "ok x" "enc x = p @ q" "q \<noteq> []"
  shows "\<exists>e. dec p = Inl e"
proof (rule ccontr)
  assume "\<nexists>e. dec p = Inl e"
  then obtain y rest where "dec p = Inr (y, rest)"
    by (cases "dec p") auto
  then have y: "ok y" "p = enc y @ rest" using dec_canonical [of p y rest] by simp_all
  then have "enc x = enc y @ (rest @ q)" using assms(2) by simp
  from prefix_free [OF assms(1) y(1) this] assms(3) show False by simp
qed

lemma read_n_canonical:
  assumes "read_n dec n r = Inr (xs, rest)"
  shows "length xs = n \<and> list_all ok xs \<and> r = concat (map enc xs) @ rest"
  using assms
proof (induction n arbitrary: r xs)
  case 0
  then show ?case by simp
next
  case (Suc n)
  from Suc.prems obtain x r' ys where d: "dec r = Inr (x, r')"
    and n: "read_n dec n r' = Inr (ys, rest)" and xs: "xs = x # ys"
    by (auto split: sum.splits)
  show ?case using Suc.IH [OF n] dec_canonical [OF d] xs by simp
qed

end

end
