(* ===== verification/Wire_Frames.thy ===== *)
theory Wire_Frames
  imports Wire_Codec
begin

text \<open>
  The agent protocol's framing and binary handshake messages: \<open>server/internal/protocol/codec.go\<close>
  and the frame constants of \<open>types.go\<close>. A frame is a type byte, a big-endian length and a payload;
  ping and pong are the type byte alone.
\<close>

section \<open>Constants\<close>

definition FrameControl :: byte where "FrameControl = 0x01"
definition FrameDesktop :: byte where "FrameDesktop = 0x02"
definition FrameTerminal :: byte where "FrameTerminal = 0x03"
definition FrameFile :: byte where "FrameFile = 0x04"
definition FramePing :: byte where "FramePing = 0x05"
definition FramePong :: byte where "FramePong = 0x06"

definition MsgServerHello :: byte where "MsgServerHello = 0x10"
definition MsgAgentHello :: byte where "MsgAgentHello = 0x11"
definition MsgSkipAuth :: byte where "MsgSkipAuth = 0x14"
definition MsgExpectHash :: byte where "MsgExpectHash = 0x15"

lemmas frame_types = FrameControl_def FrameDesktop_def FrameTerminal_def FrameFile_def
  FramePing_def FramePong_def
lemmas handshake_types = MsgServerHello_def MsgAgentHello_def MsgSkipAuth_def MsgExpectHash_def

definition MaxFrameSize :: nat where
  "MaxFrameSize = 16 * 1024 * 1024"

lemma MaxFrameSize_u32: "MaxFrameSize < 2 ^ 32"
  by (simp add: MaxFrameSize_def)

definition RedactToken :: "string \<Rightarrow> string" where
  "RedactToken token = (if length token \<le> 8 then ''***'' else take 8 token @ ''...'')"

section \<open>Frames\<close>

datatype wire_error =
    ErrFrameTooLarge nat
  | ErrUnknownFrameType byte
  | ErrIncompleteFrame io_error
  | ReadError io_error

text \<open>
  \<open>WriteFrame\<close> makes one call of the writer for ping and pong, one for a frame with no payload, and
  two for any other frame.
\<close>

definition is_keepalive :: "byte \<Rightarrow> bool" where
  "is_keepalive t \<longleftrightarrow> t = FramePing \<or> t = FramePong"

definition WriteFrame ::
  "('e, 'w) writer \<Rightarrow> 'w \<Rightarrow> byte \<Rightarrow> bytes \<Rightarrow> (wire_error + 'e) option \<times> 'w" where
  "WriteFrame write w frameType payload =
     (if is_keepalive frameType then
        (case write w [frameType] of (err, w') \<Rightarrow> (map_option Inr err, w'))
      else if length payload > MaxFrameSize then
        (Some (Inl (ErrFrameTooLarge (length payload))), w)
      else
        (case write w (frameType # put_u32 (word_of_nat (length payload))) of
           (Some e, w') \<Rightarrow> (Some (Inr e), w')
         | (None, w') \<Rightarrow>
             (if payload \<noteq> [] then
                (case write w' payload of (err, w'') \<Rightarrow> (map_option Inr err, w''))
              else (None, w'))))"

definition ReadFrame :: "bytes \<Rightarrow> wire_error + ((byte \<times> bytes) \<times> bytes)" where
  "ReadFrame r =
     (case read_full 1 r of
        Inl e \<Rightarrow> Inl (ReadError e)
      | Inr (typeBuf, r1) \<Rightarrow>
          (let frameType = hd typeBuf in
           if is_keepalive frameType then Inr ((frameType, []), r1)
           else if frameType \<noteq> FrameControl \<and> frameType \<noteq> FrameDesktop \<and>
                   frameType \<noteq> FrameTerminal \<and> frameType \<noteq> FrameFile then
             Inl (ErrUnknownFrameType frameType)
           else
             (case read_full 4 r1 of
                Inl e \<Rightarrow> Inl (ErrIncompleteFrame e)
              | Inr (lengthBuf, r2) \<Rightarrow>
                  (let len = unat (get_u32 lengthBuf) in
                   if len > MaxFrameSize then Inl (ErrFrameTooLarge len)
                   else if len > 0 then
                     (case read_full len r2 of
                        Inl e \<Rightarrow> Inl (ErrIncompleteFrame e)
                      | Inr (payload, r3) \<Rightarrow> Inr ((frameType, payload), r3))
                   else Inr ((frameType, []), r2)))))"

text \<open>The bytes of a frame, and the frames that have an encoding.\<close>

definition frame_bytes :: "byte \<times> bytes \<Rightarrow> bytes" where
  "frame_bytes f = snd (WriteFrame (buffer_write :: (unit, bytes) writer) [] (fst f) (snd f))"

definition data_frame_type :: "byte \<Rightarrow> bool" where
  "data_frame_type t \<longleftrightarrow> t = FrameControl \<or> t = FrameDesktop \<or> t = FrameTerminal \<or> t = FrameFile"

definition frame_ok :: "byte \<times> bytes \<Rightarrow> bool" where
  "frame_ok f \<longleftrightarrow>
     (is_keepalive (fst f) \<and> snd f = []) \<or>
     (data_frame_type (fst f) \<and> length (snd f) \<le> MaxFrameSize)"

lemma keepalive_not_data: "is_keepalive t \<Longrightarrow> \<not> data_frame_type t"
  by (auto simp: is_keepalive_def data_frame_type_def frame_types)

lemma data_not_keepalive [simp]: "data_frame_type t \<Longrightarrow> \<not> is_keepalive t"
  using keepalive_not_data by blast

lemma frame_bytes_keepalive: "is_keepalive t \<Longrightarrow> frame_bytes (t, p) = [t]"
  by (simp add: frame_bytes_def WriteFrame_def buffer_write_def)

lemma frame_bytes_data:
  "\<not> is_keepalive t \<Longrightarrow> length p \<le> MaxFrameSize \<Longrightarrow>
     frame_bytes (t, p) = t # put_u32 (word_of_nat (length p)) @ p"
  by (simp add: frame_bytes_def WriteFrame_def buffer_write_def)

lemma ReadFrame_data:
  assumes "data_frame_type t"
  shows "ReadFrame (t # r) =
     (case read_full 4 r of
        Inl e \<Rightarrow> Inl (ErrIncompleteFrame e)
      | Inr (lb, r2) \<Rightarrow>
          if unat (get_u32 lb) > MaxFrameSize then Inl (ErrFrameTooLarge (unat (get_u32 lb)))
          else (case read_full (unat (get_u32 lb)) r2 of
                  Inl e \<Rightarrow> Inl (ErrIncompleteFrame e)
                | Inr (p, r3) \<Rightarrow> Inr ((t, p), r3)))"
  using assms data_not_keepalive [OF assms]
  by (auto simp: ReadFrame_def Let_def data_frame_type_def read_full_zero split: sum.splits prod.splits)

lemma ReadFrame_frame_bytes:
  assumes "frame_ok f"
  shows "ReadFrame (frame_bytes f @ rest) = Inr (f, rest)"
proof (cases "is_keepalive (fst f)")
  case True
  with assms have "snd f = []" by (auto simp: frame_ok_def dest: keepalive_not_data)
  with True show ?thesis
    by (cases f) (simp add: frame_bytes_keepalive ReadFrame_def Let_def)
next
  case False
  then obtain t p where f: "f = (t, p)" "data_frame_type t" "length p \<le> MaxFrameSize"
    using assms by (cases f) (auto simp: frame_ok_def)
  then have "length p < 2 ^ 32" using MaxFrameSize_u32 by simp
  then show ?thesis
    using f False by (simp add: frame_bytes_data ReadFrame_data read_full_exact)
qed

lemma ReadFrame_canonical:
  assumes "ReadFrame r = Inr (f, rest)"
  shows "frame_ok f \<and> r = frame_bytes f @ rest"
proof (cases r)
  case Nil
  then show ?thesis using assms by (simp add: ReadFrame_def read_full_def)
next
  case (Cons t r1)
  consider "is_keepalive t" | "data_frame_type t" | "\<not> is_keepalive t" "\<not> data_frame_type t"
    by blast
  then show ?thesis
  proof cases
    case 1
    then show ?thesis
      using assms Cons by (auto simp: ReadFrame_def Let_def frame_ok_def frame_bytes_keepalive)
  next
    case 2
    obtain lb r2 where lb: "read_full 4 r1 = Inr (lb, r2)"
      using assms Cons ReadFrame_data [OF 2] by (auto split: sum.splits)
    then obtain p where p: "read_full (unat (get_u32 lb)) r2 = Inr (p, rest)" "f = (t, p)"
        "unat (get_u32 lb) \<le> MaxFrameSize"
      using assms Cons ReadFrame_data [OF 2] by (auto split: sum.splits if_splits)
    have "length p = unat (get_u32 lb)" "r1 = lb @ p @ rest" "length lb = 4"
      using read_full_InrD [OF lb] read_full_InrD [OF p(1)] by auto
    moreover then have "put_u32 (word_of_nat (length p)) = lb"
      by (simp add: put_get_u32)
    ultimately show ?thesis
      using Cons p 2 by (simp add: frame_ok_def frame_bytes_data)
  next
    case 3
    then show ?thesis using assms Cons by (auto simp: ReadFrame_def Let_def data_frame_type_def)
  qed
qed

interpretation frames: canonical_codec frame_bytes ReadFrame frame_ok
proof unfold_locales
  show "ReadFrame (frame_bytes x @ rest) = Inr (x, rest)" if "frame_ok x" for x rest
    using that by (rule ReadFrame_frame_bytes)
  show "frame_ok x \<and> r = frame_bytes x @ rest" if "ReadFrame r = Inr (x, rest)" for r x rest
    using that by (rule ReadFrame_canonical)
qed

section \<open>Properties\<close>

text \<open>Writing frames one after another to the same sink.\<close>

fun write_frames ::
  "('e, 'w) writer \<Rightarrow> 'w \<Rightarrow> (byte \<times> bytes) list \<Rightarrow> (wire_error + 'e) option \<times> 'w" where
  "write_frames write w [] = (None, w)"
| "write_frames write w ((t, p) # fs) =
     (case WriteFrame write w t p of
        (Some e, w') \<Rightarrow> (Some e, w')
      | (None, w') \<Rightarrow> write_frames write w' fs)"

lemma WriteFrame_buffer:
  assumes "frame_ok (t, p)"
  shows "WriteFrame buffer_write w t p = (None, w @ frame_bytes (t, p))"
  using assms
  by (auto simp: WriteFrame_def buffer_write_def frame_bytes_def frame_ok_def dest: keepalive_not_data)

lemma write_frames_buffer:
  assumes "list_all frame_ok fs"
  shows "write_frames buffer_write w fs = (None, w @ concat (map frame_bytes fs))"
  using assms by (induction fs arbitrary: w) (auto simp: WriteFrame_buffer)

text \<open>
  C1. A sequence of well-formed frames written with \<open>WriteFrame\<close> is read back frame by frame with
  \<open>ReadFrame\<close>, whatever was in the sink before and whatever follows on the stream.
\<close>

theorem frame_stream_roundtrip:
  assumes "list_all frame_ok fs"
  shows "\<exists>bs. write_frames (buffer_write :: ('e, bytes) writer) w fs = (None, w @ bs) \<and>
           read_n ReadFrame (length fs) (bs @ rest) = Inr (fs, rest)"
  using write_frames_buffer [OF assms] frames.stream [OF assms] by blast

theorem frame_stream_roundtrip_witness:
  "\<exists>bs. write_frames (buffer_write :: (unit, bytes) writer) [9] [(FrameControl, [1, 2]), (FramePing, [])]
          = (None, [9] @ bs) \<and>
        read_n ReadFrame (length [(FrameControl, [1, 2 :: byte]), (FramePing, [])]) (bs @ [7])
          = Inr ([(FrameControl, [1, 2]), (FramePing, [])], [7])"
  by (rule frame_stream_roundtrip)
     (simp add: frame_ok_def is_keepalive_def data_frame_type_def frame_types MaxFrameSize_def)

text \<open>
  C2. \<open>ReadFrame\<close> accepts exactly the encodings \<open>WriteFrame\<close> produces for a well-formed frame: a known
  type, no payload on ping and pong, a payload of at most \<open>MaxFrameSize\<close> bytes. It consumes that
  encoding and nothing else.
\<close>

theorem ReadFrame_accepts_iff:
  "ReadFrame r = Inr (f, rest) \<longleftrightarrow> frame_ok f \<and> r = frame_bytes f @ rest"
  using ReadFrame_frame_bytes [of f rest] ReadFrame_canonical [of r f rest] by blast

lemma frame_bytes_prefix_data:
  assumes "data_frame_type t" "length p \<le> MaxFrameSize" "frame_bytes (t, p) = t # xs @ q" "q \<noteq> []"
  shows "\<exists>e. ReadFrame (t # xs) = Inl (ErrIncompleteFrame e)"
proof -
  let ?lb = "put_u32 (word_of_nat (length p))"
  have eq: "?lb @ p = xs @ q"
    using assms(1-3) by (simp add: frame_bytes_data)
  have small: "length p < 2 ^ 32" using assms(2) MaxFrameSize_u32 by simp
  show ?thesis
  proof (cases "length xs < 4")
    case True
    then show ?thesis using read_full_short [of xs 4] by (auto simp: ReadFrame_data assms(1))
  next
    case False
    then have lb: "xs = ?lb @ drop 4 xs"
      using eq by (metis append_eq_append_conv_if append_take_drop_id length_put_u32 not_less)
    have "length (drop 4 xs) < length p"
      using arg_cong [OF eq, of length] False assms(4) by (cases q) auto
    then obtain e where "read_full (length p) (drop 4 xs) = Inl e"
      using read_full_short by blast
    moreover have "read_full 4 xs = Inr (?lb, drop 4 xs)"
      using lb by (metis length_put_u32 read_full_append)
    ultimately show ?thesis using assms(1,2) small by (auto simp: ReadFrame_data)
  qed
qed

text \<open>
  A frame cut short is reported as cut short: every strict prefix of an encoding is refused, with
  \<open>io.EOF\<close> when nothing arrived and \<open>ErrIncompleteFrame\<close> otherwise, and never as an unknown type or an
  oversized frame.
\<close>

lemma ReadFrame_truncated:
  assumes "frame_ok f" "frame_bytes f = p @ q" "q \<noteq> []"
  shows "ReadFrame p = Inl (ReadError EOF) \<and> p = [] \<or>
         (\<exists>e. ReadFrame p = Inl (ErrIncompleteFrame e))"
proof (cases p)
  case Nil
  then show ?thesis by (simp add: ReadFrame_def read_full_def)
next
  case (Cons t xs)
  obtain ty pl where f: "f = (ty, pl)" by fastforce
  have "\<not> is_keepalive ty"
    using assms Cons f by (auto simp: frame_bytes_keepalive)
  then have "data_frame_type ty" "length pl \<le> MaxFrameSize"
    using assms(1) f by (auto simp: frame_ok_def)
  moreover have "ty = t"
    using assms(2) Cons f \<open>\<not> is_keepalive ty\<close> calculation by (simp add: frame_bytes_data)
  ultimately show ?thesis
    using frame_bytes_prefix_data [of t pl xs q] assms(2,3) Cons f by auto
qed

end
