(* ===== verification/Handshake.thy ===== *)
theory Handshake
  imports Wire_Frames
begin

text \<open>
  The binary handshake that opens an agent's control stream: the message layouts of
  \<open>server/internal/protocol/codec.go\<close> and the server's side of the exchange,
  \<open>server/internal/agentapi/handshaker.go\<close>. Certificate parsing, the SHA-384 digest and
  \<open>uuid.Parse\<close> are parameters.
\<close>

section \<open>Message layouts\<close>

datatype handshake_codec_error =
    EmptyHandshake
  | UnknownHandshakeType byte
  | ServerHelloLength nat
  | ServerHelloType byte

definition EncodeHandshake :: "byte \<Rightarrow> bytes \<Rightarrow> bytes" where
  "EncodeHandshake msgType payload = msgType # payload"

definition EncodeServerHello :: "bytes \<Rightarrow> bytes \<Rightarrow> bytes" where
  "EncodeServerHello nonce certHash = MsgServerHello # nonce @ certHash"

definition EncodeAgentHello :: "bytes \<Rightarrow> bytes \<Rightarrow> bytes" where
  "EncodeAgentHello nonce agentCertHash = MsgAgentHello # nonce @ agentCertHash"

definition EncodeSkipAuth :: "bytes \<Rightarrow> bytes" where
  "EncodeSkipAuth cachedCertHash = MsgSkipAuth # cachedCertHash"

definition DecodeHandshakeType :: "bytes \<Rightarrow> handshake_codec_error + byte" where
  "DecodeHandshakeType data =
     (case data of
        [] \<Rightarrow> Inl EmptyHandshake
      | msgType # _ \<Rightarrow>
          if msgType = MsgServerHello \<or> msgType = MsgAgentHello \<or>
             msgType = MsgSkipAuth \<or> msgType = MsgExpectHash
          then Inr msgType
          else Inl (UnknownHandshakeType msgType))"

definition DecodeServerHello :: "bytes \<Rightarrow> handshake_codec_error + (bytes \<times> bytes)" where
  "DecodeServerHello data =
     (if length data \<noteq> 81 then Inl (ServerHelloLength (length data))
      else if hd data \<noteq> MsgServerHello then Inl (ServerHelloType (hd data))
      else Inr (take 32 (drop 1 data), take 48 (drop 33 data)))"

lemma DecodeServerHello_Encode:
  assumes "length nonce = 32" "length certHash = 48"
  shows "DecodeServerHello (EncodeServerHello nonce certHash) = Inr (nonce, certHash)"
  using assms by (simp add: DecodeServerHello_def EncodeServerHello_def)

lemma DecodeServerHello_canonical:
  assumes "DecodeServerHello data = Inr (nonce, certHash)"
  shows "data = EncodeServerHello nonce certHash \<and> length nonce = 32 \<and> length certHash = 48"
proof -
  have len: "length data = 81" and hd: "hd data = MsgServerHello"
    and parts: "nonce = take 32 (drop 1 data)" "certHash = take 48 (drop 33 data)"
    using assms by (auto simp: DecodeServerHello_def split: if_splits)
  have "drop 1 data = take 32 (drop 1 data) @ take 48 (drop 33 data)"
    using len append_take_drop_id [of 32 "drop 1 data"] by (simp add: drop_drop)
  moreover have "data = hd data # drop 1 data" using len by (cases data) auto
  ultimately show ?thesis using len hd parts by (simp add: EncodeServerHello_def)
qed

section \<open>The server's side\<close>

record handshaker =
  caCertHash :: bytes
  trusted :: "bytes list"

record handshake_result =
  hr_DeviceID :: uuid
  hr_AgentCertDER :: bytes
  hr_Skipped :: bool

datatype 'e handshake_error =
    HandshakeRead io_error
  | UnexpectedHandshakeType byte
  | AgentCertHashMismatch
  | StaleCACertHash
  | NoPeerCertificate
  | BadPeerCertificate
  | InvalidDeviceCN string
  | NonceUnavailable io_error
  | HandshakeWrite 'e

text \<open>
  What the handshake reads and writes: the bytes the agent sent, the sink towards it and the
  source of randomness.
\<close>

record 'w handshake_stream =
  hs_in :: bytes
  hs_out :: 'w
  hs_rand :: bytes

text \<open>
  The certificate functions of the standard library and \<open>uuid.Parse\<close>: the subject common name of a
  certificate that parses, the digest of its bytes, and the UUID a string denotes.
\<close>

record cert_ops =
  x509_cn :: "bytes \<Rightarrow> string option"
  sha384 :: "bytes \<Rightarrow> bytes"
  uuid_parse :: "string \<Rightarrow> uuid option"

definition identityFromPeer ::
  "cert_ops \<Rightarrow> bytes list \<Rightarrow> 'e handshake_error + (uuid \<times> bytes)" where
  "identityFromPeer ops peerCerts =
     (case peerCerts of
        [] \<Rightarrow> Inl NoPeerCertificate
      | peerCertDER # _ \<Rightarrow>
          (case x509_cn ops peerCertDER of
             None \<Rightarrow> Inl BadPeerCertificate
           | Some cn \<Rightarrow>
               (case uuid_parse ops cn of
                  None \<Rightarrow> Inl (InvalidDeviceCN cn)
                | Some deviceID \<Rightarrow> Inr (deviceID, peerCertDER))))"

definition writeServerHello ::
  "('e, 'w) writer \<Rightarrow> handshaker \<Rightarrow> 'w handshake_stream \<Rightarrow>
     'e handshake_error option \<times> 'w handshake_stream" where
  "writeServerHello write h s =
     (case read_full 32 (hs_rand s) of
        Inl e \<Rightarrow> (Some (NonceUnavailable e), s)
      | Inr (nonce, rnd) \<Rightarrow>
          (case write (hs_out s) (EncodeServerHello nonce (caCertHash h)) of
             (err, w) \<Rightarrow> (map_option HandshakeWrite err, s\<lparr>hs_rand := rnd, hs_out := w\<rparr>)))"

definition fullHandshake ::
  "cert_ops \<Rightarrow> ('e, 'w) writer \<Rightarrow> handshaker \<Rightarrow> 'w handshake_stream \<Rightarrow> bytes list \<Rightarrow>
     ('e handshake_error + handshake_result) \<times> 'w handshake_stream" where
  "fullHandshake ops write h s peerCerts =
     (case read_full 80 (hs_in s) of
        Inl e \<Rightarrow> (Inl (HandshakeRead e), s)
      | Inr (body, r) \<Rightarrow>
          (let s1 = s\<lparr>hs_in := r\<rparr>; agentCertHash = take 48 (drop 32 body) in
           case identityFromPeer ops peerCerts of
             Inl e \<Rightarrow> (Inl e, s1)
           | Inr (deviceID, der) \<Rightarrow>
               if agentCertHash \<noteq> sha384 ops der then (Inl AgentCertHashMismatch, s1)
               else (case writeServerHello write h s1 of
                       (Some e, s2) \<Rightarrow> (Inl e, s2)
                     | (None, s2) \<Rightarrow>
                         (Inr \<lparr>hr_DeviceID = deviceID, hr_AgentCertDER = der, hr_Skipped = False\<rparr>, s2))))"

definition fastHandshake ::
  "cert_ops \<Rightarrow> handshaker \<Rightarrow> 'w handshake_stream \<Rightarrow> bytes list \<Rightarrow>
     ('e handshake_error + handshake_result) \<times> 'w handshake_stream" where
  "fastHandshake ops h s peerCerts =
     (case read_full 48 (hs_in s) of
        Inl e \<Rightarrow> (Inl (HandshakeRead e), s)
      | Inr (cachedHash, r) \<Rightarrow>
          (let s1 = s\<lparr>hs_in := r\<rparr> in
           if cachedHash \<notin> set (trusted h) then (Inl StaleCACertHash, s1)
           else (case identityFromPeer ops peerCerts of
                   Inl e \<Rightarrow> (Inl e, s1)
                 | Inr (deviceID, der) \<Rightarrow>
                     (Inr \<lparr>hr_DeviceID = deviceID, hr_AgentCertDER = der, hr_Skipped = True\<rparr>, s1))))"

definition PerformHandshake ::
  "cert_ops \<Rightarrow> ('e, 'w) writer \<Rightarrow> handshaker \<Rightarrow> 'w handshake_stream \<Rightarrow> bytes list \<Rightarrow>
     ('e handshake_error + handshake_result) \<times> 'w handshake_stream" where
  "PerformHandshake ops write h s peerCerts =
     (case read_full 1 (hs_in s) of
        Inl e \<Rightarrow> (Inl (HandshakeRead e), s)
      | Inr (typeByte, r) \<Rightarrow>
          (let s1 = s\<lparr>hs_in := r\<rparr> in
           if hd typeByte = MsgAgentHello then fullHandshake ops write h s1 peerCerts
           else if hd typeByte = MsgSkipAuth then fastHandshake ops h s1 peerCerts
           else (Inl (UnexpectedHandshakeType (hd typeByte)), s1)))"

lemma identityFromPeer_Inr:
  assumes "identityFromPeer ops peerCerts = Inr (deviceID, der)"
  obtains cn ders where "peerCerts = der # ders" "x509_cn ops der = Some cn"
    "uuid_parse ops cn = Some deviceID"
  using assms by (auto simp: identityFromPeer_def split: list.splits option.splits)

lemma PerformHandshake_cases:
  "PerformHandshake ops write h s peerCerts =
     (case hs_in s of
        [] \<Rightarrow> (Inl (HandshakeRead EOF), s)
      | t # r \<Rightarrow>
          if t = MsgAgentHello then fullHandshake ops write h (s\<lparr>hs_in := r\<rparr>) peerCerts
          else if t = MsgSkipAuth then fastHandshake ops h (s\<lparr>hs_in := r\<rparr>) peerCerts
          else (Inl (UnexpectedHandshakeType t), s\<lparr>hs_in := r\<rparr>))"
  by (cases "hs_in s") (auto simp: PerformHandshake_def Let_def read_full_def)

lemma fullHandshake_InrD:
  assumes "fullHandshake ops write h s peerCerts = (Inr res, s')"
  obtains nonce agentNonce r cn ders where
    "hs_in s = agentNonce @ sha384 ops (hr_AgentCertDER res) @ r" "hs_in s' = r"
    "length agentNonce = 32"
    "peerCerts = hr_AgentCertDER res # ders" "x509_cn ops (hr_AgentCertDER res) = Some cn"
    "uuid_parse ops cn = Some (hr_DeviceID res)" "\<not> hr_Skipped res"
    "length nonce = 32" "hs_rand s = nonce @ hs_rand s'"
    "write (hs_out s) (EncodeServerHello nonce (caCertHash h)) = (None, hs_out s')"
proof -
  from assms obtain body r deviceID der nonce rnd w where
    body: "read_full 80 (hs_in s) = Inr (body, r)"
    and ident: "(identityFromPeer ops peerCerts :: 'a handshake_error + _) = Inr (deviceID, der)"
    and hash: "take 48 (drop 32 body) = sha384 ops der"
    and rnd: "read_full 32 (hs_rand s) = Inr (nonce, rnd)"
    and w: "write (hs_out s) (EncodeServerHello nonce (caCertHash h)) = (None, w)"
    and res: "res = \<lparr>hr_DeviceID = deviceID, hr_AgentCertDER = der, hr_Skipped = False\<rparr>"
    and s': "s' = s\<lparr>hs_in := r, hs_rand := rnd, hs_out := w\<rparr>"
    by (auto simp: fullHandshake_def writeServerHello_def Let_def
        split: sum.splits prod.splits if_splits option.splits)
  from read_full_InrD [OF body] have b: "hs_in s = body @ r" "length body = 80" by auto
  then have "body = take 32 body @ take 48 (drop 32 body)"
    using append_take_drop_id [of 32 body] by simp
  with b hash have "hs_in s = take 32 body @ sha384 ops der @ r" "length (take 32 body) = 32"
    by (metis append_assoc) (use b in simp)
  with that ident rnd w res s' read_full_InrD [OF rnd] show thesis
    by (elim identityFromPeer_Inr) force
qed

lemma fastHandshake_InrD:
  assumes "(fastHandshake ops h s peerCerts :: ('e handshake_error + _) \<times> 'w handshake_stream)
             = (Inr res, s')"
  obtains cachedHash cn ders where
    "hs_in s = cachedHash @ hs_in s'" "length cachedHash = 48" "cachedHash \<in> set (trusted h)"
    "peerCerts = hr_AgentCertDER res # ders" "x509_cn ops (hr_AgentCertDER res) = Some cn"
    "uuid_parse ops cn = Some (hr_DeviceID res)" "hr_Skipped res"
    "hs_out s' = hs_out s" "hs_rand s' = hs_rand s"
proof -
  from assms obtain cachedHash r deviceID der where
    c: "read_full 48 (hs_in s) = Inr (cachedHash, r)" "cachedHash \<in> set (trusted h)"
    and ident: "(identityFromPeer ops peerCerts :: 'e handshake_error + _) = Inr (deviceID, der)"
    and res: "res = \<lparr>hr_DeviceID = deviceID, hr_AgentCertDER = der, hr_Skipped = True\<rparr>"
    and s': "s' = s\<lparr>hs_in := r\<rparr>"
    by (auto simp: fastHandshake_def Let_def split: sum.splits prod.splits if_splits)
  with that read_full_InrD [OF c(1)] show thesis
    by (elim identityFromPeer_Inr) force
qed

section \<open>Properties\<close>

text \<open>
  C3. What an accepted handshake proves: the device number is the one in the common name of the TLS
  peer certificate, and either the agent proved it holds that certificate by its digest and was
  sent a \<open>ServerHello\<close> that decodes to a fresh nonce and the issuing master key's hash, or it
  presented the hash of a trusted master key and was sent nothing.
\<close>

theorem PerformHandshake_sound:
  assumes "PerformHandshake ops (buffer_write :: ('e, bytes) writer) h s peerCerts = (Inr res, s')"
    and "length (caCertHash h) = 48"
  shows "\<exists>cn ders. peerCerts = hr_AgentCertDER res # ders \<and>
           x509_cn ops (hr_AgentCertDER res) = Some cn \<and> uuid_parse ops cn = Some (hr_DeviceID res) \<and>
           (if hr_Skipped res
            then hs_out s' = hs_out s \<and>
                 (\<exists>h0 \<in> set (trusted h). hs_in s = EncodeSkipAuth h0 @ hs_in s')
            else (\<exists>an. hs_in s = EncodeAgentHello an (sha384 ops (hr_AgentCertDER res)) @ hs_in s') \<and>
                 (\<exists>nonce reply. hs_rand s = nonce @ hs_rand s' \<and> hs_out s' = hs_out s @ reply \<and>
                    DecodeServerHello reply = Inr (nonce, caCertHash h)))"
proof -
  obtain t r where r: "hs_in s = t # r" "t = MsgAgentHello \<or> t = MsgSkipAuth"
    using assms(1) by (auto simp: PerformHandshake_cases split: list.splits if_splits)
  show ?thesis
  proof (cases "t = MsgAgentHello")
    case True
    then have "fullHandshake ops (buffer_write :: ('e, bytes) writer) h (s\<lparr>hs_in := r\<rparr>) peerCerts
                 = (Inr res, s')"
      using assms(1) r by (simp add: PerformHandshake_cases)
    then obtain nonce agentNonce r' cn ders where
      i: "r = agentNonce @ sha384 ops (hr_AgentCertDER res) @ r'" "hs_in s' = r'"
      and p: "peerCerts = hr_AgentCertDER res # ders" "x509_cn ops (hr_AgentCertDER res) = Some cn"
        "uuid_parse ops cn = Some (hr_DeviceID res)" "\<not> hr_Skipped res"
      and n: "length nonce = 32" "hs_rand s = nonce @ hs_rand s'"
      and w: "hs_out s' = hs_out s @ EncodeServerHello nonce (caCertHash h)"
      by (elim fullHandshake_InrD) (simp add: buffer_write_def)
    have "hs_in s = EncodeAgentHello agentNonce (sha384 ops (hr_AgentCertDER res)) @ hs_in s'"
      using r(1) True i by (simp add: EncodeAgentHello_def)
    with p n w DecodeServerHello_Encode [OF n(1) assms(2)] show ?thesis by auto
  next
    case False
    then have "(fastHandshake ops h (s\<lparr>hs_in := r\<rparr>) peerCerts ::
                 ('e handshake_error + _) \<times> bytes handshake_stream) = (Inr res, s')"
      using assms(1) r by (simp add: PerformHandshake_cases)
    then show ?thesis
      using r False by (elim fastHandshake_InrD) (auto simp: EncodeSkipAuth_def)
  qed
qed

text \<open>
  An agent that sends \<open>AgentHello\<close> with the digest of the certificate it presented over TLS is
  accepted on the full path, and one that sends \<open>SkipAuth\<close> with any trusted master key's hash is
  accepted on the fast path; both leave the rest of the stream untouched.
\<close>

lemma PerformHandshake_complete:
  assumes "x509_cn ops der = Some cn" "uuid_parse ops cn = Some deviceID"
    and "length an = 32" "length (sha384 ops der) = 48" "length nonce = 32"
    and "h0 \<in> set (trusted h)" "length h0 = 48"
  shows "PerformHandshake ops (buffer_write :: ('e, bytes) writer) h
           \<lparr>hs_in = EncodeAgentHello an (sha384 ops der) @ rest, hs_out = w, hs_rand = nonce @ rnd\<rparr>
           (der # ders) =
         (Inr \<lparr>hr_DeviceID = deviceID, hr_AgentCertDER = der, hr_Skipped = False\<rparr>,
          \<lparr>hs_in = rest, hs_out = w @ EncodeServerHello nonce (caCertHash h), hs_rand = rnd\<rparr>) \<and>
         PerformHandshake ops (buffer_write :: ('e, bytes) writer) h
           \<lparr>hs_in = EncodeSkipAuth h0 @ rest, hs_out = w, hs_rand = rnd\<rparr> (der # ders) =
         (Inr \<lparr>hr_DeviceID = deviceID, hr_AgentCertDER = der, hr_Skipped = True\<rparr>,
          \<lparr>hs_in = rest, hs_out = w, hs_rand = rnd\<rparr>)"
proof
  have body: "read_full 80 (an @ sha384 ops der @ rest) = Inr (an @ sha384 ops der, rest)"
    using assms(3,4) read_full_exact [of "an @ sha384 ops der" 80 rest] by simp
  show "PerformHandshake ops (buffer_write :: ('e, bytes) writer) h
           \<lparr>hs_in = EncodeAgentHello an (sha384 ops der) @ rest, hs_out = w, hs_rand = nonce @ rnd\<rparr>
           (der # ders) =
         (Inr \<lparr>hr_DeviceID = deviceID, hr_AgentCertDER = der, hr_Skipped = False\<rparr>,
          \<lparr>hs_in = rest, hs_out = w @ EncodeServerHello nonce (caCertHash h), hs_rand = rnd\<rparr>)"
    using assms body read_full_exact [of nonce 32 rnd]
    by (simp add: PerformHandshake_cases EncodeAgentHello_def fullHandshake_def Let_def
        identityFromPeer_def writeServerHello_def buffer_write_def)
next
  show "PerformHandshake ops (buffer_write :: ('e, bytes) writer) h
           \<lparr>hs_in = EncodeSkipAuth h0 @ rest, hs_out = w, hs_rand = rnd\<rparr> (der # ders) =
         (Inr \<lparr>hr_DeviceID = deviceID, hr_AgentCertDER = der, hr_Skipped = True\<rparr>,
          \<lparr>hs_in = rest, hs_out = w, hs_rand = rnd\<rparr>)"
    using assms read_full_exact [of h0 48 rest]
    by (simp add: PerformHandshake_cases EncodeSkipAuth_def fastHandshake_def Let_def
        identityFromPeer_def handshake_types)
qed

text \<open>A concrete certificate, digest and server for the two witnesses.\<close>

definition demo_ops :: cert_ops where
  "demo_ops = \<lparr>x509_cn = (\<lambda>der. if der = [1] then Some ''id'' else None),
               sha384 = (\<lambda>der. replicate 48 (hd der)),
               uuid_parse = (\<lambda>cn. if cn = ''id'' then Some 5 else None)\<rparr>"

definition demo_handshaker :: handshaker where
  "demo_handshaker = \<lparr>caCertHash = replicate 48 3, trusted = [replicate 48 3, replicate 48 4]\<rparr>"

theorem PerformHandshake_sound_witness:
  "\<exists>res s'. PerformHandshake demo_ops (buffer_write :: (unit, bytes) writer) demo_handshaker
      \<lparr>hs_in = EncodeSkipAuth (replicate 48 4) @ [8], hs_out = [], hs_rand = []\<rparr> [[1]] = (Inr res, s')
      \<and> hr_Skipped res \<and> hr_DeviceID res = 5 \<and> hs_out s' = []"
proof -
  let ?s = "\<lparr>hs_in = EncodeSkipAuth (replicate 48 4) @ [8], hs_out = [], hs_rand = []\<rparr>"
  let ?res = "\<lparr>hr_DeviceID = 5, hr_AgentCertDER = [1], hr_Skipped = True\<rparr>"
  let ?s' = "\<lparr>hs_in = [8], hs_out = [], hs_rand = []\<rparr>"
  have run: "PerformHandshake demo_ops (buffer_write :: (unit, bytes) writer) demo_handshaker ?s [[1]]
               = (Inr ?res, ?s')"
    using read_full_exact [of "replicate 48 4" 48 "[8]"]
    by (simp add: PerformHandshake_cases EncodeSkipAuth_def fastHandshake_def Let_def
        identityFromPeer_def handshake_types demo_ops_def demo_handshaker_def)
  have "length (caCertHash demo_handshaker) = 48" by (simp add: demo_handshaker_def)
  from PerformHandshake_sound [OF run this] run show ?thesis by simp
qed

end
