(* ===== verification/Settings_Ladder.thy ===== *)
theory Settings_Ladder
  imports OG_Prelude
begin

text \<open>
  Resolution of a configurable value along the tenancy ladder (machine, site, customer, tenant,
  shipped default): \<open>server/internal/settings/settings.go\<close>. A level is a Go \<open>int\<close>, so a value that
  names no rung is possible and every default branch of the source is kept.
\<close>

type_synonym Level = int

definition LevelDevice :: Level where "LevelDevice = 0"
definition LevelSite :: Level where "LevelSite = 1"
definition LevelOrganization :: Level where "LevelOrganization = 2"
definition LevelTenant :: Level where "LevelTenant = 3"
definition LevelShipped :: Level where "LevelShipped = 4"

lemmas levels = LevelDevice_def LevelSite_def LevelOrganization_def LevelTenant_def LevelShipped_def

definition Level_String :: "Level \<Rightarrow> string" where
  "Level_String l =
     (if l = LevelDevice then ''device'' else if l = LevelSite then ''site''
      else if l = LevelOrganization then ''organization'' else if l = LevelTenant then ''tenant''
      else if l = LevelShipped then ''shipped'' else ''unknown'')"

definition storableLevels :: "Level list" where
  "storableLevels = [LevelDevice, LevelSite, LevelOrganization, LevelTenant]"

record Scope =
  sc_DeviceID :: uuid
  sc_SiteID :: uuid
  sc_OrganizationID :: uuid
  sc_TenantID :: uuid

definition Scope_Key :: "Scope \<Rightarrow> Level \<Rightarrow> uuid \<times> bool" where
  "Scope_Key s level =
     (let stored = (\<lambda>id. (id, id \<noteq> uuid_Nil)) in
      if level = LevelDevice then stored (sc_DeviceID s)
      else if level = LevelSite then stored (sc_SiteID s)
      else if level = LevelOrganization then stored (sc_OrganizationID s)
      else if level = LevelTenant then stored (sc_TenantID s)
      else (uuid_Nil, False))"

record 'v Override =
  ov_Level :: Level
  ov_ScopeID :: uuid
  ov_Value :: 'v

datatype Direction = NarrowestWins | BroadestWins

definition ladder :: "Direction \<Rightarrow> Level list" where
  "ladder direction = (if direction = BroadestWins then rev storableLevels else storableLevels)"

fun resolve_rungs ::
  "Scope \<Rightarrow> 'v Override list \<Rightarrow> 'v \<Rightarrow> Level list \<Rightarrow> 'v \<times> Level" where
  "resolve_rungs scope overrides shipped [] = (shipped, LevelShipped)"
| "resolve_rungs scope overrides shipped (level # rungs) =
     (case Scope_Key scope level of
        (key, present) \<Rightarrow>
          if \<not> present then resolve_rungs scope overrides shipped rungs
          else (case find (\<lambda>o'. ov_Level o' = level \<and> ov_ScopeID o' = key) overrides of
                  Some o' \<Rightarrow> (ov_Value o', level)
                | None \<Rightarrow> resolve_rungs scope overrides shipped rungs))"

definition settings_Resolve ::
  "Scope \<Rightarrow> 'v Override list \<Rightarrow> 'v \<Rightarrow> Direction \<Rightarrow> 'v \<times> Level" where
  "settings_Resolve scope overrides shipped direction =
     resolve_rungs scope overrides shipped (ladder direction)"

section \<open>What resolution promises\<close>

text \<open>An override counts for a scope when it was set on a rung the scope has, for the thing there.\<close>

definition on_ladder :: "Scope \<Rightarrow> 'v Override \<Rightarrow> bool" where
  "on_ladder scope o' \<longleftrightarrow> Scope_Key scope (ov_Level o') = (ov_ScopeID o', True)"

text \<open>Rank of a rung: the smaller wins.\<close>

definition rung_rank :: "Direction \<Rightarrow> Level \<Rightarrow> int" where
  "rung_rank direction l = (if direction = BroadestWins then - l else l)"

lemma on_ladder_storable: "on_ladder scope o' \<Longrightarrow> ov_Level o' \<in> set storableLevels"
  by (auto simp: on_ladder_def Scope_Key_def Let_def storableLevels_def split: if_splits)

lemma set_ladder [simp]: "set (ladder direction) = set storableLevels"
  by (simp add: ladder_def)

lemma sorted_ladder: "sorted_wrt (\<lambda>a b. rung_rank direction a < rung_rank direction b) (ladder direction)"
  by (cases direction) (auto simp: ladder_def storableLevels_def rung_rank_def levels)

lemma shipped_not_storable: "LevelShipped \<notin> set storableLevels"
  by (simp add: storableLevels_def levels)

lemma find_Some_iff':
  "find P xs = Some x \<Longrightarrow> x \<in> set xs \<and> P x"
  by (induction xs) (auto split: if_splits)

text \<open>One rung: it decides when an override is set on it for this scope, and is passed over else.\<close>

lemma resolve_rungs_hit:
  fixes overrides :: "'v Override list"
  assumes "find (\<lambda>x. on_ladder scope x \<and> ov_Level x = level) overrides = Some o'"
  shows "resolve_rungs scope overrides shipped (level # rungs) = (ov_Value o', level)"
proof -
  obtain key present where key: "Scope_Key scope level = (key, present)" by fastforce
  have "on_ladder scope o'" "ov_Level o' = level" using find_Some_iff' [OF assms] by simp_all
  then have present using key by (simp add: on_ladder_def)
  then have "on_ladder scope x \<and> ov_Level x = level \<longleftrightarrow> ov_Level x = level \<and> ov_ScopeID x = key"
    for x :: "'v Override"
    using key by (auto simp: on_ladder_def)
  then show ?thesis using assms key \<open>present\<close> by simp
qed

lemma resolve_rungs_miss:
  fixes overrides :: "'v Override list"
  assumes "find (\<lambda>x. on_ladder scope x \<and> ov_Level x = level) overrides = None"
  shows "resolve_rungs scope overrides shipped (level # rungs) =
         resolve_rungs scope overrides shipped rungs"
proof -
  obtain key present where key: "Scope_Key scope level = (key, present)" by fastforce
  have "on_ladder scope x \<and> ov_Level x = level \<longleftrightarrow> ov_Level x = level \<and> ov_ScopeID x = key"
    if present for x :: "'v Override"
    using key that by (auto simp: on_ladder_def)
  then show ?thesis using assms key by (cases present) simp_all
qed

lemma resolve_rungs_decided:
  assumes "resolve_rungs scope overrides shipped rungs = (v, l)"
    and "sorted_wrt (\<lambda>a b. rung_rank direction a < rung_rank direction b) rungs"
  shows "v = shipped \<and> l = LevelShipped \<and>
           (\<forall>x \<in> set overrides. on_ladder scope x \<longrightarrow> ov_Level x \<notin> set rungs) \<or>
         (\<exists>o'. l \<in> set rungs \<and> v = ov_Value o' \<and>
            find (\<lambda>x. on_ladder scope x \<and> ov_Level x = l) overrides = Some o' \<and>
            (\<forall>x \<in> set overrides. on_ladder scope x \<longrightarrow> ov_Level x \<in> set rungs \<longrightarrow>
               rung_rank direction l \<le> rung_rank direction (ov_Level x)))"
  using assms
proof (induction rungs)
  case Nil
  then show ?case by simp
next
  case (Cons level rungs)
  show ?case
  proof (cases "find (\<lambda>x. on_ladder scope x \<and> ov_Level x = level) overrides")
    case None
    then have "resolve_rungs scope overrides shipped rungs = (v, l)"
      using Cons.prems(1) resolve_rungs_miss [OF None, of shipped rungs] by simp
    moreover have "\<forall>x \<in> set overrides. on_ladder scope x \<longrightarrow> ov_Level x \<noteq> level"
      using None by (auto simp: find_None_iff)
    ultimately show ?thesis using Cons.IH Cons.prems(2) by auto
  next
    case (Some o')
    then have "v = ov_Value o'" "l = level"
      using Cons.prems(1) resolve_rungs_hit [OF Some, of shipped rungs] by simp_all
    moreover have "\<forall>l \<in> set (level # rungs). rung_rank direction level \<le> rung_rank direction l"
      using Cons.prems(2) by (auto simp: less_imp_le)
    ultimately show ?thesis using Some by auto
  qed
qed

text \<open>
  The value returned is the one set on the winning rung: the narrowest rung of this machine's own
  ladder that carries an override (the broadest for a stop), the first override listed there, and
  the shipped default with the shipped level exactly when no override belongs to the ladder.
\<close>

lemma settings_Resolve_decided:
  "case settings_Resolve scope overrides shipped direction of (v, l) \<Rightarrow>
     (if l = LevelShipped
      then v = shipped \<and> (\<forall>x \<in> set overrides. \<not> on_ladder scope x)
      else \<exists>o'. find (\<lambda>x. on_ladder scope x \<and> ov_Level x = l) overrides = Some o' \<and>
             v = ov_Value o' \<and>
             (\<forall>x \<in> set overrides. on_ladder scope x \<longrightarrow>
                rung_rank direction l \<le> rung_rank direction (ov_Level x)))"
proof -
  obtain v l where vl: "settings_Resolve scope overrides shipped direction = (v, l)" by fastforce
  from resolve_rungs_decided [OF vl [unfolded settings_Resolve_def] sorted_ladder]
  show ?thesis
    using shipped_not_storable vl
    by (auto dest: on_ladder_storable)
qed

text \<open>
  A machine with no site, a customer value, a tenant value and a value of another customer: the
  customer's wins.
\<close>

definition demo_scope :: Scope where
  "demo_scope = \<lparr>sc_DeviceID = 1, sc_SiteID = 0, sc_OrganizationID = 2, sc_TenantID = 3\<rparr>"

definition demo_overrides :: "int Override list" where
  "demo_overrides =
     [\<lparr>ov_Level = LevelTenant, ov_ScopeID = 3, ov_Value = 20\<rparr>,
      \<lparr>ov_Level = LevelOrganization, ov_ScopeID = 9, ov_Value = 30\<rparr>,
      \<lparr>ov_Level = LevelOrganization, ov_ScopeID = 2, ov_Value = 10\<rparr>]"

lemma demo_overrides_resolved:
  "settings_Resolve demo_scope demo_overrides 0 NarrowestWins = (10, LevelOrganization)"
  by (simp add: settings_Resolve_def ladder_def storableLevels_def demo_scope_def demo_overrides_def
      Scope_Key_def levels)

text \<open>Only overrides of the machine's own ladder are read.\<close>

lemma find_filter_imp:
  "(\<And>x. P x \<Longrightarrow> Q x) \<Longrightarrow> find P (filter Q xs) = find P xs"
  by (induction xs) auto

lemma settings_Resolve_isolated:
  "settings_Resolve scope (filter (on_ladder scope) overrides) shipped direction =
   settings_Resolve scope overrides shipped direction"
proof -
  have "resolve_rungs scope (filter (on_ladder scope) overrides) shipped rungs =
        resolve_rungs scope overrides shipped rungs" for rungs
  proof (induction rungs)
    case (Cons level rungs)
    have f: "find (\<lambda>x. on_ladder scope x \<and> ov_Level x = level) (filter (on_ladder scope) overrides) =
             find (\<lambda>x. on_ladder scope x \<and> ov_Level x = level) overrides"
      by (rule find_filter_imp) simp
    show ?case
    proof (cases "find (\<lambda>x. on_ladder scope x \<and> ov_Level x = level) overrides")
      case None
      then show ?thesis using Cons f resolve_rungs_miss [OF None] resolve_rungs_miss [OF f [unfolded None]]
        by simp
    next
      case (Some o')
      then show ?thesis using resolve_rungs_hit [OF Some] resolve_rungs_hit [OF f [unfolded Some]]
        by simp
    qed
  qed simp
  then show ?thesis by (simp add: settings_Resolve_def)
qed

end
