(* ===== verification/Rule_Catalogue.thy ===== *)
theory Rule_Catalogue
  imports OG_Prelude
begin

text \<open>
  The rule catalogue: the metric vocabulary of \<open>server/internal/protocol/rules.go\<close>, the
  definitions and vocabularies of \<open>server/internal/rules/catalogue.go\<close>, their validation
  (\<open>catalogue_validate.go\<close>), their cost (\<open>cost.go\<close>) and the loader that admits a pack
  (\<open>catalogue_load.go\<close>). The YAML decoder and the digest of a definition are parameters.
\<close>

section \<open>Metric vocabulary\<close>

definition RuleMetrics :: "string list" where
  "RuleMetrics =
     [''cpu.total'', ''mem.used_percent'', ''disk.used_percent'', ''disk.mounts_critical'',
      ''net.rx_bps'', ''net.tx_bps'', ''stall.cpu.some'', ''stall.mem.some'', ''stall.mem.full'',
      ''stall.io.some'', ''stall.io.full'', ''disk.await_ms'', ''disk.queue_depth'']"

definition RuleMetricAliases :: "(string, string) gomap" where
  "RuleMetricAliases = [(''mem.used'', ''mem.used_percent''), (''disk.used'', ''disk.used_percent'')]"

definition CanonicalRuleMetric :: "string \<Rightarrow> string option" where
  "CanonicalRuleMetric name =
     (if name \<in> set RuleMetrics then Some name else map_of RuleMetricAliases name)"

lemma CanonicalRuleMetric_canonical:
  "CanonicalRuleMetric name = Some m \<Longrightarrow> m \<in> set RuleMetrics"
  by (auto simp: CanonicalRuleMetric_def RuleMetricAliases_def RuleMetrics_def split: if_splits)

lemma CanonicalRuleMetric_idem:
  "CanonicalRuleMetric name = Some m \<Longrightarrow> CanonicalRuleMetric m = Some m"
  by (drule CanonicalRuleMetric_canonical) (simp add: CanonicalRuleMetric_def)

section \<open>Vocabularies\<close>

datatype AlertComparator = AlertComparatorGt | AlertComparatorLt | AlertComparatorGte | AlertComparatorLte
datatype RulePredicate =
  RulePredicateInstant | RulePredicateRate | RulePredicateWindowMax | RulePredicateWindowMean
datatype AlertSeverity = AlertSeverityInfo | AlertSeverityWarning | AlertSeverityCritical

definition maxRuleIDLen :: nat where "maxRuleIDLen = 64"

definition groupByVocabulary :: "string list" where
  "groupByVocabulary = [''device'', ''site'', ''organization'', ''mount'', ''metric'']"

definition evidenceVocabulary :: "string list" where
  "evidenceVocabulary = [''vitals'', ''top_processes'', ''recent_logs'', ''inventory'', ''correlation'']"

definition comparatorVocabulary :: "(string, AlertComparator) gomap" where
  "comparatorVocabulary =
     [(''gt'', AlertComparatorGt), (''lt'', AlertComparatorLt),
      (''gte'', AlertComparatorGte), (''lte'', AlertComparatorLte)]"

definition predicateVocabulary :: "(string, RulePredicate) gomap" where
  "predicateVocabulary =
     [('''', RulePredicateInstant), (''Instant'', RulePredicateInstant), (''Rate'', RulePredicateRate),
      (''WindowMax'', RulePredicateWindowMax), (''WindowMean'', RulePredicateWindowMean)]"

definition severityVocabulary :: "(string, AlertSeverity) gomap" where
  "severityVocabulary =
     [(''info'', AlertSeverityInfo), (''warning'', AlertSeverityWarning),
      (''critical'', AlertSeverityCritical)]"

definition minRuleVersion :: int where "minRuleVersion = 1"
definition maxRuleVersion :: int where "maxRuleVersion = 2 ^ 32 - 1"

definition KindEvent :: string where "KindEvent = ''event''"

section \<open>Definitions\<close>

record Bounds =
  b_Min :: float64
  b_Max :: float64

definition Bounds_Contains :: "Bounds \<Rightarrow> float64 \<Rightarrow> bool" where
  "Bounds_Contains b v \<longleftrightarrow> f64_le (b_Min b) v \<and> f64_le v (b_Max b)"

record Term =
  t_Metric :: string
  t_ComparatorName :: string
  t_Threshold :: float64
  t_Clear :: float64
  t_PredicateName :: string
  t_WindowSecs :: "32 word"

record Definition =
  d_ID :: string
  d_Version :: int
  d_Kind :: string
  d_Severity :: string
  d_Summary :: string
  d_Metric :: string
  d_ComparatorName :: string
  d_Threshold :: float64
  d_Clear :: float64
  d_SustainSecs :: "32 word"
  d_PredicateName :: string
  d_WindowSecs :: "32 word"
  d_All :: "Term list"
  d_GroupBy :: "string list"
  d_GroupWindowSecs :: "32 word"
  d_Evidence :: "string list"
  d_CoverageRequires :: "string list"
  d_Tunable :: "(string, Bounds) gomap"

definition WatchesEvents :: "Definition \<Rightarrow> bool" where
  "WatchesEvents d \<longleftrightarrow> d_Kind d = KindEvent"

text \<open>
  The wire enums a name resolves to. A Go map lookup of an absent key gives the zero value, the
  empty name, which is no constructor here: \<open>None\<close>.
\<close>

definition WireSeverity :: "Definition \<Rightarrow> AlertSeverity option" where
  "WireSeverity d = map_of severityVocabulary (d_Severity d)"

definition Definition_Comparator :: "Definition \<Rightarrow> AlertComparator option" where
  "Definition_Comparator d = map_of comparatorVocabulary (d_ComparatorName d)"

definition Definition_Predicate :: "Definition \<Rightarrow> RulePredicate option" where
  "Definition_Predicate d = map_of predicateVocabulary (d_PredicateName d)"

definition Term_Comparator :: "Term \<Rightarrow> AlertComparator option" where
  "Term_Comparator t = map_of comparatorVocabulary (t_ComparatorName t)"

definition Term_Predicate :: "Term \<Rightarrow> RulePredicate option" where
  "Term_Predicate t = map_of predicateVocabulary (t_PredicateName t)"

fun nat_digits :: "nat \<Rightarrow> string" where
  "nat_digits n =
     (if n < 10 then [char_of (48 + n)] else nat_digits (n div 10) @ [char_of (48 + n mod 10)])"

declare nat_digits.simps [simp del]

text \<open>\<open>strconv.Itoa\<close>.\<close>

definition Itoa :: "int \<Rightarrow> string" where
  "Itoa i = (if i < 0 then CHR ''-'' # nat_digits (nat (- i)) else nat_digits (nat i))"

definition Definition_Key :: "Definition \<Rightarrow> string" where
  "Definition_Key d = d_ID d @ ''@'' @ Itoa (d_Version d)"

definition ShippedParam :: "Definition \<Rightarrow> string \<Rightarrow> float64 \<times> bool" where
  "ShippedParam d name =
     (if name = ''threshold'' then (d_Threshold d, True)
      else if name = ''clear'' then (d_Clear d, True)
      else if name = ''sustain_secs'' then (f64_of_u32 (d_SustainSecs d), True)
      else if name = ''window_secs'' then (f64_of_u32 (d_WindowSecs d), True)
      else (F64 0, False))"

section \<open>Validation\<close>

datatype definition_error =
    IdRequired
  | IdMalformed
  | VersionOutOfRange
  | SummaryRequired
  | UnknownSeverity string
  | UnknownKind string
  | MetricOutsideVocabulary string
  | UnknownComparator string
  | UnknownPredicate string
  | InTerm nat definition_error
  | EventRuleNames string string
  | EventRuleHasTerms
  | EventRuleHasTunables
  | GroupByRequired
  | UnknownGroupBy string
  | GroupWindowZero
  | UnknownEvidence string
  | UnknownCoverageMetric string
  | NotTunable string
  | InvertedBounds string
  | ShippedOutsideBounds string

text \<open>A check is \<open>None\<close> when it passes; the source returns the first error of a sequence.\<close>

fun first_error :: "'e option list \<Rightarrow> 'e option" where
  "first_error [] = None"
| "first_error (c # cs) = (case c of Some e \<Rightarrow> Some e | None \<Rightarrow> first_error cs)"

lemma first_error_None [simp]: "first_error cs = None \<longleftrightarrow> (\<forall>c \<in> set cs. c = None)"
  by (induction cs) (auto split: option.splits)

definition validRuleID :: "string \<Rightarrow> bool" where
  "validRuleID name \<longleftrightarrow>
     list_all (\<lambda>r. CHR ''a'' \<le> r \<and> r \<le> CHR ''z'' \<or> CHR ''0'' \<le> r \<and> r \<le> CHR ''9'' \<or> r = CHR ''-'') name"

definition validateIdentity :: "Definition \<Rightarrow> definition_error option" where
  "validateIdentity d =
     (if d_ID d = '''' then Some IdRequired
      else if length (d_ID d) > maxRuleIDLen \<or> \<not> validRuleID (d_ID d) then Some IdMalformed
      else if d_Version d < minRuleVersion \<or> d_Version d > maxRuleVersion then Some VersionOutOfRange
      else if d_Summary d = '''' then Some SummaryRequired
      else if map_of severityVocabulary (d_Severity d) = None then Some (UnknownSeverity (d_Severity d))
      else None)"

definition validateCondition :: "string \<Rightarrow> string \<Rightarrow> string \<Rightarrow> definition_error option" where
  "validateCondition metric comparator predicate =
     (if CanonicalRuleMetric metric = None then Some (MetricOutsideVocabulary metric)
      else if map_of comparatorVocabulary comparator = None then Some (UnknownComparator comparator)
      else if map_of predicateVocabulary predicate = None then Some (UnknownPredicate predicate)
      else None)"

definition validateEventRule :: "Definition \<Rightarrow> definition_error option" where
  "validateEventRule d =
     (case first_error (map (\<lambda>(name, value). if value \<noteq> '''' then Some (EventRuleNames name value) else None)
         [(''metric'', d_Metric d), (''comparator'', d_ComparatorName d), (''predicate'', d_PredicateName d)]) of
        Some e \<Rightarrow> Some e
      | None \<Rightarrow>
          if d_All d \<noteq> [] then Some EventRuleHasTerms
          else if d_Tunable d \<noteq> [] then Some EventRuleHasTunables
          else None)"

definition validateWhatItWatches :: "Definition \<Rightarrow> definition_error option" where
  "validateWhatItWatches d =
     (if WatchesEvents d then validateEventRule d
      else if d_Kind d \<noteq> '''' then Some (UnknownKind (d_Kind d))
      else (case validateCondition (d_Metric d) (d_ComparatorName d) (d_PredicateName d) of
              Some e \<Rightarrow> Some e
            | None \<Rightarrow> first_error (map (\<lambda>(i, t). map_option (InTerm i)
                 (validateCondition (t_Metric t) (t_ComparatorName t) (t_PredicateName t)))
                 (enumerate 0 (d_All d)))))"

definition validateGrouping :: "Definition \<Rightarrow> definition_error option" where
  "validateGrouping d =
     (if d_GroupBy d = [] then Some GroupByRequired
      else case first_error (map (\<lambda>key. if key \<notin> set groupByVocabulary then Some (UnknownGroupBy key) else None)
              (d_GroupBy d)) of
        Some e \<Rightarrow> Some e
      | None \<Rightarrow>
          if d_GroupWindowSecs d = 0 then Some GroupWindowZero
          else case first_error (map (\<lambda>kind. if kind \<notin> set evidenceVocabulary then Some (UnknownEvidence kind) else None)
                  (d_Evidence d)) of
            Some e \<Rightarrow> Some e
          | None \<Rightarrow> first_error (map (\<lambda>metric. if CanonicalRuleMetric metric = None
                  then Some (UnknownCoverageMetric metric) else None) (d_CoverageRequires d)))"

definition validateTunable :: "Definition \<Rightarrow> definition_error option" where
  "validateTunable d =
     first_error (map (\<lambda>name.
       case (map_of (d_Tunable d) name, ShippedParam d name) of
         (Some bounds, shipped, ok) \<Rightarrow>
           if \<not> ok then Some (NotTunable name)
           else if f64_lt (b_Max bounds) (b_Min bounds) then Some (InvertedBounds name)
           else if \<not> Bounds_Contains bounds shipped then Some (ShippedOutsideBounds name)
           else None
       | (None, _) \<Rightarrow> None)
     (sort (map fst (d_Tunable d))))"

text \<open>The error names the rule by its id, or by its position when it has none.\<close>

definition validateDefinition :: "Definition \<Rightarrow> nat \<Rightarrow> (string \<times> definition_error) option" where
  "validateDefinition d index =
     map_option (\<lambda>e. (if d_ID d = '''' then ''#'' @ Itoa (int index) else d_ID d, e))
       (first_error [validateIdentity d, validateWhatItWatches d, validateGrouping d, validateTunable d])"

section \<open>Cost\<close>

definition MaxRuleCost :: "64 word" where "MaxRuleCost = 3600"
definition MaxCatalogueCost :: "64 word" where "MaxCatalogueCost = 20000"

definition predicateCost :: "RulePredicate option \<Rightarrow> 32 word \<Rightarrow> 64 word" where
  "predicateCost predicate windowSecs =
     (if predicate = Some RulePredicateInstant then 1 else ucast windowSecs + 1)"

definition saturatingAdd :: "64 word \<Rightarrow> 64 word \<Rightarrow> 64 word" where
  "saturatingAdd a b = (let sum = a + b in if sum \<ge> a then sum else NOT 0)"

definition RuleCost :: "Definition \<Rightarrow> 64 word" where
  "RuleCost d =
     (if WatchesEvents d then 0
      else fold (\<lambda>t cost. saturatingAdd cost (predicateCost (Term_Predicate t) (t_WindowSecs t)))
             (d_All d) (predicateCost (Definition_Predicate d) (d_WindowSecs d)))"

section \<open>Loading a pack\<close>

record Catalogue =
  c_byID :: "(string, Definition) gomap"
  c_order :: "string list"

definition Catalogue_All :: "Catalogue \<Rightarrow> Definition list" where
  "Catalogue_All c = map (\<lambda>i. the (map_of (c_byID c) i)) (c_order c)"

definition Catalogue_Lookup :: "Catalogue \<Rightarrow> string \<Rightarrow> Definition option" where
  "Catalogue_Lookup c i = map_of (c_byID c) i"

datatype load_error =
    ParseFailed
  | NoRules
  | DefinitionInvalid string definition_error
  | DuplicateKey string
  | DuplicateID string
  | DigestFailed string
  | ImmutableChanged string
  | RuleTooCostly string
  | CatalogueTooCostly

text \<open>
  The digest of a definition, \<open>None\<close> when it cannot be encoded; a lock maps keys to the digests they
  were committed with.
\<close>

type_synonym digest = "Definition \<Rightarrow> string option"
type_synonym Lock = "(string, string) gomap"

definition checkLock :: "digest \<Rightarrow> Definition \<Rightarrow> Lock option \<Rightarrow> load_error option" where
  "checkLock digest d lock =
     (case lock of
        None \<Rightarrow> None
      | Some l \<Rightarrow>
          (case map_of l (Definition_Key d) of
             None \<Rightarrow> None
           | Some want \<Rightarrow>
               (case digest d of
                  None \<Rightarrow> Some (DigestFailed (d_ID d))
                | Some got \<Rightarrow> if got \<noteq> want then Some (ImmutableChanged (Definition_Key d)) else None)))"

text \<open>The loop's variables: the catalogue under construction, the keys seen and the total cost.\<close>

record load_state =
  ls_cat :: Catalogue
  ls_seen :: "string list"
  ls_total :: "64 word"

definition load_one ::
  "digest \<Rightarrow> Lock option \<Rightarrow> nat \<times> Definition \<Rightarrow> load_state \<Rightarrow> load_error + load_state" where
  "load_one digest lock e s =
     (let i = fst e; d = snd e; cat = ls_cat s in
      case validateDefinition d i of
        Some (where', err) \<Rightarrow> Inl (DefinitionInvalid where' err)
      | None \<Rightarrow>
          if Definition_Key d \<in> set (ls_seen s) then Inl (DuplicateKey (Definition_Key d))
          else if map_of (c_byID cat) (d_ID d) \<noteq> None then Inl (DuplicateID (d_ID d))
          else (case checkLock digest d lock of
            Some err \<Rightarrow> Inl err
          | None \<Rightarrow>
              if RuleCost d > MaxRuleCost then Inl (RuleTooCostly (Definition_Key d))
              else Inr \<lparr>ls_cat = \<lparr>c_byID = gomap_put (d_ID d) d (c_byID cat),
                                  c_order = c_order cat @ [d_ID d]\<rparr>,
                        ls_seen = Definition_Key d # ls_seen s,
                        ls_total = ls_total s + RuleCost d\<rparr>))"

fun load_all ::
  "digest \<Rightarrow> Lock option \<Rightarrow> (nat \<times> Definition) list \<Rightarrow> load_state \<Rightarrow> load_error + load_state" where
  "load_all digest lock [] s = Inr s"
| "load_all digest lock (e # es) s =
     (case load_one digest lock e s of Inl err \<Rightarrow> Inl err | Inr s' \<Rightarrow> load_all digest lock es s')"

definition parseDefinitions ::
  "(bytes \<Rightarrow> Definition list option) \<Rightarrow> bytes \<Rightarrow> load_error + Definition list" where
  "parseDefinitions yaml data =
     (case yaml data of
        None \<Rightarrow> Inl ParseFailed
      | Some rules \<Rightarrow> if rules = [] then Inl NoRules else Inr rules)"

definition LoadCatalogue ::
  "(bytes \<Rightarrow> Definition list option) \<Rightarrow> digest \<Rightarrow> bytes \<Rightarrow> Lock option \<Rightarrow> load_error + Catalogue" where
  "LoadCatalogue yaml digest data lock =
     (case parseDefinitions yaml data of
        Inl err \<Rightarrow> Inl err
      | Inr defs \<Rightarrow>
          (case load_all digest lock (enumerate 0 defs)
                  \<lparr>ls_cat = \<lparr>c_byID = [], c_order = []\<rparr>, ls_seen = [], ls_total = 0\<rparr> of
             Inl err \<Rightarrow> Inl err
           | Inr s \<Rightarrow>
               if ls_total s > MaxCatalogueCost then Inl CatalogueTooCostly
               else Inr \<lparr>c_byID = c_byID (ls_cat s), c_order = sort (c_order (ls_cat s))\<rparr>))"

section \<open>Properties\<close>

lemma unat_saturatingAdd: "unat (saturatingAdd a b) = min (2 ^ 64 - 1) (unat a + unat b)"
proof (cases "unat a + unat b < 18446744073709551616")
  case True
  then have sum: "unat (a + b) = unat a + unat b" by (simp add: unat_word_ariths)
  then have "a \<le> a + b" by (simp add: word_le_nat_alt)
  then show ?thesis using True sum by (simp add: saturatingAdd_def Let_def)
next
  case False
  have "unat (a + b) = (unat a + unat b) mod 18446744073709551616" by (simp add: unat_word_ariths)
  also have "\<dots> = (unat a + unat b - 18446744073709551616) mod 18446744073709551616"
    using False by (intro le_mod_geq) simp
  also have "\<dots> = unat a + unat b - 18446744073709551616"
    using unat_lt_u64 [of a] unat_lt_u64 [of b] by (intro mod_less) linarith
  finally have "unat (a + b) < unat a"
    using unat_lt_u64 [of b] False by linarith
  then have "\<not> a \<le> a + b" by (simp add: word_le_nat_alt)
  moreover have "unat (NOT 0 :: 64 word) = 2 ^ 64 - 1" by (simp add: unsigned_minus_1_eq_mask mask_eq_exp_minus_1)
  ultimately show ?thesis using False by (simp add: saturatingAdd_def Let_def)
qed

lemma unat_predicateCost:
  "unat (predicateCost p w) = (if p = Some RulePredicateInstant then 1 else unat w + 1)"
proof -
  have "Suc (unat w) < 18446744073709551616" using unat_lt_u32 [of w] by linarith
  then show ?thesis by (simp add: predicateCost_def unat_word_ariths unsigned_ucast_eq take_bit_eq_mod)
qed

text \<open>The readings a rule asks an endpoint to retain, counted without a bound.\<close>

definition term_readings :: "Term \<Rightarrow> nat" where
  "term_readings t = (if Term_Predicate t = Some RulePredicateInstant then 1 else unat (t_WindowSecs t) + 1)"

definition rule_readings :: "Definition \<Rightarrow> nat" where
  "rule_readings d =
     (if WatchesEvents d then 0
      else (if Definition_Predicate d = Some RulePredicateInstant then 1 else unat (d_WindowSecs d) + 1) +
           sum_list (map term_readings (d_All d)))"

lemma unat_fold_cost:
  "unat (fold (\<lambda>t cost. saturatingAdd cost (predicateCost (Term_Predicate t) (t_WindowSecs t))) ts c) =
     min (2 ^ 64 - 1) (unat c + sum_list (map term_readings ts))"
proof (induction ts arbitrary: c)
  case Nil
  have "unat c \<le> 18446744073709551615" using unat_lt_u64 [of c] by linarith
  then show ?case by (simp add: min_absorb2)
next
  case (Cons t ts)
  then show ?case by (simp add: unat_saturatingAdd unat_predicateCost term_readings_def)
qed

lemma unat_RuleCost: "unat (RuleCost d) = min (2 ^ 64 - 1) (rule_readings d)"
  by (simp add: RuleCost_def rule_readings_def unat_fold_cost unat_predicateCost)

text \<open>
  The cost charged to a rule is the number of readings it retains, capped at the largest
  \<open>uint64\<close>: it never wraps, so a rule over its budget is never mistaken for a cheap one.
\<close>

lemma RuleCost_never_wraps: "unat (RuleCost d) = min (2 ^ 64 - 1) (rule_readings d)"
  by (rule unat_RuleCost)

text \<open>What validation establishes of a definition's tunable parameters.\<close>

lemma validateTunable_None:
  assumes "validateTunable d = None" "map_of (d_Tunable d) name = Some bounds"
  shows "\<exists>shipped. ShippedParam d name = (shipped, True) \<and> Bounds_Contains bounds shipped"
proof -
  obtain shipped ok where sp: "ShippedParam d name = (shipped, ok)" by fastforce
  have "name \<in> set (sort (map fst (d_Tunable d)))"
    using map_of_SomeD [OF assms(2)] by force
  with assms sp show ?thesis
    by (fastforce simp: validateTunable_def split: if_splits)
qed

lemma validateDefinition_None:
  "validateDefinition d i = None \<longleftrightarrow>
     validateIdentity d = None \<and> validateWhatItWatches d = None \<and>
     validateGrouping d = None \<and> validateTunable d = None"
  by (auto simp: validateDefinition_def split: option.splits)

lemma validateDefinition_index: "validateDefinition d i = None \<Longrightarrow> validateDefinition d j = None"
  by (simp add: validateDefinition_None)

text \<open>The loop invariant: the catalogue under construction holds exactly the definitions passed.\<close>

definition admitted :: "digest \<Rightarrow> Lock option \<Rightarrow> Definition \<Rightarrow> bool" where
  "admitted digest lock d \<longleftrightarrow>
     validateDefinition d 0 = None \<and> checkLock digest d lock = None \<and> RuleCost d \<le> MaxRuleCost"

definition load_inv :: "digest \<Rightarrow> Lock option \<Rightarrow> Definition list \<Rightarrow> load_state \<Rightarrow> bool" where
  "load_inv digest lock ds s \<longleftrightarrow>
     c_order (ls_cat s) = map d_ID ds \<and> distinct (map d_ID ds) \<and>
     map_of (c_byID (ls_cat s)) = map_of (map (\<lambda>d. (d_ID d, d)) ds) \<and>
     list_all (admitted digest lock) ds \<and>
     ls_total s = sum_list (map RuleCost ds)"

lemma load_one_inv:
  assumes "load_one digest lock e s = Inr s'" "load_inv digest lock ds s"
  shows "load_inv digest lock (ds @ [snd e]) s'"
proof -
  let ?d = "snd e"
  have v: "validateDefinition ?d (fst e) = None" and new: "map_of (c_byID (ls_cat s)) (d_ID ?d) = None"
    and l: "checkLock digest ?d lock = None" and c: "\<not> RuleCost ?d > MaxRuleCost"
    and s': "s' = \<lparr>ls_cat = \<lparr>c_byID = gomap_put (d_ID ?d) ?d (c_byID (ls_cat s)),
                            c_order = c_order (ls_cat s) @ [d_ID ?d]\<rparr>,
                  ls_seen = Definition_Key ?d # ls_seen s, ls_total = ls_total s + RuleCost ?d\<rparr>"
    using assms(1) by (auto simp: load_one_def Let_def split: option.splits prod.splits if_splits)
  have fresh: "d_ID ?d \<notin> set (map d_ID ds)"
  proof -
    have "map_of (map (\<lambda>d. (d_ID d, d)) ds) (d_ID ?d) = None"
      using new assms(2) by (simp add: load_inv_def)
    then show ?thesis by (simp add: map_of_eq_None_iff image_image)
  qed
  then have "map_of (map (\<lambda>d. (d_ID d, d)) ds) (d_ID ?d) = None"
    by (simp add: map_of_eq_None_iff image_image)
  then have "map_of (map (\<lambda>d. (d_ID d, d)) (ds @ [?d])) =
        (map_of (map (\<lambda>d. (d_ID d, d)) ds))(d_ID ?d \<mapsto> ?d)"
    by (simp add: fun_eq_iff map_add_def split: option.split)
  then show ?thesis
    using assms(2) v l c fresh validateDefinition_index [OF v, of 0]
    by (simp add: load_inv_def admitted_def s')
qed

lemma load_all_inv:
  assumes "load_all digest lock es s = Inr s'" "load_inv digest lock ds s"
  shows "load_inv digest lock (ds @ map snd es) s'"
  using assms
proof (induction es arbitrary: s ds)
  case (Cons e es)
  then obtain s1 where s1: "load_one digest lock e s = Inr s1" "load_all digest lock es s1 = Inr s'"
    by (auto split: sum.splits)
  with Cons load_one_inv [OF s1(1)] show ?case by fastforce
qed simp

lemma LoadCatalogue_InrD:
  assumes "LoadCatalogue yaml digest data lock = Inr cat"
  obtains defs s where "yaml data = Some defs" "defs \<noteq> []" "load_inv digest lock defs s"
    "ls_total s \<le> MaxCatalogueCost"
    "cat = \<lparr>c_byID = c_byID (ls_cat s), c_order = sort (c_order (ls_cat s))\<rparr>"
proof -
  from assms obtain defs s where d: "yaml data = Some defs" "defs \<noteq> []"
    and run: "load_all digest lock (enumerate 0 defs)
       \<lparr>ls_cat = \<lparr>c_byID = [], c_order = []\<rparr>, ls_seen = [], ls_total = 0\<rparr> = Inr s"
    and t: "ls_total s \<le> MaxCatalogueCost"
    and cat: "cat = \<lparr>c_byID = c_byID (ls_cat s), c_order = sort (c_order (ls_cat s))\<rparr>"
    by (auto simp: LoadCatalogue_def parseDefinitions_def split: sum.splits option.splits if_splits)
  have "load_inv digest lock [] \<lparr>ls_cat = \<lparr>c_byID = [], c_order = []\<rparr>, ls_seen = [], ls_total = 0\<rparr>"
    by (simp add: load_inv_def)
  from load_all_inv [OF run this] have "load_inv digest lock defs s" by simp
  with that d t cat show thesis by blast
qed

lemma lookup_by_id:
  "distinct (map d_ID ds) \<Longrightarrow> d \<in> set ds \<Longrightarrow> map_of (map (\<lambda>d. (d_ID d, d)) ds) (d_ID d) = Some d"
  by (rule map_of_is_SomeI) (auto simp: comp_def)

lemma lookup_by_id_iff:
  "distinct (map d_ID ds) \<Longrightarrow>
     map_of (map (\<lambda>d. (d_ID d, d)) ds) i = Some d \<longleftrightarrow> d \<in> set ds \<and> d_ID d = i"
  using lookup_by_id [of ds d] by (auto dest: map_of_SomeD)

lemma map_lookup_perm:
  assumes "distinct (map d_ID ds)" "mset is = mset (map d_ID ds)"
  shows "mset (map (\<lambda>i. the (map_of (map (\<lambda>d. (d_ID d, d)) ds) i)) is) = mset ds"
proof -
  let ?f = "\<lambda>i. the (map_of (map (\<lambda>d. (d_ID d, d)) ds) i)"
  have "mset (map ?f is) = mset (map ?f (map d_ID ds))" using assms(2) by (simp only: mset_map)
  moreover have "map ?f (map d_ID ds) = ds"
    using lookup_by_id [OF assms(1)] by (simp add: map_idI)
  ultimately show ?thesis by (simp only:)
qed


text \<open>Two rules of the shipped pack, \<open>catalogue/core.yaml\<close>, as the decoder gives them.\<close>

definition disk_critical :: Definition where
  "disk_critical =
     \<lparr>d_ID = ''disk-critical'', d_Version = 1, d_Kind = '''', d_Severity = ''critical'',
      d_Summary = ''A disk is nearly full and will stop accepting writes.'',
      d_Metric = ''disk.used_percent'', d_ComparatorName = ''gte'', d_Threshold = F64 90,
      d_Clear = F64 85, d_SustainSecs = 300, d_PredicateName = ''Instant'', d_WindowSecs = 0,
      d_All = [], d_GroupBy = [''device'', ''mount''], d_GroupWindowSecs = 900,
      d_Evidence = [''vitals'', ''top_processes'', ''inventory''], d_CoverageRequires = [],
      d_Tunable = [(''threshold'', \<lparr>b_Min = F64 50, b_Max = F64 99\<rparr>),
                   (''clear'', \<lparr>b_Min = F64 40, b_Max = F64 98\<rparr>),
                   (''sustain_secs'', \<lparr>b_Min = F64 60, b_Max = F64 3600\<rparr>)]\<rparr>"

definition cpu_saturated :: Definition where
  "cpu_saturated =
     \<lparr>d_ID = ''cpu-saturated'', d_Version = 1, d_Kind = '''', d_Severity = ''warning'',
      d_Summary = ''A machine has been pinned at full CPU long enough to be slow to use.'',
      d_Metric = ''cpu.total'', d_ComparatorName = ''gte'', d_Threshold = F64 95,
      d_Clear = F64 85, d_SustainSecs = 300, d_PredicateName = ''Instant'', d_WindowSecs = 0,
      d_All = [], d_GroupBy = [''device''], d_GroupWindowSecs = 900,
      d_Evidence = [''vitals'', ''top_processes''], d_CoverageRequires = [],
      d_Tunable = [(''threshold'', \<lparr>b_Min = F64 50, b_Max = F64 100\<rparr>),
                   (''clear'', \<lparr>b_Min = F64 20, b_Max = F64 99\<rparr>),
                   (''sustain_secs'', \<lparr>b_Min = F64 60, b_Max = F64 3600\<rparr>)]\<rparr>"

definition core_pack :: "bytes \<Rightarrow> Definition list option" where
  "core_pack data = Some [disk_critical, cpu_saturated]"

definition core_catalogue :: Catalogue where
  "core_catalogue =
     \<lparr>c_byID = [(''cpu-saturated'', cpu_saturated), (''disk-critical'', disk_critical)],
      c_order = [''cpu-saturated'', ''disk-critical'']\<rparr>"

lemma core_catalogue_loads:
  "LoadCatalogue core_pack (\<lambda>d. Some (d_ID d)) [] (Some [(''disk-critical@1'', ''disk-critical'')]) =
     Inr core_catalogue"
  by code_simp


end
