(* ===== verification/Rule_Binding.thy ===== *)
theory Rule_Binding
  imports Settings_Ladder Rule_Catalogue "HOL-Library.Product_Lexorder"
begin

text \<open>
  A customer's tuning of a rule and what it becomes on one machine: bindings and their validation
  (\<open>server/internal/rules/binding.go\<close>, \<open>tags.go\<close>), the clamp of a stored value into a narrowed range
  (\<open>clamp.go\<close>) and the resolution of a rule for the wire (\<open>resolve.go\<close>). The text form of a
  uuid, the source of fresh uuids and the machine's conversion of an out-of-range float to \<open>uint32\<close>
  are parameters.
\<close>

section \<open>Selectors and bindings\<close>

definition maxSelectorTags :: nat where "maxSelectorTags = 8"
definition maxSelectorKeyLen :: nat where "maxSelectorKeyLen = 64"
definition maxSelectorValueLen :: nat where "maxSelectorValueLen = 128"
definition maxBindingParams :: nat where "maxBindingParams = 8"

datatype binding_error =
  ErrParamNotTunable | ErrParamOutOfBounds | ErrRuleMismatch | ErrInvalidLevel | ErrInvalidSelector
  | ErrUnknownRule

type_synonym Selector = "(string, string) gomap"

definition Selector_IsEmpty :: "Selector \<Rightarrow> bool" where
  "Selector_IsEmpty s \<longleftrightarrow> s = []"

text \<open>A tag the machine does not carry reads as the empty string.\<close>

definition tag_value :: "(string, string) gomap \<Rightarrow> string \<Rightarrow> string" where
  "tag_value tags key = (case map_of tags key of Some v \<Rightarrow> v | None \<Rightarrow> '''')"

definition Selector_Matches :: "Selector \<Rightarrow> (string, string) gomap \<Rightarrow> bool" where
  "Selector_Matches s tags \<longleftrightarrow> list_all (\<lambda>(key, want). tag_value tags key = want) s"

definition Selector_Validate :: "Selector \<Rightarrow> binding_error option" where
  "Selector_Validate s =
     (if length s > maxSelectorTags then Some ErrInvalidSelector
      else first_error (map (\<lambda>(key, value).
        if key = '''' then Some ErrInvalidSelector
        else if length key > maxSelectorKeyLen then Some ErrInvalidSelector
        else if length value > maxSelectorValueLen then Some ErrInvalidSelector
        else None) s))"

record Binding =
  bn_ID :: uuid
  bn_OrganizationID :: uuid
  bn_RuleID :: string
  bn_Level :: Level
  bn_LevelKey :: uuid
  bn_Selector :: Selector
  bn_Precedence :: int
  bn_Params :: "(string, float64) gomap"
  bn_UpdatedBy :: string

record Device =
  dv_Scope :: Scope
  dv_Tags :: "(string, string) gomap"
  dv_FleetSize :: int

definition storableLevel :: "Level \<Rightarrow> bool" where
  "storableLevel level \<longleftrightarrow>
     level = LevelDevice \<or> level = LevelSite \<or> level = LevelOrganization \<or> level = LevelTenant"

definition sortedParamNames :: "(string, float64) gomap \<Rightarrow> string list" where
  "sortedParamNames params = sort (map fst params)"

definition ValidateBinding :: "Definition \<Rightarrow> Binding \<Rightarrow> binding_error option" where
  "ValidateBinding def b =
     (if bn_RuleID b \<noteq> d_ID def then Some ErrRuleMismatch
      else if \<not> storableLevel (bn_Level b) then Some ErrInvalidLevel
      else case Selector_Validate (bn_Selector b) of
        Some err \<Rightarrow> Some err
      | None \<Rightarrow>
          if length (bn_Params b) > maxBindingParams then Some ErrParamNotTunable
          else first_error (map (\<lambda>name.
            case map_of (d_Tunable def) name of
              None \<Rightarrow> Some ErrParamNotTunable
            | Some bounds \<Rightarrow>
                (case map_of (bn_Params b) name of
                   Some value \<Rightarrow> if \<not> Bounds_Contains bounds value then Some ErrParamOutOfBounds else None
                 | None \<Rightarrow> None))
          (sortedParamNames (bn_Params b))))"

definition ValidateBindingAgainst :: "Catalogue \<Rightarrow> Binding \<Rightarrow> binding_error option" where
  "ValidateBindingAgainst cat b =
     (case Catalogue_Lookup cat (bn_RuleID b) of
        None \<Rightarrow> Some ErrUnknownRule
      | Some def \<Rightarrow> ValidateBinding def b)"

record Label =
  lb_ID :: uuid
  lb_OrganizationID :: uuid
  lb_Key :: string
  lb_Value :: string
  lb_CreatedBy :: string

datatype label_error = ErrInvalidLabel

definition Label_Selector :: "Label \<Rightarrow> Selector" where
  "Label_Selector l = [(lb_Key l, lb_Value l)]"

definition ValidateLabel :: "Label \<Rightarrow> label_error option" where
  "ValidateLabel l =
     (if lb_OrganizationID l = uuid_Nil then Some ErrInvalidLabel
      else if lb_Key l = '''' then Some ErrInvalidLabel
      else if length (lb_Key l) > maxSelectorKeyLen then Some ErrInvalidLabel
      else if lb_Value l = '''' then Some ErrInvalidLabel
      else if length (lb_Value l) > maxSelectorValueLen then Some ErrInvalidLabel
      else None)"

section \<open>Clamping\<close>

definition Bounds_Nearest :: "Bounds \<Rightarrow> float64 \<Rightarrow> float64 \<times> bool" where
  "Bounds_Nearest b v =
     (if f64_lt v (b_Min b) then (b_Min b, True)
      else if f64_lt (b_Max b) v then (b_Max b, True)
      else (v, False))"

record Clamp =
  cl_ID :: uuid
  cl_OrganizationID :: uuid
  cl_BindingID :: uuid
  cl_RuleID :: string
  cl_RuleVersion :: int
  cl_Param :: string
  cl_From :: float64
  cl_To :: float64
  cl_ClampedAt :: instant
  cl_AcknowledgedAt :: instant
  cl_AcknowledgedBy :: string

definition Clamp_Outstanding :: "Clamp \<Rightarrow> bool" where
  "Clamp_Outstanding c \<longleftrightarrow> cl_AcknowledgedAt c = 0"

definition clampOf :: "uuid \<Rightarrow> Definition \<Rightarrow> Binding \<Rightarrow> string \<Rightarrow> float64 \<Rightarrow> float64 \<Rightarrow> Clamp" where
  "clampOf fresh def b param from' to' =
     \<lparr>cl_ID = fresh, cl_OrganizationID = bn_OrganizationID b, cl_BindingID = bn_ID b,
      cl_RuleID = d_ID def, cl_RuleVersion = d_Version def, cl_Param = param,
      cl_From = from', cl_To = to',
      cl_ClampedAt = 0, cl_AcknowledgedAt = 0, cl_AcknowledgedBy = ''''\<rparr>"

text \<open>
  The body of the loop over the sorted names, its variables the parameters kept and the moves made;
  \<open>fresh n\<close> is the uuid drawn for the \<open>n\<close>-th move.
\<close>

definition clamp_one ::
  "(nat \<Rightarrow> uuid) \<Rightarrow> Definition \<Rightarrow> Binding \<Rightarrow> string \<Rightarrow>
     (string, float64) gomap \<times> Clamp list \<Rightarrow> (string, float64) gomap \<times> Clamp list" where
  "clamp_one fresh def b name st =
     (case st of (params, moves) \<Rightarrow>
      (case map_of (bn_Params b) name of
         None \<Rightarrow> (params, moves)
       | Some value \<Rightarrow>
           (case map_of (d_Tunable def) name of
              None \<Rightarrow> (params, moves @ [clampOf (fresh (length moves)) def b name value (fst (ShippedParam def name))])
            | Some bounds \<Rightarrow>
                (case Bounds_Nearest bounds value of (nearest, moved) \<Rightarrow>
                   (gomap_put name nearest params,
                    if moved then moves @ [clampOf (fresh (length moves)) def b name value nearest] else moves)))))"

definition ClampBinding :: "(nat \<Rightarrow> uuid) \<Rightarrow> Definition \<Rightarrow> Binding \<Rightarrow> Binding \<times> Clamp list" where
  "ClampBinding fresh def b =
     (if bn_Params b = [] then (b, [])
      else case fold (clamp_one fresh def b) (sortedParamNames (bn_Params b)) ([], []) of
        (params, moves) \<Rightarrow> (b\<lparr>bn_Params := params\<rparr>, moves))"

definition ClampBindings :: "(nat \<Rightarrow> uuid) \<Rightarrow> Catalogue \<Rightarrow> Binding list \<Rightarrow> Clamp list" where
  "ClampBindings fresh cat bindings =
     fold (\<lambda>b moves.
       case Catalogue_Lookup cat (bn_RuleID b) of
         None \<Rightarrow> moves
       | Some def \<Rightarrow> moves @ snd (ClampBinding (\<lambda>n. fresh (length moves + n)) def b))
     bindings []"

section \<open>Resolution\<close>

record RuleTerm =
  rt_Metric :: string
  rt_Comparator :: "AlertComparator option"
  rt_Threshold :: float64
  rt_Clear :: float64
  rt_Predicate :: "RulePredicate option"
  rt_WindowSecs :: "32 word"

record ThresholdRule =
  tr_ID :: string
  tr_Version :: "32 word"
  tr_Severity :: "AlertSeverity option"
  tr_Metric :: string
  tr_Comparator :: "AlertComparator option"
  tr_Threshold :: float64
  tr_Clear :: float64
  tr_SustainSecs :: "32 word"
  tr_Predicate :: "RulePredicate option"
  tr_WindowSecs :: "32 word"
  tr_All :: "RuleTerm list"

definition wireVersion :: "int \<Rightarrow> 32 word" where
  "wireVersion version =
     (if version < minRuleVersion \<or> version > maxRuleVersion then 0 else word_of_int version)"

definition wire_metric :: "string \<Rightarrow> string" where
  "wire_metric m = (case CanonicalRuleMetric m of Some metric \<Rightarrow> metric | None \<Rightarrow> m)"

definition wireTerms :: "Term list \<Rightarrow> RuleTerm list" where
  "wireTerms terms = map (\<lambda>t.
     \<lparr>rt_Metric = wire_metric (t_Metric t), rt_Comparator = Term_Comparator t,
      rt_Threshold = t_Threshold t, rt_Clear = t_Clear t,
      rt_Predicate = Term_Predicate t, rt_WindowSecs = t_WindowSecs t\<rparr>) terms"

definition applies :: "Definition \<Rightarrow> Device \<Rightarrow> Binding \<Rightarrow> bool" where
  "applies def device b \<longleftrightarrow>
     (if bn_RuleID b \<noteq> d_ID def \<or> bn_OrganizationID b \<noteq> sc_OrganizationID (dv_Scope device) then False
      else if \<not> storableLevel (bn_Level b) then False
      else case Scope_Key (dv_Scope device) (bn_Level b) of
        (key, present) \<Rightarrow>
          if \<not> present \<or> key \<noteq> bn_LevelKey b then False
          else Selector_Matches (bn_Selector b) (dv_Tags device))"

definition speaksFirst :: "(uuid \<Rightarrow> string) \<Rightarrow> Binding \<Rightarrow> Binding \<Rightarrow> bool" where
  "speaksFirst uuid_String a b \<longleftrightarrow>
     (if bn_Level a \<noteq> bn_Level b then bn_Level a < bn_Level b
      else if Selector_IsEmpty (bn_Selector a) \<noteq> Selector_IsEmpty (bn_Selector b)
      then \<not> Selector_IsEmpty (bn_Selector a)
      else if bn_Precedence a \<noteq> bn_Precedence b then bn_Precedence a > bn_Precedence b
      else uuid_String (bn_ID a) < uuid_String (bn_ID b))"

definition applicableBindings ::
  "(uuid \<Rightarrow> string) \<Rightarrow> Definition \<Rightarrow> Device \<Rightarrow> Binding list \<Rightarrow> Binding list" where
  "applicableBindings uuid_String def device bindings =
     stable_sort (speaksFirst uuid_String) (filter (applies def device) bindings)"

text \<open>The loop of \<open>paramOverrides\<close>, over the bindings left and the rungs already seen.\<close>

fun param_overrides_loop ::
  "string \<Rightarrow> Device \<Rightarrow> Binding list \<Rightarrow> Level list \<Rightarrow> float64 Override list" where
  "param_overrides_loop name device [] seen = []"
| "param_overrides_loop name device (b # bs) seen =
     (case map_of (bn_Params b) name of
        None \<Rightarrow> param_overrides_loop name device bs seen
      | Some value \<Rightarrow>
          if bn_Level b \<in> set seen then param_overrides_loop name device bs seen
          else (case Scope_Key (dv_Scope device) (bn_Level b) of
            (key, present) \<Rightarrow>
              if \<not> present then param_overrides_loop name device bs seen
              else \<lparr>ov_Level = bn_Level b, ov_ScopeID = key, ov_Value = value\<rparr> #
                     param_overrides_loop name device bs (bn_Level b # seen)))"

definition paramOverrides :: "string \<Rightarrow> Device \<Rightarrow> Binding list \<Rightarrow> float64 Override list" where
  "paramOverrides name device applicable = param_overrides_loop name device applicable []"

text \<open>The closure \<open>value\<close> of \<open>Resolve\<close>.\<close>

definition resolve_value :: "Definition \<Rightarrow> Device \<Rightarrow> Binding list \<Rightarrow> string \<Rightarrow> float64" where
  "resolve_value def device applicable name =
     (case map_of (d_Tunable def) name of
        None \<Rightarrow> fst (ShippedParam def name)
      | Some bounds \<Rightarrow>
          fst (Bounds_Nearest bounds
            (fst (settings_Resolve (dv_Scope device) (paramOverrides name device applicable)
                   (fst (ShippedParam def name)) NarrowestWins))))"

definition rules_Resolve ::
  "(uuid \<Rightarrow> string) \<Rightarrow> (float64 \<Rightarrow> 32 word) \<Rightarrow> Definition \<Rightarrow> Device \<Rightarrow> Binding list \<Rightarrow> ThresholdRule" where
  "rules_Resolve uuid_String u32 def device bindings =
     (let applicable = applicableBindings uuid_String def device bindings;
          value = resolve_value def device applicable in
      \<lparr>tr_ID = d_ID def, tr_Version = wireVersion (d_Version def), tr_Severity = WireSeverity def,
       tr_Metric = wire_metric (d_Metric def), tr_Comparator = Definition_Comparator def,
       tr_Threshold = value ''threshold'', tr_Clear = value ''clear'',
       tr_SustainSecs = f64_to_u32 u32 (value ''sustain_secs''),
       tr_Predicate = Definition_Predicate def,
       tr_WindowSecs = f64_to_u32 u32 (value ''window_secs''),
       tr_All = wireTerms (d_All def)\<rparr>)"

definition levelWord :: "Level \<Rightarrow> string" where
  "levelWord level =
     (if level = LevelDevice then ''host'' else if level = LevelSite then ''site''
      else if level = LevelOrganization then ''customer'' else if level = LevelTenant then ''platform''
      else ''shipped default'')"

fun join_strings :: "string \<Rightarrow> string list \<Rightarrow> string" where
  "join_strings sep [] = ''''"
| "join_strings sep [x] = x"
| "join_strings sep (x # y # ys) = x @ sep @ join_strings sep (y # ys)"

definition DescribeSelector :: "Selector \<Rightarrow> string" where
  "DescribeSelector s =
     (if Selector_IsEmpty s then ''''
      else join_strings '', '' (map (\<lambda>key. key @ ''='' @ tag_value s key) (sort (map fst s))))"

definition describeBinding :: "Binding \<Rightarrow> string" where
  "describeBinding b =
     (let where' = (if bn_Level b = LevelDevice then ''set on this host''
                    else ''set on this host'' @ [char_of (39 :: nat)] @ ''s '' @ levelWord (bn_Level b)) in
      if Selector_IsEmpty (bn_Selector b) then where'
      else where' @ '', for hosts labelled '' @ DescribeSelector (bn_Selector b))"

definition DecidedBy ::
  "(uuid \<Rightarrow> string) \<Rightarrow> Definition \<Rightarrow> Device \<Rightarrow> Binding list \<Rightarrow> string \<Rightarrow> Level \<times> string" where
  "DecidedBy uuid_String def device bindings name =
     (case map_of (d_Tunable def) name of
        None \<Rightarrow> (LevelShipped, ''the value the rule ships'')
      | Some _ \<Rightarrow>
          (case find (\<lambda>b. map_of (bn_Params b) name \<noteq> None)
                  (applicableBindings uuid_String def device bindings) of
             Some b \<Rightarrow> (bn_Level b, describeBinding b)
           | None \<Rightarrow> (LevelShipped, ''the value the rule ships'')))"

section \<open>What resolution promises\<close>

text \<open>The order of \<open>speaksFirst\<close> is the lexicographic order of a key.\<close>

definition speaks_key :: "(uuid \<Rightarrow> string) \<Rightarrow> Binding \<Rightarrow> int \<times> bool \<times> int \<times> string" where
  "speaks_key uuid_String b =
     (bn_Level b, Selector_IsEmpty (bn_Selector b), - bn_Precedence b, uuid_String (bn_ID b))"

lemma speaksFirst_key: "speaksFirst us a b \<longleftrightarrow> speaks_key us a < speaks_key us b"
  by (auto simp: speaksFirst_def speaks_key_def less_prod_def')

lemma sorted_applicableBindings: "sorted (map (speaks_key us) (applicableBindings us def device bs))"
  unfolding applicableBindings_def
  by (rule sorted_stable_sort) (simp_all add: speaksFirst_key less_imp_le not_less)

lemma set_applicableBindings [simp]:
  "set (applicableBindings us def device bs) = {b \<in> set bs. applies def device b}"
  by (auto simp: applicableBindings_def)

lemma speaks_key_level: "speaks_key us a \<le> speaks_key us b \<Longrightarrow> bn_Level a \<le> bn_Level b"
  by (auto simp: speaks_key_def less_eq_prod_def)

lemma applies_on_ladder:
  "applies def device b \<Longrightarrow> Scope_Key (dv_Scope device) (bn_Level b) = (bn_LevelKey b, True)"
  by (auto simp: applies_def split: if_splits prod.splits)

lemma applies_organization:
  "applies def device b \<Longrightarrow> bn_OrganizationID b = sc_OrganizationID (dv_Scope device)"
  by (auto simp: applies_def split: if_splits)

text \<open>The first binding of the ordered list that sets a parameter decides it.\<close>

lemma settings_Resolve_head:
  fixes o1 :: "'v Override"
  assumes "on_ladder scope o1" "\<forall>x \<in> set rest. ov_Level o1 \<le> ov_Level x"
  shows "settings_Resolve scope (o1 # rest) shipped NarrowestWins = (ov_Value o1, ov_Level o1)"
proof -
  obtain v l where vl: "settings_Resolve scope (o1 # rest) shipped NarrowestWins = (v, l)" by fastforce
  have "ov_Level o1 \<in> set (ladder NarrowestWins)" using on_ladder_storable [OF assms(1)] by simp
  with resolve_rungs_decided [OF vl [unfolded settings_Resolve_def] sorted_ladder] assms(1)
  obtain o' where o': "v = ov_Value o'" "l \<le> ov_Level o1"
      "find (\<lambda>x. on_ladder scope x \<and> ov_Level x = l) (o1 # rest) = Some o'"
    by (auto simp: rung_rank_def simp del: find.simps)
  with assms(2) find_Some_iff' [OF o'(3)] have "l = ov_Level o1" by auto
  with o' assms(1) vl show ?thesis by simp
qed

lemma param_overrides_levels:
  "x \<in> set (param_overrides_loop name device bs seen) \<Longrightarrow> \<exists>b \<in> set bs. bn_Level b = ov_Level x"
  by (induction bs arbitrary: seen) (auto split: option.splits if_splits prod.splits)

lemma settings_Resolve_paramOverrides:
  assumes "sorted (map bn_Level bs)"
    and "\<forall>b \<in> set bs. Scope_Key (dv_Scope device) (bn_Level b) = (bn_LevelKey b, True)"
  shows "settings_Resolve (dv_Scope device) (paramOverrides name device bs) shipped NarrowestWins =
     (case find (\<lambda>b. map_of (bn_Params b) name \<noteq> None) bs of
        Some b \<Rightarrow> (the (map_of (bn_Params b) name), bn_Level b)
      | None \<Rightarrow> (shipped, LevelShipped))"
  using assms
proof (induction bs)
  case Nil
  have "resolve_rungs scope [] shipped rungs = (shipped, LevelShipped)" for scope rungs
    by (induction rungs) (auto split: prod.splits)
  then show ?case by (simp add: paramOverrides_def settings_Resolve_def)
next
  case (Cons b bs)
  show ?case
  proof (cases "map_of (bn_Params b) name")
    case None
    then show ?thesis using Cons by (simp add: paramOverrides_def)
  next
    case (Some v)
    let ?o = "\<lparr>ov_Level = bn_Level b, ov_ScopeID = bn_LevelKey b, ov_Value = v\<rparr>"
    have "paramOverrides name device (b # bs) = ?o # param_overrides_loop name device bs [bn_Level b]"
      using Some Cons.prems(2) by (simp add: paramOverrides_def)
    moreover have "\<forall>x \<in> set (param_overrides_loop name device bs [bn_Level b]). ov_Level ?o \<le> ov_Level x"
      using Cons.prems(1) param_overrides_levels by fastforce
    moreover have "on_ladder (dv_Scope device) ?o" using Cons.prems(2) by (simp add: on_ladder_def)
    ultimately show ?thesis using Some settings_Resolve_head [of _ ?o] by simp
  qed
qed

lemma find_sorted_least:
  assumes "find P xs = Some x" "sorted (map (key :: 'a \<Rightarrow> 'k :: linorder) xs)" "y \<in> set xs" "P y"
  shows "key x \<le> key y"
  using assms by (induction xs) (auto split: if_splits)

lemma settings_Resolve_applicable:
  "settings_Resolve (dv_Scope device)
     (paramOverrides name device (applicableBindings us def device bs)) shipped NarrowestWins =
   (case find (\<lambda>b. map_of (bn_Params b) name \<noteq> None) (applicableBindings us def device bs) of
      Some b \<Rightarrow> (the (map_of (bn_Params b) name), bn_Level b)
    | None \<Rightarrow> (shipped, LevelShipped))"
proof (rule settings_Resolve_paramOverrides)
  have "sorted_wrt (\<lambda>a b. speaks_key us a \<le> speaks_key us b) (applicableBindings us def device bs)"
    using sorted_applicableBindings by (simp add: sorted_map)
  then show "sorted (map bn_Level (applicableBindings us def device bs))"
    unfolding sorted_map by (rule sorted_wrt_mono_rel [rotated]) (rule speaks_key_level)
qed (auto dest: applies_on_ladder)

text \<open>
  The tuned value of a parameter and the rung reported as its source agree, and are those of the
  binding that speaks first: of the bindings for this rule, customer, rung and labels that set the
  parameter, no other comes before it. With no such binding the shipped value stands and the shipped
  rung is reported.
\<close>

lemma DecidedBy_agrees:
  assumes "map_of (d_Tunable def) name = Some bounds"
  shows "\<exists>v. resolve_value def device (applicableBindings us def device bs) name = fst (Bounds_Nearest bounds v) \<and>
     (if \<exists>b \<in> set bs. applies def device b \<and> map_of (bn_Params b) name \<noteq> None
      then \<exists>b \<in> set bs. applies def device b \<and> map_of (bn_Params b) name = Some v \<and>
             DecidedBy us def device bs name = (bn_Level b, describeBinding b) \<and>
             (\<forall>b' \<in> set bs. applies def device b' \<and> map_of (bn_Params b') name \<noteq> None \<longrightarrow>
                \<not> speaksFirst us b' b)
      else v = fst (ShippedParam def name) \<and> fst (DecidedBy us def device bs name) = LevelShipped)"
proof (cases "find (\<lambda>b. map_of (bn_Params b) name \<noteq> None) (applicableBindings us def device bs)")
  case None
  then have "\<not> (\<exists>b \<in> set bs. applies def device b \<and> map_of (bn_Params b) name \<noteq> None)"
    by (auto simp: find_None_iff)
  then show ?thesis using None assms
    by (auto simp: resolve_value_def settings_Resolve_applicable DecidedBy_def)
next
  case (Some b)
  have b: "b \<in> set bs" "applies def device b" "map_of (bn_Params b) name \<noteq> None"
    using find_Some_iff' [OF Some] by auto
  then obtain v where v: "map_of (bn_Params b) name = Some v" by auto
  have first: "\<not> speaksFirst us b' b"
    if "b' \<in> set bs" "applies def device b'" "map_of (bn_Params b') name \<noteq> None" for b'
    using find_sorted_least [OF Some sorted_applicableBindings, of b'] that
    by (simp add: speaksFirst_key not_less)
  have "resolve_value def device (applicableBindings us def device bs) name = fst (Bounds_Nearest bounds v)"
    "DecidedBy us def device bs name = (bn_Level b, describeBinding b)"
    using Some v assms by (simp_all add: resolve_value_def settings_Resolve_applicable DecidedBy_def)
  with b v first show ?thesis by (intro exI [of _ v]) auto
qed

text \<open>
  C5. A machine's rule depends on its own customer's bindings only: the bindings of other customers
  can be removed from the list, or added to it, and what goes on the wire is the same.
\<close>

theorem rules_Resolve_isolated:
  "rules_Resolve us u32 def device bs =
   rules_Resolve us u32 def device
     (filter (\<lambda>b. bn_OrganizationID b = sc_OrganizationID (dv_Scope device)) bs)"
proof -
  have "filter (applies def device) bs =
        filter (applies def device) (filter (\<lambda>b. bn_OrganizationID b = sc_OrganizationID (dv_Scope device)) bs)"
    by (auto simp: filter_filter intro!: filter_cong dest: applies_organization)
  then show ?thesis by (simp add: rules_Resolve_def applicableBindings_def)
qed

section \<open>What clamping promises\<close>

definition bounds_ok :: "Bounds \<Rightarrow> bool" where
  "bounds_ok b \<longleftrightarrow> f64_le (b_Min b) (b_Max b)"

lemma validateTunable_bounds_ok:
  "validateTunable def = None \<Longrightarrow> map_of (d_Tunable def) name = Some bounds \<Longrightarrow> bounds_ok bounds"
  by (drule (1) validateTunable_None) (auto simp: Bounds_Contains_def bounds_ok_def intro: f64_le_trans)

lemma Nearest_contains:
  "bounds_ok b \<Longrightarrow> \<not> f64_is_nan v \<Longrightarrow> Bounds_Contains b (fst (Bounds_Nearest b v))"
  by (auto simp: Bounds_Nearest_def Bounds_Contains_def bounds_ok_def f64_not_lt dest: f64_le_not_nan)

lemma Nearest_moved_iff:
  "bounds_ok b \<Longrightarrow> \<not> f64_is_nan v \<Longrightarrow> snd (Bounds_Nearest b v) \<longleftrightarrow> \<not> Bounds_Contains b v"
  by (auto simp: Bounds_Nearest_def Bounds_Contains_def bounds_ok_def f64_not_lt
      dest: f64_le_not_nan f64_lt_not_le)

lemma Nearest_unmoved: "Bounds_Contains b v \<Longrightarrow> Bounds_Nearest b v = (v, False)"
  by (cases "b_Min b"; cases "b_Max b"; cases v) (auto simp: Bounds_Nearest_def Bounds_Contains_def)

lemma Nearest_idem:
  assumes "bounds_ok b"
  shows "Bounds_Nearest b (fst (Bounds_Nearest b v)) = (fst (Bounds_Nearest b v), False)"
proof (cases "f64_is_nan v")
  case True
  then have "v = F64_NaN" by (simp add: f64_is_nan_def)
  then show ?thesis by (simp add: Bounds_Nearest_def)
next
  case False
  from Nearest_unmoved [OF Nearest_contains [OF assms False]] show ?thesis .
qed

text \<open>What the loop leaves of the parameters: the tunable ones, each at its nearest allowed value.\<close>

definition honoured :: "Definition \<Rightarrow> string \<Rightarrow> float64 option \<Rightarrow> float64 option" where
  "honoured def name v =
     (case (v, map_of (d_Tunable def) name) of
        (Some value, Some bounds) \<Rightarrow> Some (fst (Bounds_Nearest bounds value))
      | _ \<Rightarrow> None)"

lemma clamp_fold_params:
  "map_of (fst (fold (clamp_one fresh def b) names (params, moves))) name =
     (if name \<in> set names \<and> honoured def name (map_of (bn_Params b) name) \<noteq> None
      then honoured def name (map_of (bn_Params b) name) else map_of params name)"
  by (induction names arbitrary: params moves)
    (auto simp: clamp_one_def honoured_def split: option.splits prod.splits)

lemma clamp_fold_wf:
  "gomap_wf params \<Longrightarrow> gomap_wf (fst (fold (clamp_one fresh def b) names (params, moves))) \<and>
     length (fst (fold (clamp_one fresh def b) names (params, moves))) \<le> length params + length names"
proof (induction names arbitrary: params moves)
  case (Cons n ns)
  obtain p m where pm: "clamp_one fresh def b n (params, moves) = (p, m)" by fastforce
  then have "gomap_wf p" "length p \<le> Suc (length params)"
    using Cons.prems
    by (auto simp: clamp_one_def gomap_put_length split: option.splits prod.splits)
  then show ?case using Cons.IH [of p m] pm by simp
qed simp

lemma ClampBinding_params:
  "map_of (bn_Params (fst (ClampBinding fresh def b))) name =
     honoured def name (map_of (bn_Params b) name)"
proof (cases "bn_Params b = []")
  case False
  have "name \<notin> set (sortedParamNames (bn_Params b)) \<Longrightarrow> map_of (bn_Params b) name = None"
    by (simp add: sortedParamNames_def map_of_eq_None_iff)
  then show ?thesis
    using False clamp_fold_params [of fresh def b "sortedParamNames (bn_Params b)" "[]" "[]" name]
    by (auto simp: ClampBinding_def honoured_def split: prod.splits option.splits if_splits)
qed (simp add: ClampBinding_def honoured_def)

lemma ClampBinding_frame [simp]:
  "bn_ID (fst (ClampBinding fresh def b)) = bn_ID b"
  "bn_OrganizationID (fst (ClampBinding fresh def b)) = bn_OrganizationID b"
  "bn_RuleID (fst (ClampBinding fresh def b)) = bn_RuleID b"
  "bn_Level (fst (ClampBinding fresh def b)) = bn_Level b"
  "bn_LevelKey (fst (ClampBinding fresh def b)) = bn_LevelKey b"
  "bn_Selector (fst (ClampBinding fresh def b)) = bn_Selector b"
  "bn_Precedence (fst (ClampBinding fresh def b)) = bn_Precedence b"
  by (simp_all add: ClampBinding_def split: prod.splits)

lemma ClampBinding_size:
  "length (bn_Params (fst (ClampBinding fresh def b))) \<le> length (bn_Params b)"
  using clamp_fold_wf [of "[]" fresh def b "sortedParamNames (bn_Params b)" "[]"]
  by (auto simp: ClampBinding_def sortedParamNames_def split: prod.splits)

text \<open>When the loop records a move.\<close>

lemma clamp_fold_moves:
  "snd (fold (clamp_one fresh def b) names (params, moves)) = [] \<longleftrightarrow>
     moves = [] \<and> (\<forall>name \<in> set names. \<forall>v. map_of (bn_Params b) name = Some v \<longrightarrow>
       (\<exists>bounds. map_of (d_Tunable def) name = Some bounds \<and> \<not> snd (Bounds_Nearest bounds v)))"
  by (induction names arbitrary: params moves)
    (auto simp: clamp_one_def split: option.splits prod.splits)

lemma set_sortedParamNames: "name \<in> set (sortedParamNames p) \<longleftrightarrow> map_of p name \<noteq> None"
  by (simp add: sortedParamNames_def map_of_eq_None_iff)

lemma first_error_map: "first_error (map f xs) = None \<longleftrightarrow> (\<forall>x. x \<in> set xs \<longrightarrow> f x = None)"
  by auto

lemma ValidateBinding_None:
  "ValidateBinding def b = None \<longleftrightarrow>
     bn_RuleID b = d_ID def \<and> storableLevel (bn_Level b) \<and> Selector_Validate (bn_Selector b) = None \<and>
     length (bn_Params b) \<le> maxBindingParams \<and>
     (\<forall>name v. map_of (bn_Params b) name = Some v \<longrightarrow>
        (\<exists>bounds. map_of (d_Tunable def) name = Some bounds \<and> Bounds_Contains bounds v))"
proof -
  have each: "(name \<in> set (sortedParamNames (bn_Params b)) \<longrightarrow>
      (case map_of (d_Tunable def) name of
         None \<Rightarrow> Some ErrParamNotTunable
       | Some bounds \<Rightarrow>
           (case map_of (bn_Params b) name of
              Some value \<Rightarrow> if \<not> Bounds_Contains bounds value then Some ErrParamOutOfBounds else None
            | None \<Rightarrow> None)) = None) \<longleftrightarrow>
      (\<forall>v. map_of (bn_Params b) name = Some v \<longrightarrow>
        (\<exists>bounds. map_of (d_Tunable def) name = Some bounds \<and> Bounds_Contains bounds v))" for name
    by (cases "map_of (bn_Params b) name"; cases "map_of (d_Tunable def) name") (simp_all add: set_sortedParamNames)
  show ?thesis
    by (cases "Selector_Validate (bn_Selector b)")
      (simp_all add: ValidateBinding_def not_less first_error_map each del: first_error_None)
qed

text \<open>
  After a rule version narrows what it allows, a binding accepted under the version before is
  still honoured: clamping it gives a binding the new version accepts, and moves are recorded exactly
  when the stored binding is one the new version refuses.
\<close>

lemma ClampBinding_accepted:
  assumes "ValidateBinding old b = None" "d_ID old = d_ID def" "validateTunable def = None"
  shows "ValidateBinding def (fst (ClampBinding fresh def b)) = None \<and>
         (snd (ClampBinding fresh def b) = [] \<longleftrightarrow> ValidateBinding def b = None)"
proof -
  let ?c = "fst (ClampBinding fresh def b)"
  have nan: "\<not> f64_is_nan v" if "map_of (bn_Params b) name = Some v" for name v
  proof -
    from that assms(1) obtain bounds where "Bounds_Contains bounds v" by (auto simp: ValidateBinding_None)
    then show ?thesis by (auto simp: Bounds_Contains_def dest: f64_le_not_nan)
  qed
  have "\<exists>bounds. map_of (d_Tunable def) name = Some bounds \<and> Bounds_Contains bounds v"
    if "map_of (bn_Params ?c) name = Some v" for name v
  proof -
    from that obtain u bounds where "map_of (bn_Params b) name = Some u"
        "map_of (d_Tunable def) name = Some bounds" "v = fst (Bounds_Nearest bounds u)"
      by (auto simp: ClampBinding_params honoured_def split: option.splits)
    then show ?thesis
      using nan validateTunable_bounds_ok [OF assms(3)] Nearest_contains by auto
  qed
  then have valid: "ValidateBinding def ?c = None"
    using assms(1,2) ClampBinding_size [of fresh def b] by (auto simp: ValidateBinding_None)
  have "snd (ClampBinding fresh def b) = [] \<longleftrightarrow>
     (\<forall>name v. map_of (bn_Params b) name = Some v \<longrightarrow>
       (\<exists>bounds. map_of (d_Tunable def) name = Some bounds \<and> \<not> snd (Bounds_Nearest bounds v)))"
    using clamp_fold_moves [of fresh def b "sortedParamNames (bn_Params b)" "[]" "[]"]
    by (cases "bn_Params b = []")
      (auto simp: ClampBinding_def set_sortedParamNames split: prod.splits)
  also have "\<dots> \<longleftrightarrow> (\<forall>name v. map_of (bn_Params b) name = Some v \<longrightarrow>
       (\<exists>bounds. map_of (d_Tunable def) name = Some bounds \<and> Bounds_Contains bounds v))"
    using nan validateTunable_bounds_ok [OF assms(3)] Nearest_moved_iff by blast
  finally have "snd (ClampBinding fresh def b) = [] \<longleftrightarrow> ValidateBinding def b = None"
    using assms(1,2) by (auto simp: ValidateBinding_None)
  with valid show ?thesis by simp
qed

lemma find_map_comp: "find P (map f xs) = map_option f (find (P \<circ> f) xs)"
  by (induction xs) auto

text \<open>
  Clamping stored bindings and resolving with them as they stand give every machine the same rule:
  what goes on the wire is what the record of moves says it is.
\<close>

lemma rules_Resolve_clamped:
  assumes "validateTunable def = None"
  shows "rules_Resolve us u32 def device (map (\<lambda>b. fst (ClampBinding fresh def b)) bs) =
         rules_Resolve us u32 def device bs"
proof -
  let ?f = "\<lambda>b. fst (ClampBinding fresh def b)"
  have ap: "applies def device (?f b) \<longleftrightarrow> applies def device b" for b by (simp add: applies_def)
  have list: "applicableBindings us def device (map ?f bs) = map ?f (applicableBindings us def device bs)"
    unfolding applicableBindings_def filter_map comp_def ap
    by (rule stable_sort_map) (simp add: speaksFirst_def)
  have "resolve_value def device (applicableBindings us def device (map ?f bs)) name =
      resolve_value def device (applicableBindings us def device bs) name" for name
  proof (cases "map_of (d_Tunable def) name")
    case (Some bounds)
    have sets: "map_of (bn_Params (?f b)) name =
        map_option (\<lambda>v. fst (Bounds_Nearest bounds v)) (map_of (bn_Params b) name)" for b
      using Some by (simp add: ClampBinding_params honoured_def split: option.split)
    then have "find (\<lambda>b. map_of (bn_Params b) name \<noteq> None) (applicableBindings us def device (map ?f bs)) =
      map_option ?f (find (\<lambda>b. map_of (bn_Params b) name \<noteq> None) (applicableBindings us def device bs))"
      by (simp add: list find_map_comp comp_def)
    then show ?thesis
      using Some sets Nearest_idem [OF validateTunable_bounds_ok [OF assms Some]]
      by (auto simp: resolve_value_def settings_Resolve_applicable split: option.split
          dest!: find_Some_iff')
  qed (simp add: resolve_value_def)
  then show ?thesis by (simp add: rules_Resolve_def Let_def)
qed

text \<open>
  Whatever a customer stored, a tunable parameter goes on the wire inside the range its rule
  declares.
\<close>

lemma resolve_value_within_bounds:
  assumes "validateTunable def = None" "map_of (d_Tunable def) name = Some bounds"
    and "\<forall>b \<in> set bs. \<forall>v. map_of (bn_Params b) name = Some v \<longrightarrow> \<not> f64_is_nan v"
  shows "Bounds_Contains bounds (resolve_value def device (applicableBindings us def device bs) name)"
proof -
  have shipped: "\<not> f64_is_nan (fst (ShippedParam def name))"
    using validateTunable_None [OF assms(1,2)] by (auto simp: Bounds_Contains_def dest: f64_le_not_nan)
  then have "\<not> f64_is_nan (fst (settings_Resolve (dv_Scope device)
      (paramOverrides name device (applicableBindings us def device bs))
      (fst (ShippedParam def name)) NarrowestWins))"
    using assms(3) by (auto simp: settings_Resolve_applicable split: option.split dest!: find_Some_iff')
  then show ?thesis
    using Nearest_contains [OF validateTunable_bounds_ok [OF assms(1,2)]] assms(2)
    by (simp add: resolve_value_def)
qed

text \<open>
  A customer's database server, a blanket binding of its customer, one aimed at database servers whose
  value the rule's shipped range no longer allows, and a binding of another customer.
\<close>

definition demo_device :: Device where
  "demo_device = \<lparr>dv_Scope = demo_scope, dv_Tags = [(''role'', ''db'')], dv_FleetSize = 0\<rparr>"

definition demo_binding :: "uuid \<Rightarrow> uuid \<Rightarrow> Selector \<Rightarrow> float64 \<Rightarrow> Binding" where
  "demo_binding i org sel v =
     \<lparr>bn_ID = i, bn_OrganizationID = org, bn_RuleID = ''disk-critical'', bn_Level = LevelOrganization,
      bn_LevelKey = org, bn_Selector = sel, bn_Precedence = 0,
      bn_Params = [(''threshold'', v)], bn_UpdatedBy = ''ops''\<rparr>"

definition demo_bindings :: "Binding list" where
  "demo_bindings =
     [demo_binding 1 2 [] (F64 80), demo_binding 2 2 [(''role'', ''db'')] (F64 150),
      demo_binding 3 9 [] (F64 60)]"

definition disk_critical_v0 :: Definition where
  "disk_critical_v0 = disk_critical\<lparr>d_Version := 0,
     d_Tunable := [(''threshold'', \<lparr>b_Min = F64 10, b_Max = F64 200\<rparr>)]\<rparr>"

lemmas demo_defs =
  demo_device_def demo_binding_def demo_bindings_def disk_critical_def disk_critical_v0_def demo_scope_def

lemma disk_critical_threshold:
  "map_of (d_Tunable disk_critical) ''threshold'' = Some \<lparr>b_Min = F64 50, b_Max = F64 99\<rparr>"
  by (simp add: demo_defs)

lemma disk_critical_tunable: "validateTunable disk_critical = None"
  by code_simp

end
