(* ===== verification/Rule_Rollout.thy ===== *)
theory Rule_Rollout
  imports OG_Prelude
begin

text \<open>
  How far a rule has been rolled out to a customer: the stored state and its pace
  (\<open>server/internal/rules/rollout.go\<close>), the population a stage reaches and the machines in it
  (\<open>stage.go\<close>), and the gate that advances, holds or reverts a stage (\<open>gate.go\<close>). Go's \<open>int\<close> is
  64 bits wide here; the products of \<open>StagePopulation\<close> and \<open>membershipLimit\<close> stay far below that for
  any estate that can be counted, and are modelled on \<open>int\<close>.
\<close>

section \<open>State and pace\<close>

datatype Stage = StageOff | StageCanary | StageStaged | StageFull

definition canaryFloorDevices :: int where "canaryFloorDevices = 5"
definition fullPercent :: int where "fullPercent = 100"
definition membershipBuckets :: int where "membershipBuckets = 1000000"

definition maxCanaryGroupLen :: nat where "maxCanaryGroupLen = 64"
definition defaultCanaryPercent :: int where "defaultCanaryPercent = 1"
definition defaultStagedPercent :: int where "defaultStagedPercent = 10"
definition defaultCanaryHold :: duration where "defaultCanaryHold = time_hour"
definition defaultStagedHold :: duration where "defaultStagedHold = 6 * time_hour"
definition minStagePercent :: int where "minStagePercent = 1"
definition maxStagePercent :: int where "maxStagePercent = 99"
definition minStageHold :: duration where "minStageHold = time_minute"
definition maxStageHold :: duration where "maxStageHold = 30 * 24 * time_hour"

record Rollout =
  ro_OrganizationID :: uuid
  ro_RuleID :: string
  ro_Enabled :: bool
  ro_CanaryGroup :: string
  ro_RolloutPercent :: int
  ro_Kill :: bool
  ro_StageEnteredAt :: instant
  ro_CanaryPercent :: int
  ro_StagedPercent :: int
  ro_CanaryHold :: duration
  ro_StagedHold :: duration
  ro_UpdatedAt :: instant
  ro_UpdatedBy :: string

definition DefaultRollout :: "uuid \<Rightarrow> string \<Rightarrow> Rollout" where
  "DefaultRollout organizationID ruleID =
     \<lparr>ro_OrganizationID = organizationID, ro_RuleID = ruleID, ro_Enabled = True, ro_CanaryGroup = '''',
      ro_RolloutPercent = 100, ro_Kill = False, ro_StageEnteredAt = 0,
      ro_CanaryPercent = defaultCanaryPercent, ro_StagedPercent = defaultStagedPercent,
      ro_CanaryHold = defaultCanaryHold, ro_StagedHold = defaultStagedHold,
      ro_UpdatedAt = 0, ro_UpdatedBy = ''''\<rparr>"

definition paced :: "Rollout \<Rightarrow> Rollout" where
  "paced r = r\<lparr>
     ro_CanaryPercent := (if ro_CanaryPercent r = 0 then defaultCanaryPercent else ro_CanaryPercent r),
     ro_StagedPercent := (if ro_StagedPercent r = 0 then defaultStagedPercent else ro_StagedPercent r),
     ro_CanaryHold := (if ro_CanaryHold r = 0 then defaultCanaryHold else ro_CanaryHold r),
     ro_StagedHold := (if ro_StagedHold r = 0 then defaultStagedHold else ro_StagedHold r)\<rparr>"

definition Rollout_Stage :: "Rollout \<Rightarrow> Stage" where
  "Rollout_Stage r =
     (if ro_RolloutPercent r \<le> 0 then StageOff
      else if ro_RolloutPercent r < ro_StagedPercent (paced r) then StageCanary
      else if ro_RolloutPercent r < fullPercent then StageStaged
      else StageFull)"

definition PercentForStage :: "Rollout \<Rightarrow> Stage \<Rightarrow> int" where
  "PercentForStage r stage =
     (case stage of
        StageCanary \<Rightarrow> ro_CanaryPercent (paced r)
      | StageStaged \<Rightarrow> ro_StagedPercent (paced r)
      | StageFull \<Rightarrow> fullPercent
      | StageOff \<Rightarrow> 0)"

definition HoldFor :: "Rollout \<Rightarrow> Stage \<Rightarrow> duration" where
  "HoldFor r stage =
     (case stage of
        StageCanary \<Rightarrow> ro_CanaryHold (paced r)
      | StageStaged \<Rightarrow> ro_StagedHold (paced r)
      | StageOff \<Rightarrow> 0
      | StageFull \<Rightarrow> 0)"

definition Delivers :: "Rollout \<Rightarrow> bool" where
  "Delivers r \<longleftrightarrow> ro_Enabled r \<and> \<not> ro_Kill r"

text \<open>The four functions of the validation that return an error all return \<open>ErrInvalidRollout\<close>.\<close>

datatype rollout_error = ErrInvalidRollout

definition validatePace :: "Rollout \<Rightarrow> rollout_error option" where
  "validatePace r =
     (let p = paced r in
      if list_ex (\<lambda>percent. percent < minStagePercent \<or> percent > maxStagePercent)
           [ro_CanaryPercent p, ro_StagedPercent p] then Some ErrInvalidRollout
      else if ro_CanaryPercent p \<ge> ro_StagedPercent p then Some ErrInvalidRollout
      else if list_ex (\<lambda>hold. hold < minStageHold \<or> hold > maxStageHold)
           [ro_CanaryHold p, ro_StagedHold p] then Some ErrInvalidRollout
      else None)"

definition ValidateRollout :: "Rollout \<Rightarrow> rollout_error option" where
  "ValidateRollout r =
     (if ro_RuleID r = '''' then Some ErrInvalidRollout
      else if ro_OrganizationID r = uuid_Nil then Some ErrInvalidRollout
      else if ro_RolloutPercent r < 0 \<or> ro_RolloutPercent r > 100 then Some ErrInvalidRollout
      else if length (ro_CanaryGroup r) > maxCanaryGroupLen then Some ErrInvalidRollout
      else validatePace r)"

section \<open>Membership\<close>

definition zero_rollout :: Rollout where
  "zero_rollout =
     \<lparr>ro_OrganizationID = uuid_Nil, ro_RuleID = '''', ro_Enabled = False, ro_CanaryGroup = '''',
      ro_RolloutPercent = 0, ro_Kill = False, ro_StageEnteredAt = 0, ro_CanaryPercent = 0,
      ro_StagedPercent = 0, ro_CanaryHold = 0, ro_StagedHold = 0, ro_UpdatedAt = 0, ro_UpdatedBy = ''''\<rparr>"

definition StageFor :: "int \<Rightarrow> Stage" where
  "StageFor percent = Rollout_Stage (zero_rollout\<lparr>ro_RolloutPercent := percent\<rparr>)"

definition PercentFor :: "Stage \<Rightarrow> int" where
  "PercentFor stage = PercentForStage zero_rollout stage"

definition StagePopulation :: "int \<Rightarrow> int \<Rightarrow> int" where
  "StagePopulation percent fleetSize =
     (if fleetSize \<le> 0 \<or> percent \<le> 0 then 0
      else if percent \<ge> fullPercent then fleetSize
      else (let wanted = (fleetSize * percent + fullPercent - 1) div fullPercent in
            min (max wanted (min canaryFloorDevices fleetSize)) fleetSize))"

definition membershipLimit :: "int \<Rightarrow> int \<Rightarrow> int" where
  "membershipLimit percent fleetSize =
     (if fleetSize \<le> 0 then min (max percent 0) fullPercent * membershipBuckets div fullPercent
      else StagePopulation percent fleetSize * membershipBuckets div fleetSize)"

text \<open>\<open>hash/fnv\<close>'s 64-bit FNV-1a.\<close>

definition fnv64a :: "bytes \<Rightarrow> 64 word" where
  "fnv64a bs = fold (\<lambda>c h. (h XOR ucast c) * 1099511628211) bs 14695981039346656037"

definition string_bytes :: "string \<Rightarrow> bytes" where
  "string_bytes s = map of_char s"

definition membershipBucket :: "uuid \<Rightarrow> string \<Rightarrow> int" where
  "membershipBucket deviceID ruleID =
     uint (fnv64a (uuid_bytes deviceID @ string_bytes ''/'' @ string_bytes ruleID)) mod membershipBuckets"

definition InStage :: "uuid \<Rightarrow> string \<Rightarrow> int \<Rightarrow> int \<Rightarrow> bool" where
  "InStage deviceID ruleID percent fleetSize =
     (let limit = membershipLimit percent fleetSize in
      if limit \<le> 0 then False
      else if limit \<ge> membershipBuckets then True
      else membershipBucket deviceID ruleID < limit)"

definition Reaches :: "Rollout \<Rightarrow> uuid \<Rightarrow> int \<Rightarrow> bool" where
  "Reaches r deviceID fleetSize \<longleftrightarrow>
     Delivers r \<and> InStage deviceID (ro_RuleID r) (ro_RolloutPercent r) fleetSize"

definition NeedsFleetSize :: "(string, Rollout) gomap \<Rightarrow> bool" where
  "NeedsFleetSize rollouts \<longleftrightarrow>
     list_ex (\<lambda>(i, r). Delivers r \<and> (Rollout_Stage r = StageCanary \<or> Rollout_Stage r = StageStaged)) rollouts"

section \<open>The gate\<close>

record GateReport =
  gr_CeilingBreaches :: int
  gr_ThrottleTrips :: int
  gr_EvaluationErrors :: int

definition Clean :: "GateReport \<Rightarrow> bool" where
  "Clean g \<longleftrightarrow> gr_CeilingBreaches g = 0 \<and> gr_ThrottleTrips g = 0 \<and> gr_EvaluationErrors g = 0"

datatype StageAction = StageHold | StageAdvance | StageRevert | StageHalt

record StageDecision =
  sd_Action :: StageAction
  sd_Stage :: Stage
  sd_Percent :: int

definition nextStage :: "Stage \<Rightarrow> Stage" where
  "nextStage stage =
     (case stage of StageCanary \<Rightarrow> StageStaged | StageStaged \<Rightarrow> StageFull | StageOff \<Rightarrow> stage | StageFull \<Rightarrow> stage)"

definition previousStage :: "Stage \<Rightarrow> Stage" where
  "previousStage stage =
     (case stage of StageFull \<Rightarrow> StageStaged | StageStaged \<Rightarrow> StageCanary | StageOff \<Rightarrow> stage | StageCanary \<Rightarrow> stage)"

definition DecideStage :: "Rollout \<Rightarrow> GateReport \<Rightarrow> instant \<Rightarrow> StageDecision" where
  "DecideStage r report now =
     (let stage = Rollout_Stage r;
          hold = \<lparr>sd_Action = StageHold, sd_Stage = stage, sd_Percent = ro_RolloutPercent r\<rparr> in
      if \<not> Delivers r \<or> stage = StageOff then hold
      else if \<not> Clean report then
        (let back = previousStage stage in
         if back = stage then \<lparr>sd_Action = StageHalt, sd_Stage = stage, sd_Percent = ro_RolloutPercent r\<rparr>
         else \<lparr>sd_Action = StageRevert, sd_Stage = back, sd_Percent = PercentForStage r back\<rparr>)
      else if ro_StageEnteredAt r = 0 \<or> time_Sub now (ro_StageEnteredAt r) < HoldFor r stage then hold
      else
        (let forward = nextStage stage in
         if forward = stage then hold
         else \<lparr>sd_Action = StageAdvance, sd_Stage = forward, sd_Percent = PercentForStage r forward\<rparr>))"

definition StageDecision_Apply :: "StageDecision \<Rightarrow> Rollout \<Rightarrow> instant \<Rightarrow> Rollout" where
  "StageDecision_Apply d r now =
     (if sd_Action d = StageHold \<or> sd_Action d = StageHalt then r
      else r\<lparr>ro_RolloutPercent := sd_Percent d, ro_StageEnteredAt := now\<rparr>)"

section \<open>What a rollout promises\<close>

lemma ceil_share_mono:
  assumes "p \<le> p'" "0 < (n :: int)"
  shows "(n * p + 100 - 1) div 100 \<le> (n * p' + 100 - 1) div 100"
  using assms by (intro zdiv_mono1) (simp_all add: mult_left_mono)

lemma StagePopulation_le: "0 \<le> n \<Longrightarrow> StagePopulation p n \<le> n"
  by (auto simp: StagePopulation_def Let_def)

lemma StagePopulation_nonneg: "0 \<le> StagePopulation p n"
  by (auto simp: StagePopulation_def Let_def fullPercent_def canaryFloorDevices_def)

lemma StagePopulation_mono: "p \<le> p' \<Longrightarrow> StagePopulation p n \<le> StagePopulation p' n"
  using ceil_share_mono [of p p' n] StagePopulation_nonneg [of p' n]
  by (auto simp: StagePopulation_def Let_def fullPercent_def min_le_iff_disj le_max_iff_disj)

lemma membershipLimit_mono:
  assumes "p \<le> p'"
  shows "membershipLimit p n \<le> membershipLimit p' n"
proof (cases "n \<le> 0")
  case True
  have "min (max p 0) fullPercent \<le> min (max p' 0) fullPercent" using assms by auto
  then show ?thesis using True
    by (simp add: membershipLimit_def membershipBuckets_def fullPercent_def zdiv_mono1)
next
  case False
  then show ?thesis
    using StagePopulation_mono [OF assms, of n]
    by (simp add: membershipLimit_def membershipBuckets_def zdiv_mono1)
qed

text \<open>
  A rollout cannot shrink as it advances: over an estate of one size, a machine reached at some
  percentage is reached at every larger one.
\<close>

lemma InStage_monotone:
  assumes "InStage deviceID ruleID p n" "p \<le> p'"
  shows "InStage deviceID ruleID p' n"
  using assms(1) membershipLimit_mono [OF assms(2), of n]
  by (auto simp: InStage_def Let_def split: if_splits)

text \<open>
  A stage aims at its declared share of the estate rounded up, at no fewer than five machines where
  there are five, at the whole estate at 100 percent, and never at more machines than there are.
\<close>

lemma StagePopulation_bounds:
  "StagePopulation p n \<le> max n 0 \<and> 0 \<le> StagePopulation p n \<and>
   (if 0 < p \<and> 0 < n
    then min 5 n \<le> StagePopulation p n \<and> min p 100 * n \<le> StagePopulation p n * 100
    else StagePopulation p n = 0)"
proof -
  have up: "n * p \<le> 100 * ((99 + n * p) div 100)"
    using pos_mod_bound [of 100 "99 + n * p"] by (simp add: minus_mod_eq_mult_div [symmetric])
  have all: "n * p \<le> 100 * n" if "0 < n" "p < 100"
    using mult_left_mono [of p 100 n] that by (simp add: mult.commute)
  have "n * p \<le> 100 * min (max ((99 + n * p) div 100) (min 5 n)) n" if "0 < n" "p < 100"
    using up all [OF that] by (simp add: min_def max_def)
  then show ?thesis
    using StagePopulation_le [of n p] StagePopulation_nonneg [of p n]
    by (auto simp: StagePopulation_def Let_def fullPercent_def canaryFloorDevices_def mult.commute)
qed

text \<open>What validation establishes.\<close>

lemma ValidateRollout_None:
  "ValidateRollout r = None \<longleftrightarrow>
     ro_RuleID r \<noteq> '''' \<and> ro_OrganizationID r \<noteq> uuid_Nil \<and>
     0 \<le> ro_RolloutPercent r \<and> ro_RolloutPercent r \<le> 100 \<and>
     length (ro_CanaryGroup r) \<le> maxCanaryGroupLen \<and>
     1 \<le> ro_CanaryPercent (paced r) \<and> ro_CanaryPercent (paced r) < ro_StagedPercent (paced r) \<and>
     ro_StagedPercent (paced r) \<le> 99 \<and>
     minStageHold \<le> ro_CanaryHold (paced r) \<and> ro_CanaryHold (paced r) \<le> maxStageHold \<and>
     minStageHold \<le> ro_StagedHold (paced r) \<and> ro_StagedHold (paced r) \<le> maxStageHold"
  by (auto simp: ValidateRollout_def validatePace_def Let_def minStagePercent_def maxStagePercent_def)

lemma paced_move [simp]:
  "paced (r\<lparr>ro_RolloutPercent := p, ro_StageEnteredAt := t\<rparr>) =
     (paced r)\<lparr>ro_RolloutPercent := p, ro_StageEnteredAt := t\<rparr>"
  by (simp add: paced_def)

lemma HoldFor_range:
  "ValidateRollout r = None \<Longrightarrow> 0 \<le> HoldFor r s \<and> HoldFor r s \<le> maxStageHold"
  by (cases s) (auto simp: ValidateRollout_None HoldFor_def minStageHold_def maxStageHold_def)

lemma hold_elapsed:
  "ValidateRollout r = None \<Longrightarrow> time_Sub now t < HoldFor r s \<longleftrightarrow> now - t < HoldFor r s"
  using HoldFor_range [of r s] by (intro time_Sub_less) (simp_all add: maxStageHold_def)

lemmas stage_defs =
  DecideStage_def StageDecision_Apply_def Rollout_Stage_def PercentForStage_def nextStage_def
  previousStage_def fullPercent_def Let_def

text \<open>
  C6. One evaluation of a stored rollout is safe: the state to store is valid again and is in the stage
  the decision names; a rule that is stopped or switched off does not move; a tripped gate never widens
  the reach; and a wider reach means a clean gate, an elapsed hold and exactly the next stage.
\<close>

theorem DecideStage_safe:
  assumes "ValidateRollout r = None"
  shows "let d = DecideStage r report now; r' = StageDecision_Apply d r now in
     ValidateRollout r' = None \<and> Rollout_Stage r' = sd_Stage d \<and>
     (\<not> Delivers r \<longrightarrow> r' = r) \<and>
     (\<not> Clean report \<longrightarrow> ro_RolloutPercent r' \<le> ro_RolloutPercent r) \<and>
     (ro_RolloutPercent r < ro_RolloutPercent r' \<longrightarrow>
        Clean report \<and> Delivers r \<and> ro_StageEnteredAt r \<noteq> 0 \<and>
        now - ro_StageEnteredAt r \<ge> HoldFor r (Rollout_Stage r) \<and>
        sd_Stage d = nextStage (Rollout_Stage r))"
proof -
  define d where "d = DecideStage r report now"
  define r' where "r' = StageDecision_Apply d r now"
  have v: "ValidateRollout r' = None"
    using assms(1) unfolding r'_def d_def
    by (simp add: ValidateRollout_None stage_defs)
  have stage: "Rollout_Stage r' = sd_Stage d"
    using assms(1) unfolding r'_def d_def by (simp add: ValidateRollout_None stage_defs)
  have dirty: "\<not> Clean report \<Longrightarrow> ro_RolloutPercent r' \<le> ro_RolloutPercent r"
    using assms(1) unfolding r'_def d_def by (simp add: ValidateRollout_None stage_defs)
  have off: "\<not> Delivers r \<Longrightarrow> r' = r"
    unfolding r'_def d_def by (simp add: DecideStage_def StageDecision_Apply_def Let_def)
  have grow: "Clean report \<and> Delivers r \<and> ro_StageEnteredAt r \<noteq> 0 \<and>
        now - ro_StageEnteredAt r \<ge> HoldFor r (Rollout_Stage r) \<and> sd_Stage d = nextStage (Rollout_Stage r)"
    if "ro_RolloutPercent r < ro_RolloutPercent r'"
    using that dirty off hold_elapsed [OF assms(1), of now "ro_StageEnteredAt r" "Rollout_Stage r"]
    unfolding r'_def d_def
    by (auto simp: DecideStage_def StageDecision_Apply_def Let_def split: if_splits)
  show ?thesis
    unfolding Let_def d_def [symmetric] r'_def [symmetric] using v stage dirty off grow by blast
qed

text \<open>
  A quiet rollout completes: a valid, delivered canary evaluated with clean reports once its hold
  has passed, and again once the staged hold has passed, reaches the whole estate.
\<close>

lemma rollout_completes:
  assumes "ValidateRollout r = None" "Delivers r" "Rollout_Stage r = StageCanary" "0 < ro_StageEnteredAt r"
    and "ro_StageEnteredAt r + HoldFor r StageCanary \<le> t1" "t1 + HoldFor r StageStaged \<le> t2"
    and "Clean g1" "Clean g2"
  shows "let r1 = StageDecision_Apply (DecideStage r g1 t1) r t1;
             r2 = StageDecision_Apply (DecideStage r1 g2 t2) r1 t2
         in Rollout_Stage r1 = StageStaged \<and> Rollout_Stage r2 = StageFull \<and> ro_RolloutPercent r2 = 100"
proof -
  define r1 where "r1 = r\<lparr>ro_RolloutPercent := ro_StagedPercent (paced r), ro_StageEnteredAt := t1\<rparr>"
  have step1: "StageDecision_Apply (DecideStage r g1 t1) r t1 = r1"
    using assms hold_elapsed [OF assms(1), of t1 "ro_StageEnteredAt r" StageCanary]
    by (simp add: DecideStage_def StageDecision_Apply_def Let_def nextStage_def PercentForStage_def r1_def)
  have v1: "ValidateRollout r1 = None" and d1: "Delivers r1" and s1: "Rollout_Stage r1 = StageStaged"
    using assms(1,2) by (simp_all add: ValidateRollout_None r1_def Delivers_def Rollout_Stage_def fullPercent_def)
  have "0 < t1" using assms(4,5) HoldFor_range [OF assms(1), of StageCanary] by simp
  moreover have "HoldFor r1 StageStaged = HoldFor r StageStaged" by (simp add: HoldFor_def r1_def)
  ultimately have step2: "StageDecision_Apply (DecideStage r1 g2 t2) r1 t2 =
      r1\<lparr>ro_RolloutPercent := 100, ro_StageEnteredAt := t2\<rparr>"
    using assms(6,8) d1 s1 hold_elapsed [OF v1, of t2 t1 StageStaged]
    by (simp add: DecideStage_def StageDecision_Apply_def Let_def nextStage_def PercentForStage_def
        fullPercent_def r1_def)
  show ?thesis
    using v1 s1 by (simp add: step1 step2 Let_def Rollout_Stage_def fullPercent_def ValidateRollout_None)
qed

text \<open>A canary of the shipped pace, entered at the first hour, and its two evaluations.\<close>

definition demo_rollout :: Rollout where
  "demo_rollout = (DefaultRollout 2 ''cpu-saturated'')\<lparr>ro_RolloutPercent := 1, ro_StageEnteredAt := time_hour\<rparr>"

definition quiet :: GateReport where
  "quiet = \<lparr>gr_CeilingBreaches = 0, gr_ThrottleTrips = 0, gr_EvaluationErrors = 0\<rparr>"

lemma demo_rollout_facts:
  "ValidateRollout demo_rollout = None" "Delivers demo_rollout" "Rollout_Stage demo_rollout = StageCanary"
  "0 < ro_StageEnteredAt demo_rollout" "Clean quiet"
  "ro_StageEnteredAt demo_rollout + HoldFor demo_rollout StageCanary \<le> 2 * time_hour"
  "2 * time_hour + HoldFor demo_rollout StageStaged \<le> 8 * time_hour"
  by code_simp+

theorem DecideStage_safe_witness:
  "ValidateRollout (StageDecision_Apply (DecideStage demo_rollout quiet (2 * time_hour)) demo_rollout
     (2 * time_hour)) = None"
  using DecideStage_safe [OF demo_rollout_facts(1), of quiet "2 * time_hour"] by (simp add: Let_def)

end
