(* ===== verification/Rule_Delivery.thy ===== *)
theory Rule_Delivery
  imports Rule_Binding Rule_Rollout
begin

text \<open>
  The ruleset a connected machine is given: the provider of
  \<open>server/internal/agentapi/alert_rules_catalogue.go\<close>, the customer's alert budget
  (\<open>server/internal/alerts/limits.go\<close>) and the push over one connection
  (\<open>server/internal/agentapi/alert_rules.go\<close>). The stores a provider reads are functions that answer
  or fail; a source that was not configured is \<open>None\<close>.
\<close>

section \<open>Alert budgets\<close>

definition DefaultOrganizationHourlyCeiling :: int where "DefaultOrganizationHourlyCeiling = 500"
definition MaxOrganizationHourlyCeiling :: int where "MaxOrganizationHourlyCeiling = 5000"
definition DefaultDeviceHourlyCeiling :: int where "DefaultDeviceHourlyCeiling = 20"
definition MaxDeviceHourlyCeiling :: int where "MaxDeviceHourlyCeiling = 200"

record Limits =
  li_OrganizationID :: uuid
  li_OrganizationHourly :: int
  li_DeviceHourly :: int
  li_UpdatedBy :: string

datatype limits_error = ErrInvalidLimits

definition DefaultLimits :: "uuid \<Rightarrow> Limits" where
  "DefaultLimits organizationID =
     \<lparr>li_OrganizationID = organizationID, li_OrganizationHourly = DefaultOrganizationHourlyCeiling,
      li_DeviceHourly = DefaultDeviceHourlyCeiling, li_UpdatedBy = ''''\<rparr>"

definition ValidateLimits :: "Limits \<Rightarrow> limits_error option" where
  "ValidateLimits l =
     (if li_OrganizationID l = uuid_Nil then Some ErrInvalidLimits
      else first_error (map (\<lambda>(v, most). if v < 1 \<or> v > most then Some ErrInvalidLimits else None)
        [(li_OrganizationHourly l, MaxOrganizationHourlyCeiling),
         (li_DeviceHourly l, MaxDeviceHourlyCeiling)]))"

section \<open>The provider\<close>

definition RolloutFor :: "(string, Rollout) gomap \<Rightarrow> uuid \<Rightarrow> string \<Rightarrow> Rollout" where
  "RolloutFor stored organizationID ruleID =
     (case map_of stored ruleID of Some r \<Rightarrow> r | None \<Rightarrow> DefaultRollout organizationID ruleID)"

record RuleSet =
  rs_Rules :: "ThresholdRule list"
  rs_DeviceHourlyCeiling :: "32 word"
  rs_EventRules :: "string list"

record CatalogueAlertRuleProvider =
  cp_catalogue :: Catalogue
  cp_ListBindings :: "uuid \<Rightarrow> Binding list option"
  cp_ListRollouts :: "uuid \<Rightarrow> (string, Rollout) gomap option"
  cp_tags :: "(uuid \<Rightarrow> (string, string) gomap option) option"
  cp_fleet :: "(uuid \<Rightarrow> int option) option"
  cp_limits :: "(uuid \<Rightarrow> Limits option) option"

datatype rules_error = ReadBindings | ReadRollout

definition clampNonNegativeUint32 :: "int \<Rightarrow> 32 word" where
  "clampNonNegativeUint32 v =
     (if v \<le> 0 then 0 else if v > 2 ^ 32 - 1 then word_of_int (2 ^ 32 - 1) else word_of_int v)"

definition ceilingFor :: "CatalogueAlertRuleProvider \<Rightarrow> uuid \<Rightarrow> 32 word" where
  "ceilingFor p organizationID =
     (case cp_limits p of
        None \<Rightarrow> 0
      | Some Limits' \<Rightarrow>
          (case Limits' organizationID of
             None \<Rightarrow> 0
           | Some limits \<Rightarrow> clampNonNegativeUint32 (min (li_DeviceHourly limits) MaxDeviceHourlyCeiling)))"

definition resolveAll ::
  "(uuid \<Rightarrow> string) \<Rightarrow> (float64 \<Rightarrow> 32 word) \<Rightarrow> Definition list \<Rightarrow> Device \<Rightarrow> Binding list \<Rightarrow>
     (string, Rollout) gomap \<Rightarrow> ThresholdRule list" where
  "resolveAll uuid_String u32 definitions machine bindings rollouts =
     map (\<lambda>def. rules_Resolve uuid_String u32 def machine bindings)
       (filter (\<lambda>def. \<not> WatchesEvents def \<and>
          Reaches (RolloutFor rollouts (sc_OrganizationID (dv_Scope machine)) (d_ID def))
            (sc_DeviceID (dv_Scope machine)) (dv_FleetSize machine)) definitions)"

definition wantedEventRules ::
  "Definition list \<Rightarrow> uuid \<Rightarrow> (string, Rollout) gomap \<Rightarrow> string list" where
  "wantedEventRules definitions organizationID rollouts =
     map d_ID (filter (\<lambda>def. WatchesEvents def \<and> Delivers (RolloutFor rollouts organizationID (d_ID def)))
       definitions)"

definition fleetSizeFor ::
  "CatalogueAlertRuleProvider \<Rightarrow> uuid \<Rightarrow> (string, Rollout) gomap \<Rightarrow> int" where
  "fleetSizeFor p organizationID rollouts =
     (case cp_fleet p of
        None \<Rightarrow> 0
      | Some Counts \<Rightarrow>
          if \<not> NeedsFleetSize rollouts then 0
          else (case Counts organizationID of None \<Rightarrow> 0 | Some n \<Rightarrow> n))"

definition tagsFor :: "CatalogueAlertRuleProvider \<Rightarrow> uuid \<Rightarrow> (string, string) gomap" where
  "tagsFor p deviceID =
     (case cp_tags p of
        None \<Rightarrow> []
      | Some TagsFor \<Rightarrow> (case TagsFor deviceID of None \<Rightarrow> [] | Some tags \<Rightarrow> tags))"

definition RulesFor ::
  "(uuid \<Rightarrow> string) \<Rightarrow> (float64 \<Rightarrow> 32 word) \<Rightarrow> CatalogueAlertRuleProvider \<Rightarrow> Scope \<Rightarrow> rules_error + RuleSet" where
  "RulesFor uuid_String u32 p scope =
     (let definitions = Catalogue_All (cp_catalogue p) in
      if sc_OrganizationID scope = uuid_Nil then
        Inr \<lparr>rs_Rules = resolveAll uuid_String u32 definitions
                 \<lparr>dv_Scope = scope, dv_Tags = [], dv_FleetSize = 0\<rparr> [] [],
             rs_DeviceHourlyCeiling = 0,
             rs_EventRules = wantedEventRules definitions uuid_Nil []\<rparr>
      else case cp_ListBindings p (sc_OrganizationID scope) of
        None \<Rightarrow> Inl ReadBindings
      | Some bindings \<Rightarrow>
          (case cp_ListRollouts p (sc_OrganizationID scope) of
             None \<Rightarrow> Inl ReadRollout
           | Some rollouts \<Rightarrow>
               (let machine = \<lparr>dv_Scope = scope, dv_Tags = tagsFor p (sc_DeviceID scope),
                               dv_FleetSize = fleetSizeFor p (sc_OrganizationID scope) rollouts\<rparr> in
                Inr \<lparr>rs_Rules = resolveAll uuid_String u32 definitions machine bindings rollouts,
                     rs_DeviceHourlyCeiling = ceilingFor p (sc_OrganizationID scope),
                     rs_EventRules = wantedEventRules definitions (sc_OrganizationID scope) rollouts\<rparr>)))"

section \<open>The push over one connection\<close>

text \<open>The fields of \<open>AgentConn\<close> the push reads and writes, and the sets it has sent.\<close>

record rules_conn =
  ac_DeviceID :: uuid
  ac_SiteID :: uuid
  ac_TenantID :: uuid
  ac_settings :: "(uuid \<Rightarrow> Scope option) option"
  ac_organizationID :: uuid
  ac_wantedEventRules :: "string list"
  ac_sent :: "RuleSet list"

datatype push_error = AssembleAlertRules rules_error | SendFailed

definition settingsScope :: "rules_conn \<Rightarrow> Scope" where
  "settingsScope a =
     (let known = \<lparr>sc_DeviceID = ac_DeviceID a, sc_SiteID = ac_SiteID a,
                   sc_OrganizationID = uuid_Nil, sc_TenantID = ac_TenantID a\<rparr> in
      case ac_settings a of
        None \<Rightarrow> known
      | Some ScopeFor \<Rightarrow> (case ScopeFor (ac_DeviceID a) of None \<Rightarrow> known | Some scope \<Rightarrow> scope))"

definition rememberRuleset :: "rules_conn \<Rightarrow> uuid \<Rightarrow> string list \<Rightarrow> rules_conn" where
  "rememberRuleset a organizationID wanted =
     a\<lparr>ac_organizationID := organizationID, ac_wantedEventRules := wanted\<rparr>"

text \<open>\<open>send\<close> is whether the stream takes the message; a set it takes is what the agent now runs.\<close>

definition pushAlertRules ::
  "(uuid \<Rightarrow> string) \<Rightarrow> (float64 \<Rightarrow> 32 word) \<Rightarrow> (RuleSet \<Rightarrow> bool) \<Rightarrow> CatalogueAlertRuleProvider option \<Rightarrow>
     rules_conn \<Rightarrow> push_error option \<times> rules_conn" where
  "pushAlertRules uuid_String u32 send provider a =
     (case provider of
        None \<Rightarrow> (None, a)
      | Some p \<Rightarrow>
          (let scope = settingsScope a in
           case RulesFor uuid_String u32 p scope of
             Inl err \<Rightarrow> (Some (AssembleAlertRules err), a)
           | Inr ruleset \<Rightarrow>
               (let a' = rememberRuleset a (sc_OrganizationID scope) (rs_EventRules ruleset) in
                if send ruleset then (None, a'\<lparr>ac_sent := ac_sent a' @ [ruleset]\<rparr>)
                else (Some SendFailed, a'))))"

section \<open>What delivery promises\<close>

text \<open>A rollout that is off or full reaches the same machines whatever the estate is counted at.\<close>

lemma membershipLimit_off: "p \<le> 0 \<Longrightarrow> membershipLimit p n = 0"
  by (simp add: membershipLimit_def StagePopulation_def fullPercent_def)

lemma membershipLimit_full: "100 \<le> p \<Longrightarrow> membershipLimit p n = membershipBuckets"
  by (simp add: membershipLimit_def StagePopulation_def fullPercent_def)

lemma InStage_settled: "p \<le> 0 \<or> p \<ge> 100 \<Longrightarrow> InStage deviceID ruleID p n = (p \<ge> 100)"
  by (elim disjE) (simp_all add: InStage_def membershipLimit_off membershipLimit_full membershipBuckets_def)

lemma Reaches_settled:
  assumes "\<not> NeedsFleetSize rollouts"
  shows "Reaches (RolloutFor rollouts org i) deviceID n = Reaches (RolloutFor rollouts org i) deviceID m"
proof -
  let ?r = "RolloutFor rollouts org i"
  have "ro_RolloutPercent ?r \<le> 0 \<or> ro_RolloutPercent ?r \<ge> 100" if "Delivers ?r"
  proof (cases "map_of rollouts i")
    case (Some r)
    then have "(i, r) \<in> set rollouts" by (rule map_of_SomeD)
    with assms that Some show ?thesis
      by (fastforce simp: NeedsFleetSize_def list_ex_iff RolloutFor_def Rollout_Stage_def fullPercent_def
          split: if_splits)
  qed (simp add: RolloutFor_def DefaultRollout_def)
  then show ?thesis by (auto simp: Reaches_def InStage_settled)
qed

text \<open>The estate's size plays no part in what a rule resolves to.\<close>

lemma applies_fleet [simp]: "applies def (machine\<lparr>dv_FleetSize := n\<rparr>) = applies def machine"
  by (simp add: applies_def fun_eq_iff)

lemma param_overrides_fleet [simp]:
  "param_overrides_loop name (machine\<lparr>dv_FleetSize := n\<rparr>) bs seen = param_overrides_loop name machine bs seen"
  by (induction bs arbitrary: seen) (simp_all split: option.split prod.split)

lemma rules_Resolve_fleet [simp]:
  "rules_Resolve us u32 def (machine\<lparr>dv_FleetSize := n\<rparr>) bs = rules_Resolve us u32 def machine bs"
proof -
  have "resolve_value def (machine\<lparr>dv_FleetSize := n\<rparr>) xs = resolve_value def machine xs" for xs
    by (simp add: resolve_value_def paramOverrides_def fun_eq_iff split: option.split)
  then show ?thesis by (simp add: rules_Resolve_def applicableBindings_def)
qed

text \<open>
  Counting the estate only when a delivered rollout is mid-stage loses nothing: with no such
  rollout every machine is given the rules it would be given with the estate counted.
\<close>

lemma fleet_count_only_when_needed:
  assumes "\<not> NeedsFleetSize rollouts"
  shows "resolveAll us u32 defs (machine\<lparr>dv_FleetSize := n\<rparr>) bindings rollouts =
         resolveAll us u32 defs (machine\<lparr>dv_FleetSize := m\<rparr>) bindings rollouts"
  by (simp add: resolveAll_def Reaches_settled [OF assms, of _ _ _ n m])

lemma set_resolveAll:
  "set (resolveAll us u32 defs machine bindings rollouts) =
     {rules_Resolve us u32 def machine bindings | def. def \<in> set defs \<and> \<not> WatchesEvents def \<and>
        Reaches (RolloutFor rollouts (sc_OrganizationID (dv_Scope machine)) (d_ID def))
          (sc_DeviceID (dv_Scope machine)) (dv_FleetSize machine)}"
  by (auto simp: resolveAll_def)

lemma set_wantedEventRules:
  "set (wantedEventRules defs org rollouts) =
     {d_ID def | def. def \<in> set defs \<and> WatchesEvents def \<and> Delivers (RolloutFor rollouts org (d_ID def))}"
  by (auto simp: wantedEventRules_def)

lemma ceilingFor_le: "unat (ceilingFor p org) \<le> 200"
proof -
  have "unat (clampNonNegativeUint32 (min v 200)) \<le> 200" for v
  proof (cases "v \<le> 0")
    case False
    have "clampNonNegativeUint32 (min v 200) = of_nat (nat (min v 200))"
      using False by (auto simp: clampNonNegativeUint32_def of_nat_nat min_le_iff_disj)
    moreover have "unat (of_nat (nat (min v 200)) :: 32 word) = nat (min v 200)"
      by (rule unat_of_nat_u32) simp
    ultimately show ?thesis by (simp add: nat_le_iff)
  qed (simp add: clampNonNegativeUint32_def)
  then show ?thesis by (simp add: ceilingFor_def MaxDeviceHourlyCeiling_def split: option.split)
qed

text \<open>
  C7. A customer's stop is final and an unreadable store changes nothing: a ruleset that is assembled
  for a machine of a customer holds a reading rule exactly when the customer's stored rollout delivers
  it and reaches this machine, an event rule exactly when it is delivered, each as the customer's
  bindings resolve it; when the bindings or the rollouts cannot be read there is no ruleset at all.
\<close>

theorem RulesFor_customer:
  assumes "sc_OrganizationID scope \<noteq> uuid_Nil"
  shows "case RulesFor us u32 p scope of
     Inl err \<Rightarrow> cp_ListBindings p (sc_OrganizationID scope) = None \<or>
               cp_ListRollouts p (sc_OrganizationID scope) = None
   | Inr ruleset \<Rightarrow> \<exists>bindings rollouts.
       cp_ListBindings p (sc_OrganizationID scope) = Some bindings \<and>
       cp_ListRollouts p (sc_OrganizationID scope) = Some rollouts \<and>
       (let machine = \<lparr>dv_Scope = scope, dv_Tags = tagsFor p (sc_DeviceID scope),
              dv_FleetSize = fleetSizeFor p (sc_OrganizationID scope) rollouts\<rparr>;
            stored = RolloutFor rollouts (sc_OrganizationID scope) in
        set (rs_Rules ruleset) =
          {rules_Resolve us u32 def machine bindings | def.
             def \<in> set (Catalogue_All (cp_catalogue p)) \<and> \<not> WatchesEvents def \<and>
             Delivers (stored (d_ID def)) \<and>
             InStage (sc_DeviceID scope) (ro_RuleID (stored (d_ID def)))
               (ro_RolloutPercent (stored (d_ID def))) (dv_FleetSize machine)} \<and>
        set (rs_EventRules ruleset) =
          {d_ID def | def. def \<in> set (Catalogue_All (cp_catalogue p)) \<and> WatchesEvents def \<and>
             Delivers (stored (d_ID def))} \<and>
        unat (rs_DeviceHourlyCeiling ruleset) \<le> 200)"
proof -
  show ?thesis
  proof (cases "cp_ListBindings p (sc_OrganizationID scope)")
    case (Some bindings)
    note b = this
    show ?thesis
    proof (cases "cp_ListRollouts p (sc_OrganizationID scope)")
      case (Some rollouts)
      show ?thesis
        using assms ceilingFor_le [of p "sc_OrganizationID scope"]
        by (simp add: RulesFor_def b Some Let_def set_resolveAll set_wantedEventRules Reaches_def)
    qed (simp add: RulesFor_def assms b)
  qed (simp add: RulesFor_def assms)
qed

lemma default_rollout_reaches: "Reaches (RolloutFor [] org i) deviceID 0"
  by (simp add: RolloutFor_def DefaultRollout_def Reaches_def Delivers_def InStage_settled)

text \<open>
  C8. When the machine's tenancy cannot be read the push goes ahead as for a machine with no customer:
  every reading rule of the catalogue is sent at its shipped values, whatever the customer's stored
  bindings and rollouts say, a stop included.
\<close>

theorem push_without_scope_sends_shipped:
  assumes "ac_settings a = Some ScopeFor" "ScopeFor (ac_DeviceID a) = None" "\<And>s. send s"
    and "def \<in> set (Catalogue_All (cp_catalogue p))" "\<not> WatchesEvents def"
  shows "\<exists>ruleset. pushAlertRules us u32 send (Some p) a =
      (None, a\<lparr>ac_organizationID := uuid_Nil, ac_wantedEventRules := rs_EventRules ruleset,
               ac_sent := ac_sent a @ [ruleset]\<rparr>) \<and>
     rules_Resolve us u32 def \<lparr>dv_Scope = settingsScope a, dv_Tags = [], dv_FleetSize = 0\<rparr> []
       \<in> set (rs_Rules ruleset)"
proof -
  have scope: "sc_OrganizationID (settingsScope a) = uuid_Nil"
    using assms(1,2) by (simp add: settingsScope_def Let_def)
  obtain ruleset where rs: "RulesFor us u32 p (settingsScope a) = Inr ruleset"
    and rules: "rs_Rules ruleset = resolveAll us u32 (Catalogue_All (cp_catalogue p))
      \<lparr>dv_Scope = settingsScope a, dv_Tags = [], dv_FleetSize = 0\<rparr> [] []"
    using scope by (simp add: RulesFor_def Let_def)
  have "rules_Resolve us u32 def \<lparr>dv_Scope = settingsScope a, dv_Tags = [], dv_FleetSize = 0\<rparr> []
      \<in> set (rs_Rules ruleset)"
    unfolding rules set_resolveAll using assms(4,5) default_rollout_reaches by auto
  moreover have "pushAlertRules us u32 send (Some p) a =
      (None, a\<lparr>ac_organizationID := uuid_Nil, ac_wantedEventRules := rs_EventRules ruleset,
               ac_sent := ac_sent a @ [ruleset]\<rparr>)"
    using scope rs assms(3) by (simp add: pushAlertRules_def Let_def rememberRuleset_def)
  ultimately show ?thesis by blast
qed

text \<open>A customer that stopped \<open>disk-critical\<close>, and the catalogue of the two rules above.\<close>

definition demo_provider :: CatalogueAlertRuleProvider where
  "demo_provider =
     \<lparr>cp_catalogue = core_catalogue,
      cp_ListBindings = (\<lambda>org. Some demo_bindings),
      cp_ListRollouts = (\<lambda>org. Some [(''disk-critical'', (DefaultRollout org ''disk-critical'')\<lparr>ro_Kill := True\<rparr>)]),
      cp_tags = None, cp_fleet = None, cp_limits = None\<rparr>"

definition demo_conn :: rules_conn where
  "demo_conn =
     \<lparr>ac_DeviceID = 1, ac_SiteID = 0, ac_TenantID = 3, ac_settings = Some (\<lambda>i. None),
      ac_organizationID = 2, ac_wantedEventRules = [], ac_sent = []\<rparr>"

lemma core_catalogue_All: "Catalogue_All core_catalogue = [cpu_saturated, disk_critical]"
  by (simp add: Catalogue_All_def core_catalogue_def)

lemma readings_only: "\<not> WatchesEvents disk_critical" "\<not> WatchesEvents cpu_saturated"
  by (simp_all add: WatchesEvents_def KindEvent_def disk_critical_def cpu_saturated_def)

theorem RulesFor_customer_witness:
  "\<exists>ruleset. RulesFor (\<lambda>u. Itoa (uint u)) (\<lambda>f. 0) demo_provider demo_scope = Inr ruleset \<and>
     set (rs_EventRules ruleset) = {} \<and> unat (rs_DeviceHourlyCeiling ruleset) \<le> 200"
proof -
  have org: "sc_OrganizationID demo_scope \<noteq> uuid_Nil" by (simp add: demo_scope_def)
  obtain ruleset where r: "RulesFor (\<lambda>u. Itoa (uint u)) (\<lambda>f. 0) demo_provider demo_scope = Inr ruleset"
    using org by (simp add: RulesFor_def demo_provider_def Let_def)
  have all: "set (Catalogue_All (cp_catalogue demo_provider)) = {cpu_saturated, disk_critical}"
    by (simp add: demo_provider_def core_catalogue_All)
  obtain rollouts where ev: "set (rs_EventRules ruleset) =
        {d_ID def | def. def \<in> set (Catalogue_All (cp_catalogue demo_provider)) \<and> WatchesEvents def \<and>
           Delivers (RolloutFor rollouts (sc_OrganizationID demo_scope) (d_ID def))}"
      and le: "unat (rs_DeviceHourlyCeiling ruleset) \<le> 200"
    using RulesFor_customer [OF org, where us = "\<lambda>u. Itoa (uint u)" and ?u32.0 = "\<lambda>f. 0" and p = demo_provider]
    unfolding r Let_def sum.case by blast
  have "set (rs_EventRules ruleset) = {}" unfolding ev all using readings_only by blast
  with r le show ?thesis by blast
qed

theorem push_without_scope_sends_shipped_witness:
  "\<exists>ruleset. snd (pushAlertRules (\<lambda>u. Itoa (uint u)) (\<lambda>f. 0) (\<lambda>s. True) (Some demo_provider) demo_conn) =
      demo_conn\<lparr>ac_organizationID := uuid_Nil, ac_wantedEventRules := rs_EventRules ruleset,
        ac_sent := [ruleset]\<rparr> \<and>
     rules_Resolve (\<lambda>u. Itoa (uint u)) (\<lambda>f. 0) disk_critical
       \<lparr>dv_Scope = settingsScope demo_conn, dv_Tags = [], dv_FleetSize = 0\<rparr> [] \<in> set (rs_Rules ruleset)"
proof -
  have conn: "ac_settings demo_conn = Some (\<lambda>i. None)" "ac_sent demo_conn = []"
    by (simp_all add: demo_conn_def)
  have "disk_critical \<in> set (Catalogue_All (cp_catalogue demo_provider))"
    by (simp add: demo_provider_def core_catalogue_All)
  from push_without_scope_sends_shipped [OF conn(1) refl _ this readings_only(1), where send = "\<lambda>s. True" and
      us = "\<lambda>u. Itoa (uint u)" and ?u32.0 = "\<lambda>f. 0"]
  show ?thesis unfolding conn(2) by fastforce
qed

end
