(* ===== verification/Relay_Registry.thy ===== *)
theory Relay_Registry
  imports OG_Prelude
begin

text \<open>
  The port the relay records its sessions through, \<open>server/internal/relay/registry.go\<close>, as a locale,
  and the in-process adapter, \<open>inprocess_registry.go\<close>, as its interpretation.
\<close>

type_synonym SessionToken = string

datatype Side = SideAgent | SideBrowser

record SessionMeta =
  sm_CreatedAt :: instant
  sm_ExpectedSides :: "Side list"
  sm_ServerID :: string

section \<open>The port\<close>

locale session_registry =
  fixes SaveSession :: "'r \<Rightarrow> SessionToken \<Rightarrow> SessionMeta \<Rightarrow> 'r"
    and DeleteSession :: "'r \<Rightarrow> SessionToken \<Rightarrow> 'r"
    and owner_of :: "'r \<Rightarrow> SessionToken \<Rightarrow> string option"
  assumes save: "owner_of (SaveSession r t m) u =
      (if u = t \<and> owner_of r t = None then Some (sm_ServerID m) else owner_of r u)"
    and delete: "owner_of (DeleteSession r t) u = (if u = t then None else owner_of r u)"
begin

text \<open>The first owner stays the owner until the session is deleted, however often it is saved.\<close>

lemma owner_kept: "owner_of r t = Some o' \<Longrightarrow> owner_of (SaveSession r u m) t = Some o'"
  by (auto simp: save)

lemma save_idem: "owner_of (SaveSession (SaveSession r t m) t m') u = owner_of (SaveSession r t m) u"
  by (simp add: save)

lemma delete_save: "owner_of (SaveSession (DeleteSession r t) t m) t = Some (sm_ServerID m)"
  by (simp add: save delete)

lemma first_owner:
  "owner_of r t = None \<Longrightarrow> owner_of (fold (\<lambda>m r. SaveSession r t m) (m # ms) r) t = Some (sm_ServerID m)"
proof -
  have "owner_of r t = Some o' \<Longrightarrow> owner_of (fold (\<lambda>m r. SaveSession r t m) ms r) t = Some o'" for r o'
    by (induction ms arbitrary: r) (simp_all add: save)
  then show "owner_of r t = None \<Longrightarrow> ?thesis" by (simp add: save)
qed

end

section \<open>The in-process adapter\<close>

record InProcessRegistry =
  ip_entries :: "(SessionToken, string) gomap"

definition NewInProcessRegistry :: InProcessRegistry where
  "NewInProcessRegistry = \<lparr>ip_entries = []\<rparr>"

definition SaveSession :: "InProcessRegistry \<Rightarrow> SessionToken \<Rightarrow> SessionMeta \<Rightarrow> InProcessRegistry" where
  "SaveSession r token meta =
     (if map_of (ip_entries r) token = None
      then r\<lparr>ip_entries := gomap_put token (sm_ServerID meta) (ip_entries r)\<rparr> else r)"

definition DeleteSession :: "InProcessRegistry \<Rightarrow> SessionToken \<Rightarrow> InProcessRegistry" where
  "DeleteSession r token = r\<lparr>ip_entries := gomap_del token (ip_entries r)\<rparr>"

definition session_owner :: "InProcessRegistry \<Rightarrow> SessionToken \<Rightarrow> string option" where
  "session_owner r token = map_of (ip_entries r) token"

interpretation inproc: session_registry SaveSession DeleteSession session_owner
  by unfold_locales (simp_all add: SaveSession_def DeleteSession_def session_owner_def)

end
