(* ===== verification/Relay_Message.thy ===== *)
theory Relay_Message
  imports OG_Prelude
begin

text \<open>
  The relay's message reader and its pooled buffers, \<open>server/internal/relay/message.go\<close>. A reader is
  the list of answers its \<open>Read\<close> has left, each some bytes and possibly an error: \<open>Read\<close> gives as much
  of the first answer as fits, and end-of-file once none is left. A buffer of a class is its length;
  what the pools hold is counted by the buffers that are out.
\<close>

definition MaxMessageSize :: nat where "MaxMessageSize = 4194304"

definition messageClasses :: "nat list" where
  "messageClasses = [65536, 262144, 1048576, MaxMessageSize]"

datatype read_error = ReadEOF | ReadFailed
datatype message_error = ErrMessageTooLarge | ReadError

type_synonym reader = "(bytes \<times> read_error option) list"

fun reader_Read :: "reader \<Rightarrow> nat \<Rightarrow> bytes \<times> read_error option \<times> reader" where
  "reader_Read [] n = ([], Some ReadEOF, [])"
| "reader_Read ((c, e) # rest) n =
     (if length c \<le> n then (c, e, rest) else (take n c, None, (drop n c, e) # rest))"

text \<open>A message is the bytes read into its buffer and the class of that buffer.\<close>

record Message =
  m_bytes :: bytes
  m_class :: nat

text \<open>The buffers of each class that are out of their pool.\<close>

type_synonym pools = "nat \<Rightarrow> int"

definition pool_Get :: "nat \<Rightarrow> pools \<Rightarrow> pools" where "pool_Get c p = p(c := p c + 1)"
definition pool_Put :: "nat \<Rightarrow> pools \<Rightarrow> pools" where "pool_Put c p = p(c := p c - 1)"

definition Message_Release :: "Message \<Rightarrow> pools \<Rightarrow> pools" where
  "Message_Release m p = pool_Put (m_class m) p"

definition reader_size :: "reader \<Rightarrow> nat" where
  "reader_size r = sum_list (map (\<lambda>(c, e). Suc (length c)) r)"

lemma reader_size_Nil [simp]: "reader_size [] = 0"
  by (simp add: reader_size_def)

lemma reader_size_Cons [simp]: "reader_size ((c, e) # r) = Suc (length c) + reader_size r"
  by (simp add: reader_size_def)

lemma reader_Read_size:
  "reader_Read r n = (c, None, r') \<Longrightarrow> reader_size r' \<le> reader_size r \<and> (0 < n \<longrightarrow> reader_size r' < reader_size r)"
  by (cases r) (auto split: if_splits)

text \<open>
  The loop: \<open>buf\<close> holds the bytes read, \<open>cls\<close> is the class of the buffer; a full buffer moves to the
  next class first.
\<close>

function read_loop ::
  "nat \<Rightarrow> bytes \<Rightarrow> reader \<Rightarrow> pools \<Rightarrow> (message_error + Message) \<times> pools" where
  "read_loop cls buf r p =
     (let full = (length buf \<ge> Suc (messageClasses ! cls)) in
      if full \<and> cls \<ge> length messageClasses - 1
      then (Inl ErrMessageTooLarge, pool_Put cls p)
      else
        (let cls' = (if full then cls + 1 else cls);
             p' = (if full then pool_Put cls (pool_Get (cls + 1) p) else p) in
         case reader_Read r (Suc (messageClasses ! cls') - length buf) of
           (c, e, r') \<Rightarrow>
             (case e of
                Some ReadEOF \<Rightarrow> (Inr \<lparr>m_bytes = buf @ c, m_class = cls'\<rparr>, p')
              | Some ReadFailed \<Rightarrow> (Inl ReadError, pool_Put cls' p')
              | None \<Rightarrow> read_loop cls' (buf @ c) r' p')))"
  by pat_completeness auto
termination
  by (relation "measure (\<lambda>(cls, buf, r, p). reader_size r + (length messageClasses - cls))")
    (auto dest!: sym [THEN reader_Read_size] split: if_splits)

declare read_loop.simps [simp del]

definition ReadMessageFrom :: "reader \<Rightarrow> pools \<Rightarrow> (message_error + Message) \<times> pools" where
  "ReadMessageFrom r p = read_loop 0 [] r (pool_Get 0 p)"

section \<open>What the reader promises\<close>

text \<open>
  The message a reader carries: the bytes up to its first error, that error, and whether the last
  bytes come in the same answer as the error.
\<close>

fun carried :: "reader \<Rightarrow> bytes \<times> read_error \<times> bool" where
  "carried [] = ([], ReadEOF, False)"
| "carried ((c, Some e) # rest) = (c, e, c \<noteq> [])"
| "carried ((c, None) # rest) = (case carried rest of (m, e, joint) \<Rightarrow> (c @ m, e, joint))"

definition fits :: "nat \<Rightarrow> bool \<Rightarrow> bool" where
  "fits n joint \<longleftrightarrow> n \<le> MaxMessageSize \<or> n = Suc MaxMessageSize \<and> joint"

lemma carried_Read_error:
  "reader_Read r n = (c, Some e, r') \<Longrightarrow> carried r = (c, e, c \<noteq> []) \<and> length c \<le> n"
  by (cases r) (auto split: if_splits)

lemma carried_Read_more:
  assumes "reader_Read r n = (c, None, r')" "carried r' = (m, e, joint)"
  shows "carried r = (c @ m, e, joint) \<and> length c \<le> n"
proof (cases r)
  case (Cons a rest)
  obtain c0 e0 where a: "a = (c0, e0)" by (cases a)
  show ?thesis using assms unfolding Cons a
    by (cases e0; cases "carried rest") (auto split: if_splits)
qed (use assms in simp)

lemma joint_nonempty: "carried r = ([], e, joint) \<Longrightarrow> \<not> joint"
  by (induction r arbitrary: e joint rule: carried.induct) (auto split: prod.splits)

lemma messageClasses_nth [simp]:
  "messageClasses ! 0 = 65536" "messageClasses ! (Suc 0) = 262144" "messageClasses ! 2 = 1048576"
  "messageClasses ! 3 = MaxMessageSize" "length messageClasses = 4"
  by (simp_all add: messageClasses_def)

lemma class_next:
  assumes "cls < 3"
  shows "messageClasses ! cls < messageClasses ! Suc cls" "messageClasses ! Suc cls \<le> MaxMessageSize"
proof -
  have "cls = 0 \<or> cls = Suc 0 \<or> cls = 2" using assms by linarith
  then show "messageClasses ! cls < messageClasses ! Suc cls" "messageClasses ! Suc cls \<le> MaxMessageSize"
    by (auto simp: MaxMessageSize_def numeral_2_eq_2 [symmetric] numeral_3_eq_3 [symmetric])
qed

lemma class_le_max: "cls < 4 \<Longrightarrow> messageClasses ! cls \<le> MaxMessageSize"
  using class_next(2) [of "cls - 1"] by (cases cls) (auto simp: MaxMessageSize_def)

definition result_ok :: "bytes \<Rightarrow> read_error \<Rightarrow> bool \<Rightarrow> message_error + Message \<Rightarrow> bool" where
  "result_ok m e joint res \<longleftrightarrow>
     (if \<not> fits (length m) joint then res = Inl ErrMessageTooLarge
      else case e of
        ReadEOF \<Rightarrow> (\<exists>cls. res = Inr \<lparr>m_bytes = m, m_class = cls\<rparr>)
      | ReadFailed \<Rightarrow> res = Inl ReadError)"

lemma read_loop_result:
  assumes "carried r = (m, e, joint)" "cls < 4" "length buf \<le> Suc (messageClasses ! cls)"
  shows "result_ok (buf @ m) e joint (fst (read_loop cls buf r p))"
  using assms
proof (induction cls buf r p arbitrary: m e joint rule: read_loop.induct)
  case (1 cls buf r p)
  let ?full = "length buf \<ge> Suc (messageClasses ! cls)"
  show ?case
  proof (cases "?full \<and> cls \<ge> 3")
    case True
    then have "cls = 3" using 1(3) by simp
    with True 1(4) have "length buf = Suc MaxMessageSize" by simp
    moreover have "\<not> fits (length buf + length m) joint"
      using \<open>length buf = _\<close> joint_nonempty [of r e joint] 1(2) by (cases m) (auto simp: fits_def)
    ultimately show ?thesis using \<open>cls = 3\<close> by (simp add: read_loop.simps [of 3] result_ok_def)
  next
    case False
    define cls' where "cls' = (if ?full then cls + 1 else cls)"
    define p' where "p' = (if ?full then pool_Put cls (pool_Get (cls + 1) p) else p)"
    have cls': "cls' < 4" "length buf < Suc (messageClasses ! cls')"
      using False 1(3,4) class_next(1) [of cls] by (auto simp: cls'_def)
    obtain c e' r' where rd: "reader_Read r (Suc (messageClasses ! cls') - length buf) = (c, e', r')"
      by (metis prod_cases3)
    have unfold: "fst (read_loop cls buf r p) =
        (case e' of Some ReadEOF \<Rightarrow> Inr \<lparr>m_bytes = buf @ c, m_class = cls'\<rparr>
         | Some ReadFailed \<Rightarrow> Inl ReadError
         | None \<Rightarrow> fst (read_loop cls' (buf @ c) r' p'))"
      using False rd
      by (subst read_loop.simps)
        (auto simp: Let_def cls'_def [symmetric] p'_def [symmetric] split: option.split read_error.split)
    show ?thesis
    proof (cases e')
      case None
      obtain m' e1 j1 where car: "carried r' = (m', e1, j1)" by (metis prod_cases3)
      have m: "m = c @ m'" "e = e1" "joint = j1" "length c \<le> Suc (messageClasses ! cls') - length buf"
        using carried_Read_more [OF rd [unfolded None] car] 1(2) by auto
      have "result_ok ((buf @ c) @ m') e1 j1 (fst (read_loop cls' (buf @ c) r' p'))"
        using False rd None car m(4) cls'
        by (intro 1(1)) (auto simp: cls'_def p'_def)
      then show ?thesis using unfold None m by simp
    next
      case (Some err)
      have m: "m = c" "e = err" "joint = (c \<noteq> [])" "length c \<le> Suc (messageClasses ! cls') - length buf"
        using carried_Read_error [OF rd [unfolded Some]] 1(2) by auto
      have "length (buf @ m) \<le> Suc MaxMessageSize"
        using m(1,4) cls' class_le_max [OF cls'(1)] by simp
      moreover have "length (buf @ m) = Suc MaxMessageSize \<longrightarrow> joint"
        using m cls'(2) class_le_max [OF cls'(1)] by (cases c) auto
      ultimately have "fits (length (buf @ m)) joint" by (auto simp: fits_def)
      then show ?thesis using unfold Some m by (cases err) (auto simp: result_ok_def)
    qed
  qed
qed

lemma read_loop_pools:
  "p = pool_Get cls q \<Longrightarrow>
     snd (read_loop cls buf r p) =
       (case fst (read_loop cls buf r p) of Inr msg \<Rightarrow> pool_Get (m_class msg) q | Inl err \<Rightarrow> q)"
proof (induction cls buf r p arbitrary: q rule: read_loop.induct)
  case (1 cls buf r p)
  have put: "pool_Put c (pool_Get c q) = q" for c q by (simp add: pool_Put_def pool_Get_def)
  have swap: "pool_Put cls (pool_Get (Suc cls) (pool_Get cls q)) = pool_Get (Suc cls) q"
    by (auto simp: pool_Put_def pool_Get_def fun_eq_iff)
  show ?case
    using 1 by (subst (1 2) read_loop.simps)
      (auto simp: Let_def put swap split: option.split read_error.split prod.split)
qed


text \<open>
  The limit has a slip of one byte: a message one byte over it is returned when its last bytes come in
  the same answer as the end.
\<close>

lemma ReadMessageFrom_one_over:
  assumes "length c = Suc MaxMessageSize"
  shows "\<exists>cls. fst (ReadMessageFrom [(c, Some ReadEOF)] p) = Inr \<lparr>m_bytes = c, m_class = cls\<rparr>"
proof -
  have "carried [(c, Some ReadEOF)] = (c, ReadEOF, True)" using assms by auto
  from read_loop_result [OF this, of 0 "[]" "pool_Get 0 p"] assms
  show ?thesis by (simp add: ReadMessageFrom_def result_ok_def fits_def)
qed

end
