(* ===== verification/Relay.thy ===== *)
theory Relay
  imports Relay_Registry Relay_Message
begin

text \<open>
  The relay that pairs an agent's and a browser's connection and pipes one into the other,
  \<open>server/internal/relay/relay.go\<close>. Sessions live in a heap and the map from tokens holds their
  addresses, as the source holds pointers. Every operation is cut where the source takes or releases a
  lock or touches the shared map, the count or the registry, and a step relation interleaves the calls
  and the goroutines at those cuts.

  The goroutine that ends a session, the pipe or a release, is found in the session: the guards of
  the code let there be one, and its place in its sequence of steps is the field \<open>s_worker\<close>. The
  field \<open>s_token\<close> is the key the session was stored under. Neither is a field of the source's struct.
\<close>

section \<open>State\<close>

type_synonym conn = nat
type_synonym addr = nat

text \<open>What is left of a teardown: the next action of the goroutine doing it.\<close>

datatype teardown = TDelete | TCount | TRegistry | THook | TClose | TEnd | TDone

datatype worker =
    Idle
  | Copying
  | PipeEnding teardown
  | Releasing bool "conn option" "conn option" teardown

record session =
  s_token :: SessionToken
  s_agent :: "conn option"
  s_browser :: "conn option"
  s_ready :: bool
  s_done :: bool
  s_started :: bool
  s_piping :: bool
  s_released :: bool
  s_endReason :: string
  s_cancelled :: bool
  s_closeOnce :: bool
  s_worker :: worker

definition newSession :: "SessionToken \<Rightarrow> session" where
  "newSession token =
     \<lparr>s_token = token, s_agent = None, s_browser = None, s_ready = False, s_done = False,
      s_started = False, s_piping = False, s_released = False, s_endReason = '''',
      s_cancelled = False, s_closeOnce = False, s_worker = Idle\<rparr>"

text \<open>
  The relay, with the calls of \<open>OnSessionEnd\<close> made (the session each was for beside its token) and the
  connections closed with their reasons, the empty one for a plain \<open>Close\<close>.
\<close>

record Relay =
  r_heap :: "session list"
  r_sessions :: "(SessionToken, addr) gomap"
  r_count :: int
  r_started :: nat
  r_registry :: InProcessRegistry
  r_serverID :: string
  r_ended :: "(SessionToken \<times> addr) list"
  r_closed :: "(conn \<times> string) list"

definition defaultServerID :: string where "defaultServerID = ''local''"

definition NewRelay :: Relay where
  "NewRelay =
     \<lparr>r_heap = [], r_sessions = [], r_count = 0, r_started = 0, r_registry = NewInProcessRegistry,
      r_serverID = defaultServerID, r_ended = [], r_closed = []\<rparr>"

abbreviation upd_session :: "addr \<Rightarrow> session \<Rightarrow> Relay \<Rightarrow> Relay" where
  "upd_session a s r \<equiv> r\<lparr>r_heap := (r_heap r)[a := s]\<rparr>"

datatype relay_error = ErrDuplicateSide | ErrSessionNotFound

section \<open>Operations\<close>

definition session_setSide :: "Side \<Rightarrow> conn \<Rightarrow> session \<Rightarrow> relay_error + session" where
  "session_setSide side conn s =
     (case side of
        SideAgent \<Rightarrow> if s_agent s \<noteq> None then Inl ErrDuplicateSide else Inr (s\<lparr>s_agent := Some conn\<rparr>)
      | SideBrowser \<Rightarrow> if s_browser s \<noteq> None then Inl ErrDuplicateSide else Inr (s\<lparr>s_browser := Some conn\<rparr>))"

definition markStarted :: "addr \<Rightarrow> Relay \<Rightarrow> bool \<times> Relay" where
  "markStarted a r =
     (let s = r_heap r ! a in
      if s_started s then (False, r)
      else (True, (upd_session a (s\<lparr>s_started := True\<rparr>) r)
                    \<lparr>r_count := r_count r + 1, r_started := r_started r + 1\<rparr>))"

text \<open>\<open>LoadOrStore\<close>: the session under the token, a new one when there is none.\<close>

definition register_load :: "SessionToken \<Rightarrow> Relay \<Rightarrow> addr \<times> Relay" where
  "register_load token r =
     (case map_of (r_sessions r) token of
        Some a \<Rightarrow> (a, r)
      | None \<Rightarrow> (let a = length (r_heap r) in
          (a, r\<lparr>r_heap := r_heap r @ [newSession token], r_sessions := gomap_put token a (r_sessions r)\<rparr>)))"

text \<open>The critical section of \<open>Register\<close>: take the side, count the session when it is the first.\<close>

definition register_lock :: "addr \<Rightarrow> conn \<Rightarrow> Side \<Rightarrow> Relay \<Rightarrow> relay_error + (bool \<times> Relay)" where
  "register_lock a conn side r =
     (case session_setSide side conn (r_heap r ! a) of
        Inl err \<Rightarrow> Inl err
      | Inr s \<Rightarrow> Inr (markStarted a (upd_session a s r)))"

definition writeOwnerMeta :: "SessionToken \<Rightarrow> instant \<Rightarrow> Relay \<Rightarrow> Relay" where
  "writeOwnerMeta token now r =
     r\<lparr>r_registry := SaveSession (r_registry r) token
         \<lparr>sm_CreatedAt = now, sm_ExpectedSides = [SideAgent, SideBrowser], sm_ServerID = r_serverID r\<rparr>\<rparr>"

definition startPipeIfReady :: "addr \<Rightarrow> Relay \<Rightarrow> Relay" where
  "startPipeIfReady a r =
     (let s = r_heap r ! a in
      if s_piping s \<or> s_released s \<or> s_agent s = None \<or> s_browser s = None then r
      else upd_session a (s\<lparr>s_piping := True, s_ready := True, s_worker := Copying\<rparr>) r)"

definition ActiveSessionCount :: "Relay \<Rightarrow> int" where "ActiveSessionCount r = r_count r"
definition SessionsStarted :: "Relay \<Rightarrow> nat" where "SessionsStarted r = r_started r"
definition ActiveTokens :: "Relay \<Rightarrow> SessionToken list" where "ActiveTokens r = map fst (r_sessions r)"

text \<open>
  \<open>WaitForPeer\<close> and \<open>WaitForDrain\<close> at one look at the state: \<open>None\<close> while they block; \<open>expired\<close> is
  whether the caller's context has.
\<close>

definition WaitForPeer :: "bool \<Rightarrow> SessionToken \<Rightarrow> Relay \<Rightarrow> (relay_error option + unit) option" where
  "WaitForPeer expired token r =
     (case map_of (r_sessions r) token of
        None \<Rightarrow> Some (Inl (Some ErrSessionNotFound))
      | Some a \<Rightarrow>
          if s_ready (r_heap r ! a) then Some (Inr ())
          else if expired then Some (Inl None) else None)"

definition WaitForDrain :: "bool \<Rightarrow> Relay \<Rightarrow> (unit + unit) option" where
  "WaitForDrain expired r =
     (if ActiveSessionCount r = 0 then Some (Inr ()) else if expired then Some (Inl ()) else None)"

text \<open>The critical section of \<open>End\<close>: \<open>None\<close> when the session is already being ended.\<close>

definition end_lock :: "addr \<Rightarrow> string \<Rightarrow> Relay \<Rightarrow> (bool \<times> Relay) option" where
  "end_lock a reason r =
     (let s = r_heap r ! a in
      if s_released s \<or> s_endReason s \<noteq> '''' then None
      else Some (s_piping s, upd_session a (s\<lparr>s_endReason := reason\<rparr>) r))"

definition stop_pipe :: "addr \<Rightarrow> Relay \<Rightarrow> Relay" where
  "stop_pipe a r = upd_session a ((r_heap r ! a)\<lparr>s_cancelled := True\<rparr>) r"

text \<open>The critical section of \<open>release\<close>: the caller goes on with the sides it saw there.\<close>

definition release_lock :: "addr \<Rightarrow> Relay \<Rightarrow> Relay" where
  "release_lock a r =
     (let s = r_heap r ! a in
      if s_piping s \<or> s_released s then r
      else upd_session a (s\<lparr>s_released := True,
             s_worker := Releasing (s_started s) (s_agent s) (s_browser s) TDelete\<rparr>) r)"

definition closeSides :: "string \<Rightarrow> conn option list \<Rightarrow> (conn \<times> string) list" where
  "closeSides reason conns = map (\<lambda>c. (c, reason)) (List.map_filter id conns)"

section \<open>The goroutine that ends a session\<close>

definition release_step ::
  "addr \<Rightarrow> bool \<Rightarrow> conn option \<Rightarrow> conn option \<Rightarrow> teardown \<Rightarrow> Relay \<Rightarrow> Relay option" where
  "release_step a started agent browser t r =
     (let s = r_heap r ! a; token = s_token s;
          next = (\<lambda>t'. upd_session a (s\<lparr>s_worker := Releasing started agent browser t'\<rparr>)) in
      case t of
        TDelete \<Rightarrow> Some ((next TCount r)\<lparr>r_sessions :=
          (if map_of (r_sessions r) token = Some a then gomap_del token (r_sessions r) else r_sessions r)\<rparr>)
      | TCount \<Rightarrow> Some ((next TRegistry r)\<lparr>r_count := (if started then r_count r - 1 else r_count r)\<rparr>)
      | TRegistry \<Rightarrow> Some ((next THook r)\<lparr>r_registry := DeleteSession (r_registry r) token\<rparr>)
      | THook \<Rightarrow> Some ((next TClose r)\<lparr>r_ended := r_ended r @ [(token, a)]\<rparr>)
      | TClose \<Rightarrow> Some ((next TEnd r)\<lparr>r_closed := r_closed r @ closeSides (s_endReason s) [agent, browser]\<rparr>)
      | TEnd \<Rightarrow> Some (upd_session a (s\<lparr>s_worker := Releasing started agent browser TDone, s_done := True\<rparr>) r)
      | TDone \<Rightarrow> None)"

text \<open>
  \<open>pipe\<close>: the copier of browser messages closes both sides when it stops; the goroutine leaves its
  \<open>select\<close> when a copier has stopped or the context is cancelled, and runs the deferred teardown.
\<close>

definition pipe_copier_closes :: "addr \<Rightarrow> Relay \<Rightarrow> Relay option" where
  "pipe_copier_closes a r =
     (let s = r_heap r ! a in
      case s_worker s of
        Copying \<Rightarrow>
          if s_closeOnce s then None
          else Some ((upd_session a (s\<lparr>s_closeOnce := True\<rparr>) r)\<lparr>r_closed :=
            r_closed r @ closeSides (s_endReason s) [s_agent s, s_browser s]\<rparr>)
      | _ \<Rightarrow> None)"

definition pipe_select :: "addr \<Rightarrow> Relay \<Rightarrow> Relay option" where
  "pipe_select a r =
     (let s = r_heap r ! a in
      case s_worker s of
        Copying \<Rightarrow> Some (upd_session a (s\<lparr>s_cancelled := True, s_worker := PipeEnding TDelete\<rparr>) r)
      | _ \<Rightarrow> None)"

definition pipe_step :: "addr \<Rightarrow> teardown \<Rightarrow> Relay \<Rightarrow> Relay option" where
  "pipe_step a t r =
     (let s = r_heap r ! a; token = s_token s;
          next = (\<lambda>t'. upd_session a (s\<lparr>s_worker := PipeEnding t'\<rparr>)) in
      case t of
        TDelete \<Rightarrow> Some ((next TCount r)\<lparr>r_sessions := gomap_del token (r_sessions r)\<rparr>)
      | TCount \<Rightarrow> Some ((next TRegistry r)\<lparr>r_count := r_count r - 1\<rparr>)
      | TRegistry \<Rightarrow> Some ((next THook r)\<lparr>r_registry := DeleteSession (r_registry r) token\<rparr>)
      | THook \<Rightarrow> Some ((next TClose r)\<lparr>r_ended := r_ended r @ [(token, a)]\<rparr>)
      | TClose \<Rightarrow> Some ((upd_session a (s\<lparr>s_worker := PipeEnding TEnd, s_closeOnce := True\<rparr>) r)\<lparr>r_closed :=
          r_closed r @ (if s_closeOnce s then [] else closeSides (s_endReason s) [s_agent s, s_browser s])\<rparr>)
      | TEnd \<Rightarrow> Some (upd_session a (s\<lparr>s_worker := PipeEnding TDone, s_done := True\<rparr>) r)
      | TDone \<Rightarrow> None)"

definition worker_step :: "addr \<Rightarrow> Relay \<Rightarrow> Relay option" where
  "worker_step a r =
     (case s_worker (r_heap r ! a) of
        Releasing started agent browser t \<Rightarrow> release_step a started agent browser t r
      | PipeEnding t \<Rightarrow> pipe_step a t r
      | _ \<Rightarrow> None)"

section \<open>Calls\<close>

text \<open>A call in progress, at the next action its goroutine takes; \<open>Returned\<close> carries its result.\<close>

datatype call_result =
  Registered addr | RegisterFailed relay_error | Ended bool | Unregistered

datatype call =
    Register SessionToken conn Side
  | RegisterLock addr SessionToken conn Side
  | RegisterMeta addr SessionToken
  | RegisterPipe addr SessionToken
  | End SessionToken string
  | EndLock addr string
  | EndStop addr
  | EndRelease addr
  | Unregister SessionToken
  | UnregisterRelease addr
  | Returned call_result

fun is_entry :: "call \<Rightarrow> bool" where
  "is_entry (Register t c s) = True"
| "is_entry (End t reason) = True"
| "is_entry (Unregister t) = True"
| "is_entry _ = False"

fun call_step :: "instant \<Rightarrow> call \<Rightarrow> Relay \<Rightarrow> call \<times> Relay" where
  "call_step now (Register token conn side) r =
     (case register_load token r of (a, r') \<Rightarrow> (RegisterLock a token conn side, r'))"
| "call_step now (RegisterLock a token conn side) r =
     (case register_lock a conn side r of
        Inl err \<Rightarrow> (Returned (RegisterFailed err), r)
      | Inr (firstSide, r') \<Rightarrow> (if firstSide then RegisterMeta a token else RegisterPipe a token, r'))"
| "call_step now (RegisterMeta a token) r = (RegisterPipe a token, writeOwnerMeta token now r)"
| "call_step now (RegisterPipe a token) r = (Returned (Registered a), startPipeIfReady a r)"
| "call_step now (End token reason) r =
     (case map_of (r_sessions r) token of
        None \<Rightarrow> (Returned (Ended False), r)
      | Some a \<Rightarrow> (EndLock a reason, r))"
| "call_step now (EndLock a reason) r =
     (case end_lock a reason r of
        None \<Rightarrow> (Returned (Ended False), r)
      | Some (piping, r') \<Rightarrow> (if piping then EndStop a else EndRelease a, r'))"
| "call_step now (EndStop a) r = (Returned (Ended True), stop_pipe a r)"
| "call_step now (EndRelease a) r = (Returned (Ended True), release_lock a r)"
| "call_step now (Unregister token) r =
     (case map_of (r_sessions r) token of
        None \<Rightarrow> (Returned Unregistered, r)
      | Some a \<Rightarrow> (UnregisterRelease a, r))"
| "call_step now (UnregisterRelease a) r = (Returned Unregistered, release_lock a r)"
| "call_step now (Returned res) r = (Returned res, r)"

section \<open>The interleaving of calls and goroutines\<close>

type_synonym system = "Relay \<times> call list"

inductive relay_step :: "system \<Rightarrow> system \<Rightarrow> bool" where
  call_enters: "is_entry c \<Longrightarrow> relay_step (r, cs) (r, cs @ [c])"
| call_runs: "i < length cs \<Longrightarrow> call_step now (cs ! i) r = (c', r') \<Longrightarrow> relay_step (r, cs) (r', cs[i := c'])"
| copier_closes: "a < length (r_heap r) \<Longrightarrow> pipe_copier_closes a r = Some r' \<Longrightarrow> relay_step (r, cs) (r', cs)"
| select_fires: "a < length (r_heap r) \<Longrightarrow> pipe_select a r = Some r' \<Longrightarrow> relay_step (r, cs) (r', cs)"
| worker_runs: "a < length (r_heap r) \<Longrightarrow> worker_step a r = Some r' \<Longrightarrow> relay_step (r, cs) (r', cs)"

definition relay_start :: "system \<Rightarrow> bool" where
  "relay_start s \<longleftrightarrow> s = (NewRelay, [])"

abbreviation relay_reachable :: "system \<Rightarrow> bool" where
  "relay_reachable \<equiv> reachable relay_start relay_step"

section \<open>Copying\<close>

text \<open>
  \<open>copyMessages\<close>: the source's answers in turn, \<open>None\<close> for the error that ends it, and whether the
  other side takes the next write; the messages the other side has received.
\<close>

fun copyMessages :: "bytes option list \<Rightarrow> bool list \<Rightarrow> bytes list" where
  "copyMessages (Some msg # reads) (True # writes) = msg # copyMessages reads writes"
| "copyMessages _ _ = []"

end
