(* ===== verification/Relay_Invariant.thy ===== *)
theory Relay_Invariant
  imports Relay
begin

text \<open>
  What every interleaving of the relay's calls and goroutines keeps: the map, the counts and the log of
  ended sessions agree with the sessions, a session is ended by one goroutine, and two sides that met
  are piped. The invariant is proved once per step and read off for each property.
\<close>

section \<open>Invariants\<close>

text \<open>What the place of the ending goroutine says of a session.\<close>

definition teardown_of :: "session \<Rightarrow> teardown option" where
  "teardown_of s = (case s_worker s of PipeEnding t \<Rightarrow> Some t | Releasing st ag br t \<Rightarrow> Some t | _ \<Rightarrow> None)"

definition present :: "session \<Rightarrow> bool" where
  "present s \<longleftrightarrow> teardown_of s = None \<or> teardown_of s = Some TDelete"

definition uncounted :: "session \<Rightarrow> bool" where
  "uncounted s \<longleftrightarrow>
     (case s_worker s of
        PipeEnding t \<Rightarrow> t \<noteq> TDelete \<and> t \<noteq> TCount
      | Releasing st ag br t \<Rightarrow> st \<and> t \<noteq> TDelete \<and> t \<noteq> TCount
      | _ \<Rightarrow> False)"

definition counted :: "session \<Rightarrow> bool" where
  "counted s \<longleftrightarrow> s_started s \<and> \<not> uncounted s"

definition hooked :: "session \<Rightarrow> bool" where
  "hooked s \<longleftrightarrow> (case teardown_of s of Some t \<Rightarrow> t = TClose \<or> t = TEnd \<or> t = TDone | None \<Rightarrow> False)"

lemmas place_defs = teardown_of_def present_def uncounted_def counted_def hooked_def

definition session_inv :: "session \<Rightarrow> bool" where
  "session_inv s \<longleftrightarrow>
     s_piping s = (case s_worker s of Copying \<Rightarrow> True | PipeEnding t \<Rightarrow> True | _ \<Rightarrow> False) \<and>
     s_released s = (case s_worker s of Releasing st ag br t \<Rightarrow> True | _ \<Rightarrow> False) \<and>
     s_ready s = s_piping s \<and>
     s_done s = (teardown_of s = Some TDone) \<and>
     (s_piping s \<longrightarrow> s_agent s \<noteq> None \<and> s_browser s \<noteq> None) \<and>
     (s_agent s \<noteq> None \<or> s_browser s \<noteq> None \<longrightarrow> s_started s) \<and>
     (case s_worker s of Releasing st ag br t \<Rightarrow> st \<longrightarrow> s_started s | _ \<Rightarrow> True)"

definition relay_inv :: "Relay \<Rightarrow> bool" where
  "relay_inv r \<longleftrightarrow>
     (\<forall>t a. map_of (r_sessions r) t = Some a \<longleftrightarrow>
        a < length (r_heap r) \<and> s_token (r_heap r ! a) = t \<and> present (r_heap r ! a)) \<and>
     (\<forall>a < length (r_heap r). session_inv (r_heap r ! a)) \<and>
     r_count r = int (length (filter counted (r_heap r))) \<and>
     r_started r = length (filter s_started (r_heap r)) \<and>
     (\<forall>a. count_list (map snd (r_ended r)) a =
        (if a < length (r_heap r) \<and> hooked (r_heap r ! a) then 1 else 0))"

text \<open>One session changes, and the map, the counts and the log change with it.\<close>

lemma relay_inv_update:
  assumes inv: "relay_inv r" and a: "a < length (r_heap r)"
    and s': "session_inv s'" "s_token s' = s_token (r_heap r ! a)"
    and heap: "r_heap r' = (r_heap r)[a := s']"
    and map: "\<And>t b. map_of (r_sessions r') t = Some b \<longleftrightarrow>
      (if b = a then t = s_token s' \<and> present s' else map_of (r_sessions r) t = Some b)"
    and count: "r_count r' = r_count r + of_bool (counted s') - of_bool (counted (r_heap r ! a))"
    and started: "r_started r' + of_bool (s_started (r_heap r ! a)) = r_started r + of_bool (s_started s')"
    and ended: "\<And>b. count_list (map snd (r_ended r')) b + of_bool (b = a \<and> hooked (r_heap r ! a)) =
      count_list (map snd (r_ended r)) b + of_bool (b = a \<and> hooked s')"
  shows "relay_inv r'"
proof -
  let ?h = "r_heap r"
  have "\<forall>b < length ?h. session_inv (?h[a := s'] ! b)"
    using inv a s'(1) by (auto simp: relay_inv_def nth_list_update)
  moreover have "map_of (r_sessions r') t = Some b \<longleftrightarrow>
      b < length ?h \<and> s_token (?h[a := s'] ! b) = t \<and> present (?h[a := s'] ! b)" for t b
    using inv a s'(2) map [of t b] by (auto simp: relay_inv_def nth_list_update)
  moreover have "r_count r' = int (length (filter counted (?h[a := s'])))"
    using inv count length_filter_update [OF a, of counted s']
    by (auto simp: relay_inv_def of_bool_def split: if_splits)
  moreover have "r_started r' = length (filter s_started (?h[a := s']))"
    using inv started length_filter_update [OF a, of s_started s']
    by (auto simp: relay_inv_def of_bool_def split: if_splits)
  moreover have "count_list (map snd (r_ended r')) b =
      (if b < length ?h \<and> hooked (?h[a := s'] ! b) then 1 else 0)" for b
    using inv a ended [of b] by (auto simp: relay_inv_def nth_list_update of_bool_def split: if_splits)
  ultimately show ?thesis by (simp add: relay_inv_def heap)
qed

text \<open>The case in which only the session changes.\<close>

lemma relay_inv_local:
  assumes inv: "relay_inv r" and a: "a < length (r_heap r)"
    and s': "session_inv s'" "s_token s' = s_token (r_heap r ! a)"
    and same: "present s' = present (r_heap r ! a)" "counted s' = counted (r_heap r ! a)"
      "s_started s' = s_started (r_heap r ! a)" "hooked s' = hooked (r_heap r ! a)"
  shows "relay_inv (upd_session a s' r)"
proof (rule relay_inv_update [OF inv a s'])
  show "map_of (r_sessions (upd_session a s' r)) t = Some b \<longleftrightarrow>
      (if b = a then t = s_token s' \<and> present s' else map_of (r_sessions r) t = Some b)" for t b
    using inv a s'(2) same(1) by (auto simp: relay_inv_def)
qed (simp_all add: same)

lemma relay_inv_extra [simp]:
  "relay_inv (r\<lparr>r_registry := x\<rparr>) = relay_inv r" "relay_inv (r\<lparr>r_closed := y\<rparr>) = relay_inv r"
  by (simp_all add: relay_inv_def)

lemma relay_inv_session: "relay_inv r \<Longrightarrow> a < length (r_heap r) \<Longrightarrow> session_inv (r_heap r ! a)"
  by (simp add: relay_inv_def)

lemma relay_inv_map:
  "relay_inv r \<Longrightarrow> map_of (r_sessions r) t = Some a \<longleftrightarrow>
     a < length (r_heap r) \<and> s_token (r_heap r ! a) = t \<and> present (r_heap r ! a)"
  by (simp add: relay_inv_def)

lemma relay_inv_entry:
  "relay_inv r \<Longrightarrow> a < length (r_heap r) \<Longrightarrow> present (r_heap r ! a) \<Longrightarrow>
     map_of (r_sessions r) (s_token (r_heap r ! a)) = Some a"
  by (simp add: relay_inv_def)

lemma session_idle: "session_inv s \<Longrightarrow> \<not> s_piping s \<Longrightarrow> \<not> s_released s \<Longrightarrow> s_worker s = Idle"
  by (simp add: session_inv_def split: worker.splits)

lemma place_cong:
  assumes "s_worker s' = s_worker s" "s_started s' = s_started s"
  shows "present s' = present s" "counted s' = counted s" "hooked s' = hooked s" "uncounted s' = uncounted s"
    "teardown_of s' = teardown_of s"
  using assms by (simp_all add: place_defs)

text \<open>The case in which nothing the invariant reads changes.\<close>

lemma relay_inv_frame:
  assumes inv: "relay_inv r" and a: "a < length (r_heap r)"
    and same: "s_worker s' = s_worker (r_heap r ! a)" "s_started s' = s_started (r_heap r ! a)"
      "s_token s' = s_token (r_heap r ! a)" "s_piping s' = s_piping (r_heap r ! a)"
      "s_released s' = s_released (r_heap r ! a)" "s_ready s' = s_ready (r_heap r ! a)"
      "s_done s' = s_done (r_heap r ! a)" "s_agent s' = s_agent (r_heap r ! a)"
      "s_browser s' = s_browser (r_heap r ! a)"
  shows "relay_inv (upd_session a s' r)"
proof (rule relay_inv_local [OF inv a])
  show "session_inv s'"
    using relay_inv_session [OF inv a] place_cong(5) [OF same(1,2)] unfolding session_inv_def same by simp
qed (simp_all add: place_cong [OF same(1,2)] same)

text \<open>The operations of the calls.\<close>

lemma register_load_inv:
  assumes "relay_inv r" "register_load token r = (a, r')"
  shows "relay_inv r' \<and> a < length (r_heap r') \<and> s_token (r_heap r' ! a) = token"
proof (cases "map_of (r_sessions r) token")
  case (Some b)
  then show ?thesis using assms by (simp add: register_load_def relay_inv_def)
next
  case None
  have new: "session_inv (newSession token)" "present (newSession token)" "\<not> counted (newSession token)"
    "\<not> hooked (newSession token)" "\<not> s_started (newSession token)" "s_token (newSession token) = token"
    by (simp_all add: session_inv_def newSession_def place_defs)
  have r': "a = length (r_heap r)"
    "r' = r\<lparr>r_heap := r_heap r @ [newSession token], r_sessions := gomap_put token a (r_sessions r)\<rparr>"
    using None assms(2) by (auto simp: register_load_def Let_def)
  have nth: "b < Suc (length (r_heap r)) \<Longrightarrow> (r_heap r @ [newSession token]) ! b =
      (if b < length (r_heap r) then r_heap r ! b else newSession token)" for b
    by (auto simp: nth_append less_Suc_eq)
  have free: "\<not> present (r_heap r ! b)"
    if "b < length (r_heap r)" "s_token (r_heap r ! b) = token" for b
    using relay_inv_entry [OF assms(1) that(1)] that(2) None by auto
  have "map_of (r_sessions r') t = Some b \<longleftrightarrow>
      b < length (r_heap r') \<and> s_token (r_heap r' ! b) = t \<and> present (r_heap r' ! b)" for t b
    using assms(1) None new free unfolding r' relay_inv_def
    by (auto simp: nth less_Suc_eq nth_append split: if_splits)
  moreover have "\<forall>b < length (r_heap r'). session_inv (r_heap r' ! b)"
    using assms(1) new(1) unfolding r' relay_inv_def by (auto simp: nth)
  moreover have "count_list (map snd (r_ended r')) b =
      (if b < length (r_heap r') \<and> hooked (r_heap r' ! b) then 1 else 0)" for b
    using assms(1) new(4) unfolding r' relay_inv_def by (auto simp: nth)
  ultimately have "relay_inv r'" using assms(1) new(3,5) by (simp add: relay_inv_def r'(2))
  then show ?thesis using new(6) by (simp add: r')
qed

lemma register_lock_inv:
  assumes inv: "relay_inv r" and a: "a < length (r_heap r)" and run: "register_lock a conn side r = Inr (first, r')"
  shows "relay_inv r'" "length (r_heap r') = length (r_heap r)" "s_token (r_heap r' ! b) = s_token (r_heap r ! b)"
proof -
  let ?s = "r_heap r ! a"
  obtain s1 where s1: "session_setSide side conn ?s = Inr s1" "markStarted a (upd_session a s1 r) = (first, r')"
    using run by (auto simp: register_lock_def split: sum.splits)
  have side: "s1 = ?s\<lparr>s_agent := Some conn\<rparr> \<and> s_agent ?s = None \<or> s1 = ?s\<lparr>s_browser := Some conn\<rparr> \<and> s_browser ?s = None"
    using s1(1) by (auto simp: session_setSide_def split: Side.splits if_splits)
  have old: "session_inv ?s" using relay_inv_session [OF inv a] .
  define s' where "s' = s1\<lparr>s_started := True\<rparr>"
  have r': "r' = (upd_session a s' r)\<lparr>r_count := r_count r + of_bool (\<not> s_started ?s),
                    r_started := r_started r + of_bool (\<not> s_started ?s)\<rparr>"
  proof (cases "s_started ?s")
    case True
    then have "s_started s1" using side by auto
    then have "s' = s1" unfolding s'_def by (cases s1) simp
    moreover have "r' = upd_session a s1 r" using s1(2) a \<open>s_started s1\<close> by (simp add: markStarted_def)
    ultimately show ?thesis using True by (cases r) simp
  next
    case False
    then have "\<not> s_started s1" using side by auto
    then show ?thesis using s1(2) a False by (simp add: markStarted_def s'_def Let_def)
  qed
  have same: "s_token s' = s_token ?s" "s_worker s' = s_worker ?s" "s_started s'"
    "s_piping s' = s_piping ?s" "s_released s' = s_released ?s" "s_ready s' = s_ready ?s" "s_done s' = s_done ?s"
    using side by (auto simp: s'_def)
  have place: "teardown_of s' = teardown_of ?s" "uncounted s' = uncounted ?s" "hooked s' = hooked ?s" "present s' = present ?s"
    using same(2) by (simp_all add: place_defs)
  have idle: "\<not> s_piping ?s" using old side by (auto simp: session_inv_def)
  have unc: "\<not> uncounted ?s" if "\<not> s_started ?s"
    using that old idle by (simp add: session_inv_def uncounted_def split: worker.splits)
  have "session_inv s'"
    using old idle unfolding session_inv_def same place by (simp add: same(3) split: worker.splits)
  then show "relay_inv r'"
  proof (rule relay_inv_update [OF inv a _ same(1)])
    show "map_of (r_sessions r') t = Some b \<longleftrightarrow>
        (if b = a then t = s_token s' \<and> present s' else map_of (r_sessions r) t = Some b)" for t b
      using inv a same(1) place(4) by (simp add: r' relay_inv_def) auto
    show "r_count r' = r_count r + of_bool (counted s') - of_bool (counted ?s)"
      using same(3) place(2) unc by (cases "s_started ?s") (simp_all add: r' counted_def)
  qed (simp_all add: r' same place)
  show "length (r_heap r') = length (r_heap r)" by (simp add: r')
  show "s_token (r_heap r' ! b) = s_token (r_heap r ! b)"
    using same(1) a by (simp add: r' nth_list_update)
qed

lemma startPipeIfReady_inv:
  assumes inv: "relay_inv r" and a: "a < length (r_heap r)"
  shows "relay_inv (startPipeIfReady a r)"
proof (cases "s_piping (r_heap r ! a) \<or> s_released (r_heap r ! a) \<or> s_agent (r_heap r ! a) = None \<or>
    s_browser (r_heap r ! a) = None")
  case True
  then show ?thesis using inv by (simp add: startPipeIfReady_def)
next
  case False
  let ?s = "r_heap r ! a"
  have old: "session_inv ?s" using relay_inv_session [OF inv a] .
  then have idle: "s_worker ?s = Idle" using False by (simp add: session_idle)
  have "relay_inv (upd_session a (?s\<lparr>s_piping := True, s_ready := True, s_worker := Copying\<rparr>) r)"
    using old False idle
    by (intro relay_inv_local [OF inv a]) (simp_all add: session_inv_def place_defs)
  then show ?thesis using False by (auto simp: startPipeIfReady_def Let_def)
qed

lemma end_lock_inv:
  assumes inv: "relay_inv r" and a: "a < length (r_heap r)" and run: "end_lock a reason r = Some (piping, r')"
  shows "relay_inv r'"
proof -
  have "r' = upd_session a ((r_heap r ! a)\<lparr>s_endReason := reason\<rparr>) r"
    using run by (simp add: end_lock_def Let_def split: if_splits)
  then show ?thesis using relay_inv_frame [OF inv a] by simp
qed

lemma stop_pipe_inv:
  assumes "relay_inv r" "a < length (r_heap r)"
  shows "relay_inv (stop_pipe a r)"
  unfolding stop_pipe_def using assms by (intro relay_inv_frame) simp_all

lemma release_lock_inv:
  assumes inv: "relay_inv r" and a: "a < length (r_heap r)"
  shows "relay_inv (release_lock a r)"
proof (cases "s_piping (r_heap r ! a) \<or> s_released (r_heap r ! a)")
  case True
  then show ?thesis using inv by (simp add: release_lock_def)
next
  case False
  let ?s = "r_heap r ! a"
  have old: "session_inv ?s" using relay_inv_session [OF inv a] .
  then have idle: "s_worker ?s = Idle" using False by (simp add: session_idle)
  have "relay_inv (upd_session a (?s\<lparr>s_released := True,
      s_worker := Releasing (s_started ?s) (s_agent ?s) (s_browser ?s) TDelete\<rparr>) r)"
    using old False idle
    by (intro relay_inv_local [OF inv a]) (simp_all add: session_inv_def place_defs)
  then show ?thesis using False by (simp add: release_lock_def Let_def)
qed

text \<open>The steps of the goroutine that ends a session.\<close>

lemma delete_entry:
  assumes inv: "relay_inv r" and a: "a < length (r_heap r)" and p: "present (r_heap r ! a)"
  shows "map_of (gomap_del (s_token (r_heap r ! a)) (r_sessions r)) t = Some b \<longleftrightarrow>
      b \<noteq> a \<and> map_of (r_sessions r) t = Some b"
proof -
  have key: "t = s_token (r_heap r ! a)" if "map_of (r_sessions r) t = Some a"
    using relay_inv_map [OF inv, THEN iffD1, OF that] by simp
  note entry = relay_inv_entry [OF inv a p]
  show ?thesis
  proof (cases "t = s_token (r_heap r ! a)")
    case True
    show ?thesis unfolding True using entry by auto
  next
    case False
    then show ?thesis using key by auto
  qed
qed

lemma relay_inv_gone:
  assumes "relay_inv r" "a < length (r_heap r)" "\<not> present (r_heap r ! a)"
  shows "map_of (r_sessions r) t \<noteq> Some a"
  using assms by (simp add: relay_inv_def)

lemma session_inv_teardown:
  assumes "session_inv s"
  shows "s_worker s = PipeEnding t \<Longrightarrow> t' \<noteq> TDone \<Longrightarrow> t \<noteq> TDone \<Longrightarrow> session_inv (s\<lparr>s_worker := PipeEnding t'\<rparr>)"
    and "s_worker s = PipeEnding t \<Longrightarrow> t \<noteq> TDone \<Longrightarrow> session_inv (s\<lparr>s_worker := PipeEnding TDone, s_done := True\<rparr>)"
    and "s_worker s = Releasing st ag br t \<Longrightarrow> t' \<noteq> TDone \<Longrightarrow> t \<noteq> TDone \<Longrightarrow>
      session_inv (s\<lparr>s_worker := Releasing st ag br t'\<rparr>)"
    and "s_worker s = Releasing st ag br t \<Longrightarrow> t \<noteq> TDone \<Longrightarrow>
      session_inv (s\<lparr>s_worker := Releasing st ag br TDone, s_done := True\<rparr>)"
  using assms by (simp_all add: session_inv_def teardown_of_def)

lemma pipe_step_inv:
  assumes inv: "relay_inv r" and a: "a < length (r_heap r)" and w: "s_worker (r_heap r ! a) = PipeEnding t"
    and run: "pipe_step a t r = Some r'"
  shows "relay_inv r'"
proof -
  let ?s = "r_heap r ! a"
  have old: "session_inv ?s" using relay_inv_session [OF inv a] .
  then have st: "s_started ?s" using w by (auto simp: session_inv_def)
  note si = session_inv_teardown [OF old]
  show ?thesis
  proof (cases t)
    case TDelete
    have r': "r' = (upd_session a (?s\<lparr>s_worker := PipeEnding TCount\<rparr>) r)\<lparr>r_sessions := gomap_del (s_token ?s) (r_sessions r)\<rparr>"
      using run TDelete by (simp add: pipe_step_def Let_def)
    show ?thesis
      by (rule relay_inv_update [OF inv a si(1) [OF w]])
        (use w TDelete delete_entry [OF inv a] in \<open>auto simp: r' place_defs st\<close>)
  next
    case TCount
    have r': "r' = (upd_session a (?s\<lparr>s_worker := PipeEnding TRegistry\<rparr>) r)\<lparr>r_count := r_count r - 1\<rparr>"
      using run TCount by (simp add: pipe_step_def Let_def)
    show ?thesis
      by (rule relay_inv_update [OF inv a si(1) [OF w]])
        (use w TCount relay_inv_gone [OF inv a] in \<open>auto simp: r' place_defs st\<close>)
  next
    case TRegistry
    then show ?thesis using run w relay_inv_local [OF inv a si(1) [OF w], of THook]
      by (auto simp: pipe_step_def Let_def place_defs st)
  next
    case THook
    have r': "r' = (upd_session a (?s\<lparr>s_worker := PipeEnding TClose\<rparr>) r)\<lparr>r_ended := r_ended r @ [(s_token ?s, a)]\<rparr>"
      using run THook by (simp add: pipe_step_def Let_def)
    show ?thesis
      by (rule relay_inv_update [OF inv a si(1) [OF w]])
        (use w THook relay_inv_gone [OF inv a] in \<open>auto simp: r' place_defs st\<close>)
  next
    case TClose
    have "session_inv (?s\<lparr>s_worker := PipeEnding TEnd, s_closeOnce := True\<rparr>)"
      using old w TClose by (simp add: session_inv_def teardown_of_def)
    then show ?thesis using run w TClose relay_inv_local [OF inv a, of "?s\<lparr>s_worker := PipeEnding TEnd, s_closeOnce := True\<rparr>"]
      by (auto simp: pipe_step_def Let_def place_defs st)
  next
    case TEnd
    then show ?thesis using run w relay_inv_local [OF inv a si(2) [OF w]]
      by (auto simp: pipe_step_def Let_def place_defs st)
  qed (use run in \<open>simp add: pipe_step_def\<close>)
qed

lemma release_step_inv:
  assumes inv: "relay_inv r" and a: "a < length (r_heap r)"
    and w: "s_worker (r_heap r ! a) = Releasing st ag br t" and run: "release_step a st ag br t r = Some r'"
  shows "relay_inv r'"
proof -
  let ?s = "r_heap r ! a"
  have old: "session_inv ?s" using relay_inv_session [OF inv a] .
  then have st: "st \<Longrightarrow> s_started ?s" using w by (auto simp: session_inv_def)
  note si = session_inv_teardown [OF old]
  show ?thesis
  proof (cases t)
    case TDelete
    have p: "present ?s" using w TDelete by (simp add: place_defs)
    have r': "r' = (upd_session a (?s\<lparr>s_worker := Releasing st ag br TCount\<rparr>) r)\<lparr>r_sessions := gomap_del (s_token ?s) (r_sessions r)\<rparr>"
      using run TDelete relay_inv_entry [OF inv a p] by (simp add: release_step_def Let_def)
    show ?thesis
      by (rule relay_inv_update [OF inv a si(3) [OF w]])
        (use w TDelete delete_entry [OF inv a p] in \<open>auto simp: r' place_defs\<close>)
  next
    case TCount
    have r': "r' = (upd_session a (?s\<lparr>s_worker := Releasing st ag br TRegistry\<rparr>) r)\<lparr>r_count := (if st then r_count r - 1 else r_count r)\<rparr>"
      using run TCount by (simp add: release_step_def Let_def)
    show ?thesis
      by (rule relay_inv_update [OF inv a si(3) [OF w]])
        (use w TCount relay_inv_gone [OF inv a] st in \<open>auto simp: r' place_defs\<close>)
  next
    case TRegistry
    then show ?thesis using run w relay_inv_local [OF inv a si(3) [OF w], of THook]
      by (auto simp: release_step_def Let_def place_defs)
  next
    case THook
    have r': "r' = (upd_session a (?s\<lparr>s_worker := Releasing st ag br TClose\<rparr>) r)\<lparr>r_ended := r_ended r @ [(s_token ?s, a)]\<rparr>"
      using run THook by (simp add: release_step_def Let_def)
    show ?thesis
      by (rule relay_inv_update [OF inv a si(3) [OF w]])
        (use w THook relay_inv_gone [OF inv a] in \<open>auto simp: r' place_defs\<close>)
  next
    case TClose
    then show ?thesis using run w relay_inv_local [OF inv a si(3) [OF w], of TEnd]
      by (auto simp: release_step_def Let_def place_defs)
  next
    case TEnd
    then show ?thesis using run w relay_inv_local [OF inv a si(4) [OF w]]
      by (auto simp: release_step_def Let_def place_defs)
  qed (use run in \<open>simp add: release_step_def\<close>)
qed

lemma pipe_select_inv:
  assumes inv: "relay_inv r" and a: "a < length (r_heap r)" and run: "pipe_select a r = Some r'"
  shows "relay_inv r'"
proof -
  let ?s = "r_heap r ! a"
  have w: "s_worker ?s = Copying"
    and r': "r' = upd_session a (?s\<lparr>s_cancelled := True, s_worker := PipeEnding TDelete\<rparr>) r"
    using run by (auto simp: pipe_select_def Let_def split: worker.splits)
  show ?thesis unfolding r' using relay_inv_session [OF inv a] w
    by (intro relay_inv_local [OF inv a]) (simp_all add: session_inv_def place_defs)
qed

lemma pipe_copier_closes_inv:
  assumes inv: "relay_inv r" and a: "a < length (r_heap r)" and run: "pipe_copier_closes a r = Some r'"
  shows "relay_inv r'"
proof -
  let ?s = "r_heap r ! a"
  obtain y where r': "r' = (upd_session a (?s\<lparr>s_closeOnce := True\<rparr>) r)\<lparr>r_closed := y\<rparr>"
    using run by (auto simp: pipe_copier_closes_def Let_def split: worker.splits if_splits)
  have "relay_inv (upd_session a (?s\<lparr>s_closeOnce := True\<rparr>) r)" by (rule relay_inv_frame [OF inv a]) simp_all
  then show ?thesis by (simp add: r')
qed

lemma worker_step_inv:
  "relay_inv r \<Longrightarrow> a < length (r_heap r) \<Longrightarrow> worker_step a r = Some r' \<Longrightarrow> relay_inv r'"
  by (auto simp: worker_step_def split: worker.splits intro: pipe_step_inv release_step_inv)

section \<open>The whole system\<close>

text \<open>A call in progress points at a session of its token.\<close>

fun call_ok :: "Relay \<Rightarrow> call \<Rightarrow> bool" where
  "call_ok r (RegisterLock a t c s) \<longleftrightarrow> a < length (r_heap r) \<and> s_token (r_heap r ! a) = t"
| "call_ok r (RegisterMeta a t) \<longleftrightarrow> a < length (r_heap r) \<and> s_token (r_heap r ! a) = t"
| "call_ok r (RegisterPipe a t) \<longleftrightarrow> a < length (r_heap r) \<and> s_token (r_heap r ! a) = t"
| "call_ok r (EndLock a reason) \<longleftrightarrow> a < length (r_heap r)"
| "call_ok r (EndStop a) \<longleftrightarrow> a < length (r_heap r)"
| "call_ok r (EndRelease a) \<longleftrightarrow> a < length (r_heap r)"
| "call_ok r (UnregisterRelease a) \<longleftrightarrow> a < length (r_heap r)"
| "call_ok r c \<longleftrightarrow> True"

text \<open>Both sides are there and no pipe runs yet: some registration is on its way to start it.\<close>

definition unpaired :: "session \<Rightarrow> bool" where
  "unpaired s \<longleftrightarrow> s_agent s \<noteq> None \<and> s_browser s \<noteq> None \<and> \<not> s_piping s \<and> \<not> s_released s"

fun pairing :: "addr \<Rightarrow> call \<Rightarrow> bool" where
  "pairing a (RegisterMeta b t) \<longleftrightarrow> b = a"
| "pairing a (RegisterPipe b t) \<longleftrightarrow> b = a"
| "pairing a c \<longleftrightarrow> False"

definition system_inv :: "system \<Rightarrow> bool" where
  "system_inv s \<longleftrightarrow>
     relay_inv (fst s) \<and> (\<forall>c \<in> set (snd s). call_ok (fst s) c) \<and>
     (\<forall>a < length (r_heap (fst s)). unpaired (r_heap (fst s) ! a) \<longrightarrow> (\<exists>c \<in> set (snd s). pairing a c))"

text \<open>A step keeps the sessions where they are and makes no new pair behind the calls' back.\<close>

definition heap_step :: "Relay \<Rightarrow> Relay \<Rightarrow> bool" where
  "heap_step r r' \<longleftrightarrow>
     length (r_heap r) \<le> length (r_heap r') \<and>
     (\<forall>a < length (r_heap r). s_token (r_heap r' ! a) = s_token (r_heap r ! a))"

definition no_new_pair :: "Relay \<Rightarrow> Relay \<Rightarrow> bool" where
  "no_new_pair r r' \<longleftrightarrow>
     (\<forall>a < length (r_heap r'). unpaired (r_heap r' ! a) \<longrightarrow> a < length (r_heap r) \<and> unpaired (r_heap r ! a))"

lemma call_ok_mono: "heap_step r r' \<Longrightarrow> call_ok r c \<Longrightarrow> call_ok r' c"
  by (cases "(r, c)" rule: call_ok.cases) (auto simp: heap_step_def)

lemma heap_upd:
  assumes "r_heap r' = (r_heap r)[a := s']" "a < length (r_heap r)" "s_token s' = s_token (r_heap r ! a)"
  shows "heap_step r r'" and "(unpaired s' \<Longrightarrow> unpaired (r_heap r ! a)) \<Longrightarrow> no_new_pair r r'"
  using assms by (auto simp: heap_step_def no_new_pair_def nth_list_update)

lemma heap_upd_eq:
  "a < length (r_heap r) \<Longrightarrow> s_token s' = s_token (r_heap r ! a) \<Longrightarrow>
     (unpaired s' \<Longrightarrow> unpaired (r_heap r ! a)) \<Longrightarrow>
     heap_step r (upd_session a s' r) \<and> no_new_pair r (upd_session a s' r)"
  using heap_upd [of "upd_session a s' r" r a s'] by simp

lemma heap_same: "r_heap r' = r_heap r \<Longrightarrow> heap_step r r' \<and> no_new_pair r r'"
  by (simp add: heap_step_def no_new_pair_def)

lemma system_inv_worker:
  assumes "system_inv (r, cs)" "relay_inv r'" "heap_step r r'" "no_new_pair r r'"
  shows "system_inv (r', cs)"
  using assms by (auto simp: system_inv_def no_new_pair_def intro: call_ok_mono)

lemma system_inv_call:
  assumes "system_inv (r, cs)" "i < length cs" "relay_inv r'" "heap_step r r'" "call_ok r' c'"
    and "\<And>a. a < length (r_heap r') \<Longrightarrow> unpaired (r_heap r' ! a) \<Longrightarrow>
       pairing a c' \<or> (a < length (r_heap r) \<and> unpaired (r_heap r ! a) \<and> \<not> pairing a (cs ! i))"
  shows "system_inv (r', cs[i := c'])"
proof -
  have "call_ok r' c" if "c \<in> set (cs[i := c'])" for c
    using that set_update_subset_insert [of cs i c'] assms(1,4,5)
    by (auto simp: system_inv_def intro: call_ok_mono)
  moreover have "\<exists>c \<in> set (cs[i := c']). pairing a c" if "a < length (r_heap r')" "unpaired (r_heap r' ! a)" for a
    using assms(6) [OF that]
  proof
    assume "pairing a c'"
    then show ?thesis using assms(2) by (auto intro: set_update_memI)
  next
    assume a: "a < length (r_heap r) \<and> unpaired (r_heap r ! a) \<and> \<not> pairing a (cs ! i)"
    then obtain c where "c \<in> set cs" "pairing a c"
      using assms(1) unfolding system_inv_def fst_conv snd_conv by blast
    then obtain j where j: "j < length cs" "pairing a (cs ! j)" by (auto simp: in_set_conv_nth)
    then have "j \<noteq> i" using a by auto
    then show ?thesis using j by (metis length_list_update nth_list_update_neq nth_mem)
  qed
  ultimately show ?thesis using assms(3) by (simp add: system_inv_def)
qed

text \<open>The steps of the ending goroutine change neither the sides nor what was decided of them.\<close>

lemma worker_step_heap:
  assumes "a < length (r_heap r)" "worker_step a r = Some r'"
  shows "heap_step r r' \<and> no_new_pair r r'"
proof -
  obtain s' where "r_heap r' = (r_heap r)[a := s']" "s_token s' = s_token (r_heap r ! a)"
    "unpaired s' = unpaired (r_heap r ! a)"
    using assms(2)
    by (auto simp: worker_step_def pipe_step_def release_step_def Let_def unpaired_def
        split: worker.splits teardown.splits)
  then show ?thesis using heap_upd assms(1) by blast
qed

lemma pipe_select_heap:
  assumes "a < length (r_heap r)" "pipe_select a r = Some r'"
  shows "heap_step r r' \<and> no_new_pair r r'"
proof -
  obtain s' where "r_heap r' = (r_heap r)[a := s']" "s_token s' = s_token (r_heap r ! a)"
    "unpaired s' = unpaired (r_heap r ! a)"
    using assms(2) by (auto simp: pipe_select_def Let_def unpaired_def split: worker.splits)
  then show ?thesis using heap_upd assms(1) by blast
qed

lemma pipe_copier_closes_heap:
  assumes "a < length (r_heap r)" "pipe_copier_closes a r = Some r'"
  shows "heap_step r r' \<and> no_new_pair r r'"
proof -
  obtain s' where "r_heap r' = (r_heap r)[a := s']" "s_token s' = s_token (r_heap r ! a)"
    "unpaired s' = unpaired (r_heap r ! a)"
    using assms(2)
    by (auto simp: pipe_copier_closes_def Let_def unpaired_def split: worker.splits if_splits)
  then show ?thesis using heap_upd assms(1) by blast
qed

text \<open>The steps of a call.\<close>

lemma register_load_heap:
  assumes "register_load token r = (a, r')"
  shows "heap_step r r' \<and> no_new_pair r r'"
proof (cases "map_of (r_sessions r) token")
  case None
  have "\<not> unpaired (newSession token)" by (simp add: unpaired_def newSession_def)
  then show ?thesis using assms None
    by (auto simp: register_load_def Let_def heap_step_def no_new_pair_def nth_append less_Suc_eq)
qed (use assms in \<open>simp add: register_load_def heap_same\<close>)

lemma release_lock_heap:
  assumes "a < length (r_heap r)"
  shows "heap_step r (release_lock a r) \<and> no_new_pair r (release_lock a r)"
proof (cases "s_piping (r_heap r ! a) \<or> s_released (r_heap r ! a)")
  case True
  then show ?thesis by (simp add: release_lock_def heap_same)
next
  case False
  then show ?thesis
    unfolding release_lock_def Let_def if_not_P [OF False]
    by (intro heap_upd_eq [OF assms]) (simp_all add: unpaired_def)
qed

lemma stop_pipe_heap:
  "a < length (r_heap r) \<Longrightarrow> heap_step r (stop_pipe a r) \<and> no_new_pair r (stop_pipe a r)"
  unfolding stop_pipe_def by (rule heap_upd_eq) (simp_all add: unpaired_def)

lemma end_lock_heap:
  assumes "a < length (r_heap r)" "end_lock a reason r = Some (piping, r')"
  shows "heap_step r r' \<and> no_new_pair r r'"
proof -
  have "r' = upd_session a ((r_heap r ! a)\<lparr>s_endReason := reason\<rparr>) r"
    using assms(2) by (simp add: end_lock_def Let_def split: if_splits)
  then show ?thesis using heap_upd_eq [OF assms(1), of "(r_heap r ! a)\<lparr>s_endReason := reason\<rparr>"]
    by (simp add: unpaired_def)
qed

lemma startPipe_heap:
  assumes "a < length (r_heap r)"
  shows "heap_step r (startPipeIfReady a r)" "no_new_pair r (startPipeIfReady a r)"
    "\<not> unpaired (r_heap (startPipeIfReady a r) ! a)"
  using assms
    heap_upd_eq [OF assms, of "(r_heap r ! a)\<lparr>s_piping := True, s_ready := True, s_worker := Copying\<rparr>"]
  by (auto simp: startPipeIfReady_def Let_def unpaired_def heap_same)

lemma register_lock_heap:
  assumes "a < length (r_heap r)" "register_lock a conn side r = Inr (first, r')"
  shows "\<exists>s'. r_heap r' = (r_heap r)[a := s'] \<and> s_token s' = s_token (r_heap r ! a)"
  using assms
  by (auto simp: register_lock_def session_setSide_def markStarted_def Let_def
      split: sum.splits Side.splits if_splits)

lemma system_inv_quiet_call:
  assumes "system_inv (r, cs)" "i < length cs" "relay_inv r'" "heap_step r r' \<and> no_new_pair r r'"
    "call_ok r' c'" "\<And>a. \<not> pairing a (cs ! i)"
  shows "system_inv (r', cs[i := c'])"
  using assms by (intro system_inv_call) (auto simp: no_new_pair_def)

lemma call_step_inv:
  assumes inv: "system_inv (r, cs)" and i: "i < length cs" and run: "call_step now (cs ! i) r = (c', r')"
  shows "system_inv (r', cs[i := c'])"
proof -
  have rinv: "relay_inv r" and ok: "call_ok r (cs ! i)" using inv i by (simp_all add: system_inv_def)
  note quiet = system_inv_quiet_call [OF inv i]
  show ?thesis
  proof (cases "cs ! i")
    case (Register t c s)
    obtain a where "register_load t r = (a, r')" "c' = RegisterLock a t c s"
      using run Register by (auto split: prod.splits)
    then show ?thesis
      using register_load_inv [OF rinv] register_load_heap Register by (intro quiet) auto
  next
    case (RegisterLock a t c s)
    then have a: "a < length (r_heap r)" "s_token (r_heap r ! a) = t" using ok by simp_all
    show ?thesis
    proof (cases "register_lock a c s r")
      case (Inl err)
      then show ?thesis using run RegisterLock rinv by (intro quiet) (auto simp: heap_same)
    next
      case (Inr p)
      obtain first where p: "p = (first, r')" and c': "c' = (if first then RegisterMeta a t else RegisterPipe a t)"
        using run RegisterLock Inr by (auto split: prod.splits)
      obtain s' where s': "r_heap r' = (r_heap r)[a := s']" "s_token s' = s_token (r_heap r ! a)"
        using register_lock_heap [OF a(1) Inr [unfolded p]] by blast
      show ?thesis
      proof (rule system_inv_call [OF inv i])
        show "relay_inv r'" using register_lock_inv(1) [OF rinv a(1) Inr [unfolded p]] .
        show "heap_step r r'" using heap_upd(1) [OF s'(1) a(1) s'(2)] .
        show "call_ok r' c'" using a s' by (simp add: c')
      next
        fix b assume b: "b < length (r_heap r')" "unpaired (r_heap r' ! b)"
        show "pairing b c' \<or> b < length (r_heap r) \<and> unpaired (r_heap r ! b) \<and> \<not> pairing b (cs ! i)"
          using b a s' RegisterLock by (cases "b = a") (auto simp: c')
      qed
    qed
  next
    case (RegisterMeta a t)
    then have "r' = writeOwnerMeta t now r" "c' = RegisterPipe a t" using run by auto
    then show ?thesis using rinv ok RegisterMeta
      by (intro system_inv_call [OF inv i]) (auto simp: writeOwnerMeta_def heap_step_def)
  next
    case (RegisterPipe a t)
    then have r': "r' = startPipeIfReady a r" "c' = Returned (Registered a)" and a: "a < length (r_heap r)"
      using run ok by auto
    show ?thesis
    proof (rule system_inv_call [OF inv i])
      show "relay_inv r'" using startPipeIfReady_inv [OF rinv a] by (simp add: r')
      show "heap_step r r'" using startPipe_heap(1) [OF a] by (simp add: r')
      show "call_ok r' c'" by (simp add: r')
    next
      fix b assume "b < length (r_heap r')" "unpaired (r_heap r' ! b)"
      then show "pairing b c' \<or> b < length (r_heap r) \<and> unpaired (r_heap r ! b) \<and> \<not> pairing b (cs ! i)"
        using startPipe_heap(2,3) [OF a] RegisterPipe by (auto simp: r' no_new_pair_def)
    qed
  next
    case (End t reason)
    then show ?thesis using run rinv relay_inv_map [OF rinv]
      by (intro quiet) (auto simp: heap_same split: option.splits)
  next
    case (EndLock a reason)
    then have a: "a < length (r_heap r)" using ok by simp
    show ?thesis
    proof (cases "end_lock a reason r")
      case None
      then show ?thesis using run EndLock rinv by (intro quiet) (auto simp: heap_same)
    next
      case (Some p)
      obtain piping where p: "p = (piping, r')" and c': "c' = (if piping then EndStop a else EndRelease a)"
        using run EndLock Some by (auto split: prod.splits)
      have "a < length (r_heap r')"
        using end_lock_heap [OF a Some [unfolded p]] a by (auto simp: heap_step_def)
      then show ?thesis
        using end_lock_inv [OF rinv a Some [unfolded p]] end_lock_heap [OF a Some [unfolded p]] EndLock
        by (intro quiet) (auto simp: c')
    qed
  next
    case (EndStop a)
    then show ?thesis using run ok stop_pipe_inv [OF rinv] stop_pipe_heap [of a r] by (intro quiet) auto
  next
    case (EndRelease a)
    then show ?thesis using run ok release_lock_inv [OF rinv] release_lock_heap [of a r] by (intro quiet) auto
  next
    case (Unregister t)
    then show ?thesis using run rinv relay_inv_map [OF rinv]
      by (intro quiet) (auto simp: heap_same split: option.splits)
  next
    case (UnregisterRelease a)
    then show ?thesis using run ok release_lock_inv [OF rinv] release_lock_heap [of a r] by (intro quiet) auto
  next
    case (Returned res)
    then have "c' = Returned res" "r' = r" using run by simp_all
    then show ?thesis using rinv Returned by (intro quiet) (simp_all add: heap_same)
  qed
qed

lemma system_inv_enters:
  assumes "system_inv (r, cs)" "is_entry c"
  shows "system_inv (r, cs @ [c])"
proof -
  have "call_ok r c" using assms(2) by (cases c) simp_all
  then show ?thesis using assms(1) by (simp add: system_inv_def)
qed

lemma relay_step_inv: "relay_step s s' \<Longrightarrow> system_inv s \<Longrightarrow> system_inv s'"
proof (induction rule: relay_step.induct)
  case (call_enters c r cs)
  then show ?case by (intro system_inv_enters)
next
  case (call_runs i cs now r c' r')
  then show ?case by (intro call_step_inv)
next
  case (copier_closes a r r' cs)
  then have inv: "relay_inv r" by (simp add: system_inv_def)
  note h = pipe_copier_closes_heap [OF copier_closes(1,2)]
  show ?case
    by (rule system_inv_worker [OF copier_closes(3) pipe_copier_closes_inv [OF inv copier_closes(1,2)] conjunct1 [OF h] conjunct2 [OF h]])
next
  case (select_fires a r r' cs)
  then have inv: "relay_inv r" by (simp add: system_inv_def)
  note h = pipe_select_heap [OF select_fires(1,2)]
  show ?case
    by (rule system_inv_worker [OF select_fires(3) pipe_select_inv [OF inv select_fires(1,2)] conjunct1 [OF h] conjunct2 [OF h]])
next
  case (worker_runs a r r' cs)
  then have inv: "relay_inv r" by (simp add: system_inv_def)
  note h = worker_step_heap [OF worker_runs(1,2)]
  show ?case
    by (rule system_inv_worker [OF worker_runs(3) worker_step_inv [OF inv worker_runs(1,2)] conjunct1 [OF h] conjunct2 [OF h]])
qed

lemma relay_start_inv: "relay_start s \<Longrightarrow> system_inv s"
  by (simp add: relay_start_def system_inv_def relay_inv_def NewRelay_def)

interpretation relay: step_invariant relay_start relay_step system_inv
proof unfold_locales
  show "system_inv s" if "relay_start s" for s using that by (rule relay_start_inv)
  show "system_inv s'" if "system_inv s" "relay_step s s'" for s s'
    using relay_step_inv [OF that(2,1)] .
qed

end
