(* ===== verification/Relay_Properties.thy ===== *)
theory Relay_Properties
  imports Relay_Invariant
begin

text \<open>
  The relay's properties, read off its invariant: drains, ends, the token map, pairing and the life of a
  session; schedules that reach concrete states; and two interleavings in which the relay does not do
  what it means to.
\<close>

section \<open>Schedules\<close>

text \<open>A schedule names the step taken at each turn; running one shows that a state is reachable.\<close>

datatype event = Enter call | Run nat | CopierCloses addr | Select addr | Work addr

fun run_event :: "event \<Rightarrow> system \<Rightarrow> system option" where
  "run_event (Enter c) (r, cs) = (if is_entry c then Some (r, cs @ [c]) else None)"
| "run_event (Run i) (r, cs) =
     (if i < length cs then (case call_step 1 (cs ! i) r of (c', r') \<Rightarrow> Some (r', cs[i := c'])) else None)"
| "run_event (CopierCloses a) (r, cs) =
     (if a < length (r_heap r) then map_option (\<lambda>r'. (r', cs)) (pipe_copier_closes a r) else None)"
| "run_event (Select a) (r, cs) =
     (if a < length (r_heap r) then map_option (\<lambda>r'. (r', cs)) (pipe_select a r) else None)"
| "run_event (Work a) (r, cs) =
     (if a < length (r_heap r) then map_option (\<lambda>r'. (r', cs)) (worker_step a r) else None)"

fun run_schedule :: "event list \<Rightarrow> system \<Rightarrow> system option" where
  "run_schedule [] s = Some s"
| "run_schedule (e # es) s = (case run_event e s of None \<Rightarrow> None | Some s' \<Rightarrow> run_schedule es s')"

lemma run_event_step: "run_event e s = Some s' \<Longrightarrow> relay_step s s'"
  by (cases "(e, s)" rule: run_event.cases)
    (auto split: if_splits prod.splits intro: relay_step.intros)

lemma run_schedule_reachable:
  "run_schedule es s = Some s' \<Longrightarrow> relay_reachable s \<Longrightarrow> relay_reachable s'"
proof (induction es arbitrary: s)
  case (Cons e es)
  then obtain s1 where s1: "run_event e s = Some s1" "run_schedule es s1 = Some s'"
    by (auto split: option.splits)
  have "relay_reachable s1" by (rule reachable_step [OF Cons.prems(2) run_event_step [OF s1(1)]])
  then show ?case by (rule Cons.IH [OF s1(2)])
qed simp

lemma schedule_reachable: "run_schedule es (NewRelay, []) = Some s \<Longrightarrow> relay_reachable s"
  by (rule run_schedule_reachable) (auto intro: reachable_start simp: relay_start_def)

section \<open>Properties\<close>

lemma reachable_inv: "relay_reachable (r, cs) \<Longrightarrow> relay_inv r"
  using relay.holds [of "(r, cs)"] by (simp add: system_inv_def)

text \<open>
  C10. A drain is not announced early: the count of sessions is never negative, and when it lets a
  waiting shutdown go no session is being piped, and every session some side registered on has its
  teardown under way.
\<close>

theorem drain_is_safe:
  assumes "relay_reachable (r, cs)"
  shows "0 \<le> ActiveSessionCount r \<and>
     (WaitForDrain expired r = Some (Inr ()) \<longrightarrow>
        list_all (\<lambda>s. s_worker s \<noteq> Copying \<and> (s_started s \<longrightarrow> s_piping s \<or> s_released s)) (r_heap r))"
proof -
  have inv: "relay_inv r" using reachable_inv [OF assms] .
  have "s_worker s \<noteq> Copying \<and> (s_started s \<longrightarrow> s_piping s \<or> s_released s)"
    if "filter counted (r_heap r) = []" "s \<in> set (r_heap r)" for s
  proof -
    have "session_inv s" using inv that(2) by (auto simp: relay_inv_def in_set_conv_nth)
    moreover have "\<not> counted s" using that by (auto simp: filter_empty_conv)
    ultimately show ?thesis by (auto simp: session_inv_def counted_def uncounted_def split: worker.splits)
  qed
  then show ?thesis
    using inv by (auto simp: relay_inv_def ActiveSessionCount_def WaitForDrain_def list_all_iff)
qed

text \<open>
  C11. A session ends once: its end is announced at most once, and by the time its \<open>done\<close> channel is
  closed the announcement has been made, the token is free for another session, and the session is no
  longer counted among the active ones it was counted among when it ended.
\<close>

theorem session_ends_once:
  assumes "relay_reachable (r, cs)" "a < length (r_heap r)"
  shows "count_list (map snd (r_ended r)) a \<le> 1 \<and>
     (s_done (r_heap r ! a) \<longrightarrow>
        count_list (map snd (r_ended r)) a = 1 \<and> (\<forall>t. map_of (r_sessions r) t \<noteq> Some a) \<and>
        (s_piping (r_heap r ! a) \<longrightarrow> \<not> counted (r_heap r ! a)))"
proof -
  have inv: "relay_inv r" using reachable_inv [OF assms(1)] .
  have "session_inv (r_heap r ! a)" using relay_inv_session [OF inv assms(2)] .
  moreover have "count_list (map snd (r_ended r)) a = (if hooked (r_heap r ! a) then 1 else 0)"
    using inv assms(2) by (simp add: relay_inv_def)
  ultimately show ?thesis
    using relay_inv_gone [OF inv assms(2)]
    by (auto simp: session_inv_def place_defs split: worker.splits)
qed

text \<open>
  Teardown never removes another session: when the goroutine ending a session reaches the map, the
  token still leads to that session, and the step clears that token and no other.
\<close>

lemma teardown_clears_own_token:
  assumes "relay_reachable (r, cs)" "a < length (r_heap r)" "teardown_of (r_heap r ! a) = Some TDelete"
    and "worker_step a r = Some r'"
  shows "map_of (r_sessions r) (s_token (r_heap r ! a)) = Some a \<and>
     map_of (r_sessions r') = (map_of (r_sessions r))(s_token (r_heap r ! a) := None)"
proof -
  have inv: "relay_inv r" using reachable_inv [OF assms(1)] .
  have entry: "map_of (r_sessions r) (s_token (r_heap r ! a)) = Some a"
    using relay_inv_entry [OF inv assms(2)] assms(3) by (simp add: present_def)
  then show ?thesis
    using assms(3,4)
    by (auto simp: worker_step_def teardown_of_def pipe_step_def release_step_def Let_def split: worker.splits)
qed

text \<open>
  C12. No pairing is lost: once every call has returned, a session that both sides registered on is
  piped, with its waiting peers told, unless it was released.
\<close>

theorem no_lost_pairing:
  assumes "relay_reachable (r, cs)" "list_all (\<lambda>c. \<exists>res. c = Returned res) cs" "a < length (r_heap r)"
    and "s_agent (r_heap r ! a) \<noteq> None" "s_browser (r_heap r ! a) \<noteq> None" "\<not> s_released (r_heap r ! a)"
  shows "s_piping (r_heap r ! a) \<and> s_ready (r_heap r ! a)"
proof -
  have inv: "system_inv (r, cs)" using relay.holds [OF assms(1)] .
  have "\<not> pairing a c" if "c \<in> set cs" for c
    using assms(2) that by (cases c) (auto simp: list_all_iff)
  then have "\<not> unpaired (r_heap r ! a)" using inv assms(3) by (auto simp: system_inv_def)
  then have "s_piping (r_heap r ! a)" using assms(4-6) by (simp add: unpaired_def)
  then show ?thesis
    using relay_inv_session [OF reachable_inv [OF assms(1)] assms(3)] by (simp add: session_inv_def)
qed

section \<open>Runs\<close>

text \<open>An agent and a browser pair, and the pipe then runs its teardown as far as the map.\<close>

definition pair_schedule :: "event list" where
  "pair_schedule =
     [Enter (Register ''tok'' 1 SideAgent), Run 0, Run 0, Run 0, Run 0,
      Enter (Register ''tok'' 2 SideBrowser), Run 1, Run 1, Run 1]"

definition run_of :: "event list \<Rightarrow> system" where
  "run_of es = the (run_schedule es (NewRelay, []))"

lemma run_of_reachable:
  "run_schedule es (NewRelay, []) \<noteq> None \<Longrightarrow> relay_reachable (fst (run_of es), snd (run_of es))"
  by (auto simp: run_of_def intro: schedule_reachable)

lemma pair_runs: "run_schedule pair_schedule (NewRelay, []) \<noteq> None"
  "run_schedule (pair_schedule @ [Select 0]) (NewRelay, []) \<noteq> None"
  "run_schedule (pair_schedule @ [Select 0] @ replicate 6 (Work 0)) (NewRelay, []) \<noteq> None"
  by code_simp+

theorem drain_is_safe_witness:
  "ActiveSessionCount (fst (run_of (pair_schedule @ [Select 0] @ replicate 6 (Work 0)))) = 0 \<and>
   list_all (\<lambda>s. s_worker s \<noteq> Copying)
     (r_heap (fst (run_of (pair_schedule @ [Select 0] @ replicate 6 (Work 0)))))"
proof -
  let ?r = "fst (run_of (pair_schedule @ [Select 0] @ replicate 6 (Work 0)))"
  have zero: "ActiveSessionCount ?r = 0" by code_simp
  then have "WaitForDrain False ?r = Some (Inr ())" by (simp add: WaitForDrain_def)
  then show ?thesis
    using drain_is_safe [OF run_of_reachable [OF pair_runs(3)], of False] zero by (auto simp: list_all_iff)
qed

theorem session_ends_once_witness:
  "count_list (map snd (r_ended (fst (run_of (pair_schedule @ [Select 0] @ replicate 6 (Work 0)))))) 0 = 1"
proof -
  let ?r = "fst (run_of (pair_schedule @ [Select 0] @ replicate 6 (Work 0)))"
  have "0 < length (r_heap ?r)" by code_simp
  moreover have "s_done (r_heap ?r ! 0)" by code_simp
  ultimately show ?thesis using session_ends_once [OF run_of_reachable [OF pair_runs(3)], of 0] by blast
qed

theorem no_lost_pairing_witness:
  "s_piping (r_heap (fst (run_of pair_schedule)) ! 0) \<and> s_ready (r_heap (fst (run_of pair_schedule)) ! 0)"
proof -
  let ?r = "fst (run_of pair_schedule)"
  have "snd (run_of pair_schedule) = [Returned (Registered 0), Returned (Registered 0)]" by code_simp
  then have calls: "list_all (\<lambda>c. \<exists>res. c = Returned res) (snd (run_of pair_schedule))" by simp
  have a: "0 < length (r_heap ?r)" by code_simp
  have sides: "s_agent (r_heap ?r ! 0) = Some 1" "s_browser (r_heap ?r ! 0) = Some 2" by code_simp+
  have rel: "s_released (r_heap ?r ! 0) = False" by code_simp
  show ?thesis
    using no_lost_pairing [OF run_of_reachable [OF pair_runs(1)] calls a] by (simp add: sides rel)
qed

definition lost_end_schedule :: "event list" where
  "lost_end_schedule =
     [Enter (Register ''tok'' 1 SideAgent), Run 0, Run 0, Run 0, Run 0,
      Enter (End ''tok'' ''revoked''), Run 1, Run 1,
      Enter (Register ''tok'' 2 SideBrowser), Run 2, Run 2, Run 2,
      Run 1,
      Enter (End ''tok'' ''revoked''), Run 3, Run 3]"


definition leak_schedule :: "event list" where
  "leak_schedule =
     [Enter (Register ''tok'' 1 SideAgent), Run 0,
      Enter (Unregister ''tok''), Run 1, Run 1] @ replicate 6 (Work 0) @ [Run 0, Run 0, Run 0]"


section \<open>The life of a session\<close>

text \<open>
  The abstract contract: a session waits for its second side, is piped, is being ended and has ended,
  never going back; a session that never paired goes from waiting to being ended.
\<close>

datatype life = Waiting | Piping | Ending | Ended

fun life_step :: "life \<Rightarrow> life \<Rightarrow> bool" where
  "life_step Waiting l \<longleftrightarrow> l = Waiting \<or> l = Piping \<or> l = Ending"
| "life_step Piping l \<longleftrightarrow> l = Piping \<or> l = Ending"
| "life_step Ending l \<longleftrightarrow> l = Ending \<or> l = Ended"
| "life_step Ended l \<longleftrightarrow> l = Ended"

definition life_of :: "session \<Rightarrow> life" where
  "life_of s =
     (case s_worker s of
        Idle \<Rightarrow> Waiting
      | Copying \<Rightarrow> Piping
      | PipeEnding t \<Rightarrow> if t = TDone then Ended else Ending
      | Releasing st ag br t \<Rightarrow> if t = TDone then Ended else Ending)"

lemma life_refl [simp]: "life_step l l"
  by (cases l) simp_all

lemma life_update:
  "r_heap r' = (r_heap r)[b := s'] \<Longrightarrow> b < length (r_heap r) \<Longrightarrow>
     life_step (life_of (r_heap r ! b)) (life_of s') \<Longrightarrow>
     life_step (life_of (r_heap r ! a)) (life_of (r_heap r' ! a))"
  by (cases "a = b") simp_all

lemma life_worker:
  assumes "b < length (r_heap r)" "worker_step b r = Some r'"
  shows "life_step (life_of (r_heap r ! a)) (life_of (r_heap r' ! a))"
proof -
  obtain s' where "r_heap r' = (r_heap r)[b := s']" "life_step (life_of (r_heap r ! b)) (life_of s')"
    using assms(2)
    by (auto simp: worker_step_def pipe_step_def release_step_def Let_def life_of_def
        split: worker.splits teardown.splits)
  then show ?thesis using life_update assms(1) by blast
qed

lemma life_pipe:
  assumes "b < length (r_heap r)" "pipe_select b r = Some r' \<or> pipe_copier_closes b r = Some r'"
  shows "life_step (life_of (r_heap r ! a)) (life_of (r_heap r' ! a))"
proof -
  obtain s' where "r_heap r' = (r_heap r)[b := s']" "life_step (life_of (r_heap r ! b)) (life_of s')"
    using assms(2)
    by (auto simp: pipe_select_def pipe_copier_closes_def Let_def life_of_def split: worker.splits if_splits)
  then show ?thesis using life_update assms(1) by blast
qed

lemma life_startPipe:
  assumes "relay_inv r" "b < length (r_heap r)"
  shows "life_step (life_of (r_heap r ! a)) (life_of (r_heap (startPipeIfReady b r) ! a))"
proof (cases "s_piping (r_heap r ! b) \<or> s_released (r_heap r ! b)")
  case False
  then have "s_worker (r_heap r ! b) = Idle"
    using session_idle [OF relay_inv_session [OF assms]] by simp
  then show ?thesis using assms(2)
    by (cases "a = b") (simp_all add: startPipeIfReady_def Let_def life_of_def)
qed (auto simp: startPipeIfReady_def)

lemma life_release:
  assumes "relay_inv r" "b < length (r_heap r)"
  shows "life_step (life_of (r_heap r ! a)) (life_of (r_heap (release_lock b r) ! a))"
proof (cases "s_piping (r_heap r ! b) \<or> s_released (r_heap r ! b)")
  case False
  then have "s_worker (r_heap r ! b) = Idle"
    using session_idle [OF relay_inv_session [OF assms]] by simp
  then show ?thesis using assms(2) False
    by (cases "a = b") (simp_all add: release_lock_def Let_def life_of_def)
qed (auto simp: release_lock_def)

lemma life_call:
  assumes "relay_inv r" "call_ok r c" "call_step now c r = (c', r')" "a < length (r_heap r)"
  shows "life_step (life_of (r_heap r ! a)) (life_of (r_heap r' ! a))"
proof (cases "(now, c, r)" rule: call_step.cases)
  case (1 now token conn side r0)
  then show ?thesis using assms(3,4)
    by (auto simp: register_load_def Let_def nth_append split: option.splits prod.splits)
next
  case (2 now b token conn side r0)
  have "life_of (r_heap r' ! a) = life_of (r_heap r ! a)"
    using 2 assms(2-4)
    by (cases "a = b")
      (auto simp: register_lock_def session_setSide_def markStarted_def Let_def life_of_def
        split: sum.splits Side.splits if_splits)
  then show ?thesis by simp
next
  case (6 now b reason r0)
  have "life_of (r_heap r' ! a) = life_of (r_heap r ! a)"
    using 6 assms(2-4)
    by (cases "a = b") (auto simp: end_lock_def Let_def life_of_def split: option.splits if_splits)
  then show ?thesis by simp
next
  case (7 now b r0)
  then show ?thesis using assms(2-4) by (cases "a = b") (auto simp: stop_pipe_def life_of_def)
qed (use assms life_startPipe [of r] life_release [of r] in \<open>auto simp: writeOwnerMeta_def split: option.splits\<close>)

text \<open>
  C15. Every step of the relay, whichever call or goroutine takes it, takes every session along its
  life: from waiting to piping or straight to its end, and from its end never back.
\<close>

theorem relay_refines_life:
  assumes "relay_reachable (r, cs)" "relay_step (r, cs) (r', cs')" "a < length (r_heap r)"
  shows "life_step (life_of (r_heap r ! a)) (life_of (r_heap r' ! a))"
proof -
  have inv: "system_inv (r, cs)" using relay.holds [OF assms(1)] .
  then have rinv: "relay_inv r" by (simp add: system_inv_def)
  from assms(2) show ?thesis
  proof cases
    case (call_runs i now c')
    then have "call_ok r (cs ! i)" using inv by (simp add: system_inv_def)
    then show ?thesis using call_runs(3) assms(3) by (rule life_call [OF rinv])
  qed (use life_worker life_pipe in auto)
qed

theorem relay_refines_life_witness:
  "life_step (life_of (r_heap (fst (run_of pair_schedule)) ! 0))
     (life_of (r_heap (the (pipe_select 0 (fst (run_of pair_schedule)))) ! 0))"
proof -
  let ?r = "fst (run_of pair_schedule)" let ?cs = "snd (run_of pair_schedule)"
  have a: "0 < length (r_heap ?r)" by code_simp
  have "pipe_select 0 ?r \<noteq> None" by code_simp
  then obtain r' where r': "pipe_select 0 ?r = Some r'" by blast
  then have "relay_step (?r, ?cs) (r', ?cs)" using a by (intro select_fires)
  from relay_refines_life [OF run_of_reachable [OF pair_runs(1)] this a] show ?thesis by (simp add: r')
qed

text \<open>Copying keeps the messages whole and in order: what one side receives is a prefix of what was read.\<close>

lemma copyMessages_prefix: "\<exists>rest. map Some (copyMessages reads writes) @ rest = reads"
  by (induction reads writes rule: copyMessages.induct) auto

end
