(* ===== verification/Apf_Messages.thy ===== *)
theory Apf_Messages
  imports Wire_Codec
begin

text \<open>
  The APF messages a CIRA connection of an Intel AMT device is made of: reading them off the
  connection (\<open>server/internal/amt/transport/apf.go\<close>), parsing their payloads
  (\<open>apf_messages.go\<close>) and writing them (\<open>apf_write.go\<close>, and the channel open of \<open>mps_conn.go\<close>).
  A Go string is its bytes here, since every string of this component comes off the wire or goes
  onto it.
\<close>

section \<open>Constants\<close>

definition APFDisconnect :: byte where "APFDisconnect = 1"
definition APFServiceRequest :: byte where "APFServiceRequest = 5"
definition APFServiceAccept :: byte where "APFServiceAccept = 6"
definition APFUserAuthRequest :: byte where "APFUserAuthRequest = 50"
definition APFUserAuthSuccess :: byte where "APFUserAuthSuccess = 52"
definition APFUserAuthFailure :: byte where "APFUserAuthFailure = 51"
definition APFGlobalRequest :: byte where "APFGlobalRequest = 80"
definition APFRequestSuccess :: byte where "APFRequestSuccess = 81"
definition APFRequestFailure :: byte where "APFRequestFailure = 82"
definition APFChannelOpen :: byte where "APFChannelOpen = 90"
definition APFChannelOpenConfirm :: byte where "APFChannelOpenConfirm = 91"
definition APFChannelOpenFailure :: byte where "APFChannelOpenFailure = 92"
definition APFChannelWindowAdj :: byte where "APFChannelWindowAdj = 93"
definition APFChannelData :: byte where "APFChannelData = 94"
definition APFChannelClose :: byte where "APFChannelClose = 97"
definition APFProtocolVersion :: byte where "APFProtocolVersion = 192"
definition APFKeepaliveRequest :: byte where "APFKeepaliveRequest = 208"
definition APFKeepaliveReply :: byte where "APFKeepaliveReply = 209"
definition APFKeepaliveOptionsRequest :: byte where "APFKeepaliveOptionsRequest = 210"
definition APFKeepaliveOptionsReply :: byte where "APFKeepaliveOptionsReply = 211"

lemmas apf_types = APFDisconnect_def APFServiceRequest_def APFServiceAccept_def
  APFUserAuthRequest_def APFUserAuthSuccess_def APFUserAuthFailure_def APFGlobalRequest_def
  APFRequestSuccess_def APFRequestFailure_def APFChannelOpen_def APFChannelOpenConfirm_def
  APFChannelOpenFailure_def APFChannelWindowAdj_def APFChannelData_def APFChannelClose_def
  APFProtocolVersion_def APFKeepaliveRequest_def APFKeepaliveReply_def
  APFKeepaliveOptionsRequest_def APFKeepaliveOptionsReply_def

text \<open>The bytes of a string literal of the source.\<close>

definition ascii :: "string \<Rightarrow> bytes" where
  "ascii s = map of_char s"

definition ServiceAuth :: bytes where "ServiceAuth = ascii ''auth@amt.intel.com''"
definition ServicePFwd :: bytes where "ServicePFwd = ascii ''pfwd@amt.intel.com''"

definition DefaultWindowSize :: "32 word" where "DefaultWindowSize = 0x8000"
definition DefaultMaxPacketSize :: "32 word" where "DefaultMaxPacketSize = 0x8000"

definition maxAPFStringLen :: nat where "maxAPFStringLen = 256"
definition maxAPFPayload :: nat where "maxAPFPayload = 16 * 1024 * 1024"
definition maxChannelData :: nat where "maxChannelData = 2 ^ 20"

lemma length_ascii [simp]: "length (ascii s) = length s"
  by (simp add: ascii_def)

lemma apf_limits: "maxAPFStringLen < 2 ^ 32" "maxChannelData < 2 ^ 32" "maxAPFPayload < 2 ^ 32"
  by (simp_all add: maxAPFStringLen_def maxChannelData_def maxAPFPayload_def)

section \<open>Reading a message\<close>

datatype apf_error =
    ApfIO io_error
  | ErrMessageTooShort
  | ErrUnknownMessageType byte
  | ErrStringTooLong string nat
  | ErrChannelDataTooLarge nat
  | ApfType byte apf_error

definition readFixed :: "nat \<Rightarrow> bytes \<Rightarrow> apf_error + (bytes \<times> bytes)" where
  "readFixed n r =
     (case read_full n r of Inl e \<Rightarrow> Inl (ApfIO e) | Inr (buf, r') \<Rightarrow> Inr (buf, r'))"

definition readAPFString :: "string \<Rightarrow> nat \<Rightarrow> bytes \<Rightarrow> apf_error + (bytes \<times> bytes)" where
  "readAPFString label trailing r =
     (case read_full 4 r of
        Inl e \<Rightarrow> Inl (ApfIO e)
      | Inr (lenBuf, r1) \<Rightarrow>
          (let strLen = unat (get_u32 lenBuf) in
           if strLen > maxAPFStringLen then Inl (ErrStringTooLong label strLen)
           else (case read_full (strLen + trailing) r1 of
                   Inl e \<Rightarrow> Inl (ApfIO e)
                 | Inr (buf, r2) \<Rightarrow> Inr (lenBuf @ buf, r2))))"

text \<open>The loop \<open>for range n\<close> that appends one segment after another to the result.\<close>

fun readAPFStrings :: "string \<Rightarrow> nat \<Rightarrow> nat \<Rightarrow> bytes \<Rightarrow> apf_error + (bytes \<times> bytes)" where
  "readAPFStrings label trailing 0 r = Inr ([], r)"
| "readAPFStrings label trailing (Suc n) r =
     (case readAPFString label trailing r of
        Inl e \<Rightarrow> Inl e
      | Inr (seg, r1) \<Rightarrow>
          (case readAPFStrings label trailing n r1 of
             Inl e \<Rightarrow> Inl e
           | Inr (segs, r2) \<Rightarrow> Inr (seg @ segs, r2)))"

definition readStringMsg :: "bytes \<Rightarrow> apf_error + (bytes \<times> bytes)" where
  "readStringMsg r = readAPFString ''service name'' 0 r"

definition readUserAuthRequest :: "bytes \<Rightarrow> apf_error + (bytes \<times> bytes)" where
  "readUserAuthRequest r = readAPFStrings ''auth string'' 0 3 r"

definition readForwardData :: "bytes \<Rightarrow> apf_error + (bytes \<times> bytes)" where
  "readForwardData r = readAPFString ''forward address'' 4 r"

text \<open>The name at the front of a segment: \<open>buf[4 : 4+strLen]\<close>.\<close>

definition segment_name :: "bytes \<Rightarrow> bytes" where
  "segment_name buf = take (unat (get_u32 buf)) (drop 4 buf)"

definition readGlobalRequest :: "bytes \<Rightarrow> apf_error + (bytes \<times> bytes)" where
  "readGlobalRequest r =
     (case readAPFString ''request name'' 1 r of
        Inl e \<Rightarrow> Inl e
      | Inr (buf, r1) \<Rightarrow>
          (let reqName = segment_name buf in
           if reqName = ascii ''tcpip-forward'' \<or> reqName = ascii ''cancel-tcpip-forward'' then
             (case readForwardData r1 of Inl e \<Rightarrow> Inl e | Inr (extra, r2) \<Rightarrow> Inr (buf @ extra, r2))
           else Inr (buf, r1)))"

definition readChannelOpenExtra :: "bytes \<Rightarrow> apf_error + (bytes \<times> bytes)" where
  "readChannelOpenExtra r = readAPFStrings ''address'' 4 2 r"

definition readChannelOpen :: "bytes \<Rightarrow> apf_error + (bytes \<times> bytes)" where
  "readChannelOpen r =
     (case readAPFString ''channel type'' 12 r of
        Inl e \<Rightarrow> Inl e
      | Inr (buf, r1) \<Rightarrow>
          (let chType = segment_name buf in
           if chType = ascii ''direct-tcpip'' \<or> chType = ascii ''forwarded-tcpip'' then
             (case readChannelOpenExtra r1 of Inl e \<Rightarrow> Inl e | Inr (extra, r2) \<Rightarrow> Inr (buf @ extra, r2))
           else Inr (buf, r1)))"

definition readChannelData :: "bytes \<Rightarrow> apf_error + (bytes \<times> bytes)" where
  "readChannelData r =
     (case read_full 8 r of
        Inl e \<Rightarrow> Inl (ApfIO e)
      | Inr (header, r1) \<Rightarrow>
          (let dataLen = unat (get_u32 (drop 4 header)) in
           if dataLen > maxChannelData then Inl (ErrChannelDataTooLarge dataLen)
           else (case read_full dataLen r1 of
                   Inl e \<Rightarrow> Inl (ApfIO e)
                 | Inr (buf, r2) \<Rightarrow> Inr (header @ buf, r2))))"

definition readDisconnect :: "bytes \<Rightarrow> apf_error + (bytes \<times> bytes)" where
  "readDisconnect r = readFixed 4 r"

definition readProtocolVersion :: "bytes \<Rightarrow> apf_error + (bytes \<times> bytes)" where
  "readProtocolVersion r = readFixed 28 r"

definition readMessageBody :: "byte \<Rightarrow> bytes \<Rightarrow> apf_error + (bytes \<times> bytes)" where
  "readMessageBody msgType r =
     (if msgType \<in> {APFServiceRequest, APFServiceAccept} then readStringMsg r
      else if msgType = APFUserAuthRequest then readUserAuthRequest r
      else if msgType = APFGlobalRequest then readGlobalRequest r
      else if msgType = APFChannelOpen then readChannelOpen r
      else if msgType = APFChannelData then readChannelData r
      else if msgType = APFChannelClose then readFixed 4 r
      else if msgType = APFChannelWindowAdj then readFixed 8 r
      else if msgType = APFProtocolVersion then readProtocolVersion r
      else if msgType \<in> {APFKeepaliveRequest, APFKeepaliveReply} then readFixed 4 r
      else if msgType \<in> {APFKeepaliveOptionsRequest, APFKeepaliveOptionsReply} then readFixed 8 r
      else if msgType = APFDisconnect then readDisconnect r
      else if msgType \<in> {APFUserAuthSuccess, APFUserAuthFailure, APFRequestSuccess, APFRequestFailure}
        then Inr ([], r)
      else if msgType = APFChannelOpenConfirm then readFixed 16 r
      else if msgType = APFChannelOpenFailure then readFixed 8 r
      else Inl (ErrUnknownMessageType msgType))"

definition ReadMessage :: "bytes \<Rightarrow> apf_error + ((byte \<times> bytes) \<times> bytes)" where
  "ReadMessage r =
     (case read_full 1 r of
        Inl e \<Rightarrow> Inl (ApfIO e)
      | Inr (msgType, r1) \<Rightarrow>
          (case readMessageBody (hd msgType) r1 of
             Inl e \<Rightarrow> Inl (ApfType (hd msgType) e)
           | Inr (payload, r2) \<Rightarrow> Inr ((hd msgType, payload), r2)))"

section \<open>Parsing a payload\<close>

definition readString :: "bytes \<Rightarrow> nat \<Rightarrow> apf_error + (bytes \<times> nat)" where
  "readString data offset =
     (if offset + 4 > length data then Inl ErrMessageTooShort
      else (let len = unat (get_u32 (drop offset data)); offset = offset + 4 in
            if offset + len > length data then Inl ErrMessageTooShort
            else Inr (take len (drop offset data), offset + len)))"

record ServiceRequest =
  sr_ServiceName :: bytes

definition ParseServiceRequest :: "bytes \<Rightarrow> apf_error + ServiceRequest" where
  "ParseServiceRequest data =
     (case readString data 0 of Inl e \<Rightarrow> Inl e | Inr (name, _) \<Rightarrow> Inr \<lparr>sr_ServiceName = name\<rparr>)"

record UserAuthRequest =
  ua_Username :: bytes
  ua_ServiceName :: bytes
  ua_MethodName :: bytes

definition ParseUserAuthRequest :: "bytes \<Rightarrow> apf_error + UserAuthRequest" where
  "ParseUserAuthRequest data =
     (case readString data 0 of
        Inl e \<Rightarrow> Inl e
      | Inr (username, off) \<Rightarrow>
          (case readString data off of
             Inl e \<Rightarrow> Inl e
           | Inr (service, off) \<Rightarrow>
               (case readString data off of
                  Inl e \<Rightarrow> Inl e
                | Inr (meth, _) \<Rightarrow>
                    Inr \<lparr>ua_Username = username, ua_ServiceName = service, ua_MethodName = meth\<rparr>)))"

record GlobalRequest =
  gr_RequestName :: bytes
  gr_WantReply :: bool
  gr_Data :: bytes

definition ParseGlobalRequest :: "bytes \<Rightarrow> apf_error + GlobalRequest" where
  "ParseGlobalRequest data =
     (case readString data 0 of
        Inl e \<Rightarrow> Inl e
      | Inr (name, off) \<Rightarrow>
          if off \<ge> length data then Inl ErrMessageTooShort
          else Inr \<lparr>gr_RequestName = name, gr_WantReply = (data ! off \<noteq> 0), gr_Data = drop (off + 1) data\<rparr>)"

record apf_ChannelOpen =
  co_ChannelType :: bytes
  co_SenderChannel :: "32 word"
  co_InitialWindowSz :: "32 word"
  co_MaxPacketSz :: "32 word"
  co_Data :: bytes

definition ParseChannelOpen :: "bytes \<Rightarrow> apf_error + apf_ChannelOpen" where
  "ParseChannelOpen data =
     (case readString data 0 of
        Inl e \<Rightarrow> Inl e
      | Inr (chType, off) \<Rightarrow>
          if off + 12 > length data then Inl ErrMessageTooShort
          else Inr \<lparr>co_ChannelType = chType, co_SenderChannel = get_u32 (drop off data),
                    co_InitialWindowSz = get_u32 (drop (off + 4) data),
                    co_MaxPacketSz = get_u32 (drop (off + 8) data), co_Data = drop (off + 12) data\<rparr>)"

record apf_ChannelData =
  cd_RecipientChannel :: "32 word"
  cd_Data :: bytes

definition ParseChannelData :: "bytes \<Rightarrow> apf_error + apf_ChannelData" where
  "ParseChannelData data =
     (if length data < 4 then Inl ErrMessageTooShort
      else (case readString data 4 of
              Inl e \<Rightarrow> Inl e
            | Inr (str, _) \<Rightarrow> Inr \<lparr>cd_RecipientChannel = get_u32 data, cd_Data = str\<rparr>))"

record ProtocolVersion =
  pv_MajorVersion :: "32 word"
  pv_MinorVersion :: "32 word"
  pv_Trigger :: "32 word"
  pv_UUID :: bytes

definition ParseProtocolVersion :: "bytes \<Rightarrow> apf_error + ProtocolVersion" where
  "ParseProtocolVersion data =
     (if length data < 28 then Inl ErrMessageTooShort
      else Inr \<lparr>pv_MajorVersion = get_u32 data, pv_MinorVersion = get_u32 (drop 4 data),
                pv_Trigger = get_u32 (drop 8 data), pv_UUID = take 16 (drop 12 data)\<rparr>)"

record KeepaliveRequest =
  ka_Cookie :: "32 word"

definition ParseKeepaliveRequest :: "bytes \<Rightarrow> apf_error + KeepaliveRequest" where
  "ParseKeepaliveRequest data =
     (if length data < 4 then Inl ErrMessageTooShort else Inr \<lparr>ka_Cookie = get_u32 data\<rparr>)"

record KeepaliveOptions =
  ko_Interval :: "32 word"
  ko_Timeout :: "32 word"

definition ParseKeepaliveOptions :: "bytes \<Rightarrow> apf_error + KeepaliveOptions" where
  "ParseKeepaliveOptions data =
     (if length data < 8 then Inl ErrMessageTooShort
      else Inr \<lparr>ko_Interval = get_u32 data, ko_Timeout = get_u32 (drop 4 data)\<rparr>)"

text \<open>
  \<open>ReorderIntelGUID\<close> turns the sixteen bytes of the device's GUID around; a \<open>uuid.UUID\<close> is given by
  its bytes here.
\<close>

definition ReorderIntelGUID :: "bytes \<Rightarrow> bytes" where
  "ReorderIntelGUID raw =
     [raw ! 3, raw ! 2, raw ! 1, raw ! 0, raw ! 5, raw ! 4, raw ! 7, raw ! 6] @ take 8 (drop 8 raw)"

definition ParseForwardData :: "bytes \<Rightarrow> apf_error + (bytes \<times> 32 word)" where
  "ParseForwardData data =
     (case readString data 0 of
        Inl e \<Rightarrow> Inl e
      | Inr (addr, off) \<Rightarrow>
          if off + 4 > length data then Inl ErrMessageTooShort
          else Inr (addr, get_u32 (drop off data)))"

section \<open>Writing a message\<close>

definition writeUint32Msg ::
  "('e, 'w) writer \<Rightarrow> 'w \<Rightarrow> byte \<Rightarrow> 32 word list \<Rightarrow> 'e option \<times> 'w" where
  "writeUint32Msg write w msgType vs = write w (msgType # concat (map put_u32 vs))"

text \<open>A writer's error is one of its own or one of the sink.\<close>

definition writeStringMsg ::
  "('e, 'w) writer \<Rightarrow> 'w \<Rightarrow> byte \<Rightarrow> bytes \<Rightarrow> (apf_error + 'e) option \<times> 'w" where
  "writeStringMsg write w msgType s =
     (if length s > maxAPFStringLen then (Some (Inl (ErrStringTooLong ''string'' (length s))), w)
      else (case write w (msgType # put_u32 (word_of_nat (length s)) @ s) of
              (err, w') \<Rightarrow> (map_option Inr err, w')))"

definition WriteServiceAccept where
  "WriteServiceAccept write w serviceName = writeStringMsg write w APFServiceAccept serviceName"

definition WriteUserAuthSuccess :: "('e, 'w) writer \<Rightarrow> 'w \<Rightarrow> 'e option \<times> 'w" where
  "WriteUserAuthSuccess write w = write w [APFUserAuthSuccess]"

definition WriteRequestSuccess :: "('e, 'w) writer \<Rightarrow> 'w \<Rightarrow> 'e option \<times> 'w" where
  "WriteRequestSuccess write w = write w [APFRequestSuccess]"

definition WriteChannelOpenConfirm where
  "WriteChannelOpenConfirm write w recipientCh senderCh windowSz maxPacket =
     writeUint32Msg write w APFChannelOpenConfirm [recipientCh, senderCh, windowSz, maxPacket]"

definition WriteChannelData ::
  "('e, 'w) writer \<Rightarrow> 'w \<Rightarrow> 32 word \<Rightarrow> bytes \<Rightarrow> (apf_error + 'e) option \<times> 'w" where
  "WriteChannelData write w recipientCh data =
     (if length data > maxAPFPayload then (Some (Inl (ErrChannelDataTooLarge (length data))), w)
      else (case write w (APFChannelData # put_u32 recipientCh @
                          put_u32 (word_of_nat (length data)) @ data) of
              (err, w') \<Rightarrow> (map_option Inr err, w')))"

definition WriteChannelClose where
  "WriteChannelClose write w recipientCh = writeUint32Msg write w APFChannelClose [recipientCh]"

definition WriteChannelWindowAdj where
  "WriteChannelWindowAdj write w recipientCh bytesToAdd =
     writeUint32Msg write w APFChannelWindowAdj [recipientCh, bytesToAdd]"

definition WriteDisconnect where
  "WriteDisconnect write w reasonCode = writeUint32Msg write w APFDisconnect [reasonCode]"

definition WriteProtocolVersion ::
  "('e, 'w) writer \<Rightarrow> 'w \<Rightarrow> 32 word \<Rightarrow> 32 word \<Rightarrow> 32 word \<Rightarrow> 'e option \<times> 'w" where
  "WriteProtocolVersion write w major minor trigger =
     write w (APFProtocolVersion # put_u32 major @ put_u32 minor @ put_u32 trigger @ replicate 16 0)"

definition WriteKeepaliveRequest where
  "WriteKeepaliveRequest write w cookie = writeUint32Msg write w APFKeepaliveRequest [cookie]"

definition WriteKeepaliveReply where
  "WriteKeepaliveReply write w cookie = writeUint32Msg write w APFKeepaliveReply [cookie]"

definition WriteKeepaliveOptionsRequest where
  "WriteKeepaliveOptionsRequest write w interval timeout =
     writeUint32Msg write w APFKeepaliveOptionsRequest [interval, timeout]"

definition encodeAPFString :: "bytes \<Rightarrow> bytes" where
  "encodeAPFString s =
     (let s = (if length s > maxAPFStringLen then take maxAPFStringLen s else s)
      in put_u32 (word_of_nat (length s)) @ s)"

definition writeChannelOpenDirect ::
  "('e, 'w) writer \<Rightarrow> 'w \<Rightarrow> 32 word \<Rightarrow> bytes \<Rightarrow> 16 word \<Rightarrow> 'e option \<times> 'w" where
  "writeChannelOpenDirect write w senderCh addr port =
     (let chType = ascii ''direct-tcpip'' in
      write w (APFChannelOpen # put_u32 (word_of_nat (length chType)) @ chType @
        put_u32 senderCh @ put_u32 DefaultWindowSize @ put_u32 DefaultMaxPacketSize @
        encodeAPFString addr @ put_u32 (ucast port) @
        encodeAPFString (ascii ''0.0.0.0'') @ put_u32 0))"

end
