(* ===== verification/Apf_Codec.thy ===== *)
theory Apf_Codec
  imports Apf_Messages
begin

text \<open>
  Correctness of the APF codec: which byte streams \<open>ReadMessage\<close> accepts, that the parser of a
  message never refuses a payload the reader accepted, and that what the server writes is read back
  at the other end. The reader is an interpretation of the locale \<open>canonical_codec\<close>.
\<close>

section \<open>Segments\<close>

definition apf_string :: "bytes \<Rightarrow> bytes" where
  "apf_string s = put_u32 (word_of_nat (length s)) @ s"

lemma length_apf_string [simp, wire_len]: "length (apf_string s) = 4 + length s"
  by (simp add: apf_string_def)

lemma short_u32:
  "length s \<le> maxAPFStringLen \<Longrightarrow> length s < 2 ^ 32"
  "length s \<le> maxChannelData \<Longrightarrow> length s < 2 ^ 32"
  using apf_limits by simp_all

lemma get_apf_string:
  "length s < 2 ^ 32 \<Longrightarrow> unat (get_u32 (apf_string s @ x)) = length s"
  by (simp add: apf_string_def)

lemma segment_name_apf_string [simp]:
  "length s \<le> maxAPFStringLen \<Longrightarrow> segment_name (apf_string s @ x) = s"
  using short_u32(1) [of s] by (simp add: segment_name_def get_apf_string) (simp add: apf_string_def)

lemma apf_string_split:
  assumes "length lb = 4" "length buf = unat (get_u32 lb) + k"
  obtains s x where "lb @ buf = apf_string s @ x" "length s = unat (get_u32 lb)" "length x = k"
proof
  let ?n = "unat (get_u32 lb)"
  show "lb @ buf = apf_string (take ?n buf) @ drop ?n buf"
    using assms by (simp add: apf_string_def put_get_u32)
  show "length (take ?n buf) = ?n" "length (drop ?n buf) = k" using assms by simp_all
qed

lemma readAPFString_iff:
  "readAPFString l k r = Inr (b, rest) \<longleftrightarrow>
     (\<exists>s x. length s \<le> maxAPFStringLen \<and> length x = k \<and> b = apf_string s @ x \<and> r = b @ rest)"
  (is "?L \<longleftrightarrow> ?R")
proof
  assume ?L
  then obtain lb r1 buf where lb: "read_full 4 r = Inr (lb, r1)"
    and le: "unat (get_u32 lb) \<le> maxAPFStringLen"
    and buf: "read_full (unat (get_u32 lb) + k) r1 = Inr (buf, rest)" "b = lb @ buf"
    by (auto simp: readAPFString_def Let_def split: sum.splits if_splits)
  from read_full_InrD [OF lb] read_full_InrD [OF buf(1)]
  have "length lb = 4" "length buf = unat (get_u32 lb) + k" "r = b @ rest"
    using buf(2) by auto
  then show ?R using apf_string_split [of lb buf k] le buf(2) by metis
next
  assume ?R
  then obtain s x where s: "length s \<le> maxAPFStringLen" "length x = k" "b = apf_string s @ x"
    "r = b @ rest" by blast
  then have "read_full 4 r = Inr (put_u32 (word_of_nat (length s)), s @ x @ rest)"
    by (simp add: apf_string_def read_full_exact)
  moreover have "read_full (length s + k) (s @ x @ rest) = Inr (s @ x, rest)"
    using s(2) read_full_exact [of "s @ x" "length s + k" rest] by simp
  ultimately show ?L
    using s(1,3) short_u32(1) [OF s(1)] by (simp add: readAPFString_def apf_string_def)
qed

lemma readFixed_iff: "readFixed n r = Inr (b, rest) \<longleftrightarrow> length b = n \<and> r = b @ rest"
  by (auto simp: readFixed_def read_full_exact dest: read_full_InrD split: sum.splits)

lemma readChannelData_iff:
  "readChannelData r = Inr (b, rest) \<longleftrightarrow>
     (\<exists>ch d. length d \<le> maxChannelData \<and> b = put_u32 ch @ apf_string d \<and> r = b @ rest)"
  (is "?L \<longleftrightarrow> ?R")
proof
  assume ?L
  then obtain h r1 buf where h: "read_full 8 r = Inr (h, r1)"
    and le: "unat (get_u32 (drop 4 h)) \<le> maxChannelData"
    and buf: "read_full (unat (get_u32 (drop 4 h))) r1 = Inr (buf, rest)" "b = h @ buf"
    by (auto simp: readChannelData_def Let_def split: sum.splits if_splits)
  from read_full_InrD [OF h] read_full_InrD [OF buf(1)]
  have l: "length h = 8" "length buf = unat (get_u32 (drop 4 h))" "r = b @ rest"
    using buf(2) by auto
  then have "h = put_u32 (get_u32 (take 4 h)) @ put_u32 (get_u32 (drop 4 h))"
    by (simp add: put_get_u32)
  then have "b = put_u32 (get_u32 (take 4 h)) @ apf_string buf"
    using l(2) buf(2) by (simp add: apf_string_def)
  then show ?R using l le by metis
next
  assume ?R
  then obtain ch d where d: "length d \<le> maxChannelData" "b = put_u32 ch @ apf_string d" "r = b @ rest"
    by blast
  let ?h = "put_u32 ch @ put_u32 (word_of_nat (length d))"
  have "read_full 8 r = Inr (?h, d @ rest)"
    using d by (simp add: apf_string_def read_full_exact [of ?h 8 "d @ rest", simplified])
  then show ?L using d short_u32(2) [OF d(1)] by (simp add: readChannelData_def apf_string_def)
qed

section \<open>The grammar of message bodies\<close>

text \<open>
  The bodies of the protocol, one rule for each form. A name of \<open>forward_names\<close> or \<open>tcpip_types\<close>
  announces the extra fields that follow.
\<close>

definition forward_names :: "bytes set" where
  "forward_names = {ascii ''tcpip-forward'', ascii ''cancel-tcpip-forward''}"

definition tcpip_types :: "bytes set" where
  "tcpip_types = {ascii ''direct-tcpip'', ascii ''forwarded-tcpip''}"

definition fixed_bodies :: "(byte \<times> nat) list" where
  "fixed_bodies =
     [(APFChannelClose, 4), (APFChannelWindowAdj, 8), (APFProtocolVersion, 28),
      (APFKeepaliveRequest, 4), (APFKeepaliveReply, 4), (APFKeepaliveOptionsRequest, 8),
      (APFKeepaliveOptionsReply, 8), (APFDisconnect, 4), (APFUserAuthSuccess, 0),
      (APFUserAuthFailure, 0), (APFRequestSuccess, 0), (APFRequestFailure, 0),
      (APFChannelOpenConfirm, 16), (APFChannelOpenFailure, 8)]"

inductive apf_body :: "byte \<Rightarrow> bytes \<Rightarrow> bool" where
  body_service:
    "t \<in> {APFServiceRequest, APFServiceAccept} \<Longrightarrow> length s \<le> maxAPFStringLen \<Longrightarrow>
       apf_body t (apf_string s)"
| body_auth:
    "length u \<le> maxAPFStringLen \<Longrightarrow> length s \<le> maxAPFStringLen \<Longrightarrow> length m \<le> maxAPFStringLen \<Longrightarrow>
       apf_body APFUserAuthRequest (apf_string u @ apf_string s @ apf_string m)"
| body_global:
    "length n \<le> maxAPFStringLen \<Longrightarrow> n \<notin> forward_names \<Longrightarrow>
       apf_body APFGlobalRequest (apf_string n @ [b])"
| body_forward:
    "n \<in> forward_names \<Longrightarrow> length a \<le> maxAPFStringLen \<Longrightarrow>
       apf_body APFGlobalRequest (apf_string n @ b # apf_string a @ put_u32 port)"
| body_open:
    "length c \<le> maxAPFStringLen \<Longrightarrow> c \<notin> tcpip_types \<Longrightarrow>
       apf_body APFChannelOpen (apf_string c @ put_u32 sender @ put_u32 window @ put_u32 maxPkt)"
| body_open_tcpip:
    "c \<in> tcpip_types \<Longrightarrow> length a \<le> maxAPFStringLen \<Longrightarrow> length o' \<le> maxAPFStringLen \<Longrightarrow>
       apf_body APFChannelOpen (apf_string c @ put_u32 sender @ put_u32 window @ put_u32 maxPkt @
         apf_string a @ put_u32 port @ apf_string o' @ put_u32 oport)"
| body_data:
    "length d \<le> maxChannelData \<Longrightarrow> apf_body APFChannelData (put_u32 ch @ apf_string d)"
| body_fixed:
    "(t, n) \<in> set fixed_bodies \<Longrightarrow> length p = n \<Longrightarrow> apf_body t p"

lemma names_short:
  "n \<in> forward_names \<Longrightarrow> length n \<le> maxAPFStringLen"
  "c \<in> tcpip_types \<Longrightarrow> length c \<le> maxAPFStringLen"
  by (auto simp: forward_names_def tcpip_types_def maxAPFStringLen_def)

text \<open>Bytes of a given length as big-endian words.\<close>

lemma as_u32: "length x = 4 \<longleftrightarrow> (\<exists>v. x = put_u32 v)"
  by (metis length_put_u32 put_get_u32)

lemma as_u32s3: "length x = 12 \<longleftrightarrow> (\<exists>a b c. x = put_u32 a @ put_u32 b @ put_u32 c)"
proof
  assume l: "length x = 12"
  have "x = take 4 x @ take 4 (drop 4 x) @ drop 8 x"
    by (metis append_take_drop_id drop_drop numeral_Bit0)
  moreover have "\<exists>a. take 4 x = put_u32 a" "\<exists>b. take 4 (drop 4 x) = put_u32 b" "\<exists>c. drop 8 x = put_u32 c"
    using l by (simp_all flip: as_u32)
  ultimately show "\<exists>a b c. x = put_u32 a @ put_u32 b @ put_u32 c" by metis
qed auto

lemma as_byte: "length x = Suc 0 \<longleftrightarrow> (\<exists>b. x = [b])"
  by (auto simp: length_Suc_conv)

section \<open>Each reader against its rules\<close>

text \<open>Completeness: each reader takes what its rule describes, whatever follows.\<close>

lemma readAPFString_ok:
  "length s \<le> maxAPFStringLen \<Longrightarrow> length x = k \<Longrightarrow>
     readAPFString l k (apf_string s @ x @ rest) = Inr (apf_string s @ x, rest)"
  using readAPFString_iff [of l k "apf_string s @ x @ rest" "apf_string s @ x" rest] by auto

lemmas readAPFString_ok0 = readAPFString_ok [where x = "[]", simplified]
lemmas readAPFString_ok1 = readAPFString_ok [where x = "[b]" for b, simplified]

lemma readAPFString_ok4:
  "length s \<le> maxAPFStringLen \<Longrightarrow>
     readAPFString l 4 (apf_string s @ put_u32 a @ rest) = Inr (apf_string s @ put_u32 a, rest)"
  by (rule readAPFString_ok) simp_all

lemma readAPFString_ok12:
  "length s \<le> maxAPFStringLen \<Longrightarrow>
     readAPFString l 12 (apf_string s @ put_u32 a @ put_u32 b @ put_u32 c @ rest)
       = Inr (apf_string s @ put_u32 a @ put_u32 b @ put_u32 c, rest)"
  using readAPFString_ok [of s "put_u32 a @ put_u32 b @ put_u32 c" 12 l rest] by simp

lemmas readAPFString_oks = readAPFString_ok0 readAPFString_ok1 readAPFString_ok4 readAPFString_ok12

lemma readUserAuthRequest_ok:
  assumes "length u \<le> maxAPFStringLen" "length s \<le> maxAPFStringLen" "length m \<le> maxAPFStringLen"
  shows "readUserAuthRequest (apf_string u @ apf_string s @ apf_string m @ rest)
           = Inr (apf_string u @ apf_string s @ apf_string m, rest)"
  using assms by (simp add: readUserAuthRequest_def numeral_3_eq_3 readAPFString_oks)

lemma readChannelOpenExtra_ok:
  assumes "length a \<le> maxAPFStringLen" "length o' \<le> maxAPFStringLen"
  shows "readChannelOpenExtra (apf_string a @ put_u32 port @ apf_string o' @ put_u32 oport @ rest)
           = Inr (apf_string a @ put_u32 port @ apf_string o' @ put_u32 oport, rest)"
  using assms by (simp add: readChannelOpenExtra_def numeral_2_eq_2 readAPFString_oks)

lemma readGlobalRequest_ok:
  assumes "length n \<le> maxAPFStringLen"
  shows "n \<notin> forward_names \<Longrightarrow>
           readGlobalRequest (apf_string n @ b # rest) = Inr (apf_string n @ [b], rest)"
    and "n \<in> forward_names \<Longrightarrow> length a \<le> maxAPFStringLen \<Longrightarrow>
           readGlobalRequest (apf_string n @ b # apf_string a @ put_u32 port @ rest)
             = Inr (apf_string n @ b # apf_string a @ put_u32 port, rest)"
  using assms
  by (auto simp: readGlobalRequest_def readForwardData_def forward_names_def readAPFString_oks)

lemma readChannelOpen_ok:
  assumes "length c \<le> maxAPFStringLen"
  shows "c \<notin> tcpip_types \<Longrightarrow>
           readChannelOpen (apf_string c @ put_u32 sender @ put_u32 window @ put_u32 maxPkt @ rest)
             = Inr (apf_string c @ put_u32 sender @ put_u32 window @ put_u32 maxPkt, rest)"
    and "c \<in> tcpip_types \<Longrightarrow> length a \<le> maxAPFStringLen \<Longrightarrow> length o' \<le> maxAPFStringLen \<Longrightarrow>
           readChannelOpen (apf_string c @ put_u32 sender @ put_u32 window @ put_u32 maxPkt @
               apf_string a @ put_u32 port @ apf_string o' @ put_u32 oport @ rest)
             = Inr (apf_string c @ put_u32 sender @ put_u32 window @ put_u32 maxPkt @
               apf_string a @ put_u32 port @ apf_string o' @ put_u32 oport, rest)"
  using assms
  by (auto simp: readChannelOpen_def tcpip_types_def readAPFString_oks readChannelOpenExtra_ok)

lemma readChannelData_ok:
  "length d \<le> maxChannelData \<Longrightarrow>
     readChannelData (put_u32 ch @ apf_string d @ rest) = Inr (put_u32 ch @ apf_string d, rest)"
  using readChannelData_iff [of "put_u32 ch @ apf_string d @ rest" "put_u32 ch @ apf_string d" rest]
  by auto

lemma readFixed_ok: "length p = n \<Longrightarrow> readFixed n (p @ rest) = Inr (p, rest)"
  by (simp add: readFixed_iff)

lemma readMessageBody_fixed:
  "(t, n) \<in> set fixed_bodies \<Longrightarrow> readMessageBody t r = readFixed n r"
  by (auto simp: fixed_bodies_def readMessageBody_def readProtocolVersion_def readDisconnect_def
      readFixed_def apf_types)

lemma readMessageBody_ok: "apf_body t p \<Longrightarrow> readMessageBody t (p @ rest) = Inr (p, rest)"
proof (induction rule: apf_body.induct)
  case (body_fixed t n p)
  then show ?case by (simp add: readMessageBody_fixed readFixed_ok)
next
  case (body_service t s)
  then show ?case
    by (auto simp: readMessageBody_def readStringMsg_def readAPFString_oks)
qed (simp_all add: readMessageBody_def apf_types readUserAuthRequest_ok readGlobalRequest_ok
      readChannelOpen_ok readChannelData_ok names_short)

text \<open>Soundness: what a reader returned is described by its rule.\<close>

lemma readAPFString_D:
  assumes "readAPFString l k r = Inr (b, rest)"
  obtains s x where "length s \<le> maxAPFStringLen" "length x = k" "b = apf_string s @ x" "r = b @ rest"
  using assms by (auto simp: readAPFString_iff)

lemma readAPFStrings_SucD:
  assumes "readAPFStrings l k (Suc n) r = Inr (p, rest)"
  obtains s x q r1 where "length s \<le> maxAPFStringLen" "length x = k" "r = apf_string s @ x @ r1"
    "readAPFStrings l k n r1 = Inr (q, rest)" "p = apf_string s @ x @ q"
  using assms by (auto split: sum.splits elim!: readAPFString_D)

lemma readUserAuthRequest_D:
  assumes "readUserAuthRequest r = Inr (p, rest)"
  shows "apf_body APFUserAuthRequest p \<and> r = p @ rest"
  using assms unfolding readUserAuthRequest_def numeral_3_eq_3
  by (elim readAPFStrings_SucD) (simp add: body_auth)

lemma readChannelOpenExtra_D:
  assumes "readChannelOpenExtra r = Inr (p, rest)"
  obtains a port o' oport where "length a \<le> maxAPFStringLen" "length o' \<le> maxAPFStringLen"
    "p = apf_string a @ put_u32 port @ apf_string o' @ put_u32 oport" "r = p @ rest"
  using assms unfolding readChannelOpenExtra_def numeral_2_eq_2
  by (elim readAPFStrings_SucD) (auto simp: as_u32)

lemma readGlobalRequest_D:
  assumes "readGlobalRequest r = Inr (p, rest)"
  shows "apf_body APFGlobalRequest p \<and> r = p @ rest"
proof -
  obtain buf r1 where buf: "readAPFString ''request name'' 1 r = Inr (buf, r1)"
    using assms by (auto simp: readGlobalRequest_def split: sum.splits)
  then obtain n b where n: "length n \<le> maxAPFStringLen" "buf = apf_string n @ [b]" "r = buf @ r1"
    by (auto simp: as_byte elim!: readAPFString_D)
  show ?thesis
  proof (cases "n \<in> forward_names")
    case True
    then obtain x where "readForwardData r1 = Inr (x, rest)" "p = buf @ x"
      using assms buf n by (auto simp: readGlobalRequest_def forward_names_def split: sum.splits)
    then show ?thesis
      using n True by (auto simp: readForwardData_def as_u32 body_forward elim!: readAPFString_D)
  next
    case False
    then show ?thesis
      using assms buf n
      by (auto simp: readGlobalRequest_def forward_names_def body_global split: sum.splits)
  qed
qed

lemma readChannelOpen_D:
  assumes "readChannelOpen r = Inr (p, rest)"
  shows "apf_body APFChannelOpen p \<and> r = p @ rest"
proof -
  obtain buf r1 where buf: "readAPFString ''channel type'' 12 r = Inr (buf, r1)"
    using assms by (auto simp: readChannelOpen_def split: sum.splits)
  then obtain c s w m where c: "length c \<le> maxAPFStringLen" "r = buf @ r1"
      "buf = apf_string c @ put_u32 s @ put_u32 w @ put_u32 m"
    by (auto simp: as_u32s3 elim!: readAPFString_D)
  show ?thesis
  proof (cases "c \<in> tcpip_types")
    case True
    then obtain x where "readChannelOpenExtra r1 = Inr (x, rest)" "p = buf @ x"
      using assms buf c by (auto simp: readChannelOpen_def tcpip_types_def split: sum.splits)
    then show ?thesis using c True by (auto simp: body_open_tcpip elim!: readChannelOpenExtra_D)
  next
    case False
    then show ?thesis
      using assms buf c
      by (auto simp: readChannelOpen_def tcpip_types_def body_open split: sum.splits)
  qed
qed

lemma readMessageBody_D:
  assumes "readMessageBody t r = Inr (p, rest)"
  shows "apf_body t p \<and> r = p @ rest"
proof (cases "\<exists>n. (t, n) \<in> set fixed_bodies")
  case True
  then show ?thesis using assms by (auto simp: readMessageBody_fixed readFixed_iff body_fixed)
next
  case False
  then have "t \<in> {APFServiceRequest, APFServiceAccept} \<and> readStringMsg r = Inr (p, rest) \<or>
      t = APFUserAuthRequest \<and> readUserAuthRequest r = Inr (p, rest) \<or>
      t = APFGlobalRequest \<and> readGlobalRequest r = Inr (p, rest) \<or>
      t = APFChannelOpen \<and> readChannelOpen r = Inr (p, rest) \<or>
      t = APFChannelData \<and> readChannelData r = Inr (p, rest)"
    using assms by (auto simp: fixed_bodies_def readMessageBody_def split: if_splits)
  then show ?thesis
    using readUserAuthRequest_D readGlobalRequest_D readChannelOpen_D
    by (auto simp: readStringMsg_def readChannelData_iff
        intro: body_service body_data elim!: readAPFString_D)
qed

section \<open>Messages\<close>

definition apf_message_ok :: "byte \<times> bytes \<Rightarrow> bool" where
  "apf_message_ok m \<longleftrightarrow> apf_body (fst m) (snd m)"

definition apf_message_bytes :: "byte \<times> bytes \<Rightarrow> bytes" where
  "apf_message_bytes m = fst m # snd m"

lemma ReadMessage_Cons:
  "ReadMessage (t # r) =
     (case readMessageBody t r of
        Inl e \<Rightarrow> Inl (ApfType t e) | Inr (p, r') \<Rightarrow> Inr ((t, p), r'))"
  by (simp add: ReadMessage_def split: sum.splits prod.splits)

lemma ReadMessage_body: "apf_body t p \<Longrightarrow> ReadMessage (t # p @ rest) = Inr ((t, p), rest)"
  by (simp add: ReadMessage_Cons readMessageBody_ok)

lemma ReadMessage_D:
  assumes "ReadMessage r = Inr (m, rest)"
  shows "apf_message_ok m \<and> r = apf_message_bytes m @ rest"
proof (cases r)
  case Nil
  then show ?thesis using assms by (simp add: ReadMessage_def read_full_def)
next
  case (Cons t r')
  then obtain p where "readMessageBody t r' = Inr (p, rest)" "m = (t, p)"
    using assms by (auto simp: ReadMessage_Cons split: sum.splits)
  then show ?thesis
    using readMessageBody_D [of t r' p rest] Cons
    by (simp add: apf_message_ok_def apf_message_bytes_def)
qed

interpretation apf: canonical_codec apf_message_bytes ReadMessage apf_message_ok
proof unfold_locales
  show "ReadMessage (apf_message_bytes m @ rest) = Inr (m, rest)" if "apf_message_ok m" for m rest
    using that ReadMessage_body [of "fst m" "snd m" rest]
    by (simp add: apf_message_bytes_def apf_message_ok_def)
  show "apf_message_ok m \<and> r = apf_message_bytes m @ rest" if "ReadMessage r = Inr (m, rest)" for m r rest
    using that by (rule ReadMessage_D)
qed

section \<open>Parsing what was read\<close>

lemma readString_at:
  assumes "length s < 2 ^ 32"
  shows "readString (pre @ apf_string s @ post) (length pre) = Inr (s, length pre + 4 + length s)"
  using assms by (simp add: readString_def Let_def get_apf_string) (simp add: apf_string_def)

lemmas readString_front = readString_at [where pre = "[]", simplified]

lemma readString_second:
  "length s < 2 ^ 32 \<Longrightarrow>
     readString (apf_string a @ apf_string s @ post) (4 + length a) = Inr (s, 8 + length a + length s)"
  using readString_at [of s "apf_string a" post] by simp

lemma readString_third:
  "length s < 2 ^ 32 \<Longrightarrow>
     readString (apf_string a @ apf_string b @ apf_string s) (8 + length a + length b)
       = Inr (s, 12 + length a + length b + length s)"
  using readString_at [of s "apf_string a @ apf_string b" "[]"] by (simp add: ac_simps)

lemma ParseServiceRequest_ok:
  "length s \<le> maxAPFStringLen \<Longrightarrow> ParseServiceRequest (apf_string s) = Inr \<lparr>sr_ServiceName = s\<rparr>"
  using readString_front [of s "[]"] short_u32(1) [of s] by (simp add: ParseServiceRequest_def)

lemma ParseUserAuthRequest_ok:
  "length u \<le> maxAPFStringLen \<Longrightarrow> length s \<le> maxAPFStringLen \<Longrightarrow> length m \<le> maxAPFStringLen \<Longrightarrow>
     ParseUserAuthRequest (apf_string u @ apf_string s @ apf_string m)
       = Inr \<lparr>ua_Username = u, ua_ServiceName = s, ua_MethodName = m\<rparr>"
  using short_u32(1) [of u] short_u32(1) [of s] short_u32(1) [of m]
  by (simp add: ParseUserAuthRequest_def readString_front readString_second readString_third)

lemma ParseGlobalRequest_ok:
  "length n \<le> maxAPFStringLen \<Longrightarrow>
     ParseGlobalRequest (apf_string n @ b # d)
       = Inr \<lparr>gr_RequestName = n, gr_WantReply = (b \<noteq> 0), gr_Data = d\<rparr>"
  using short_u32(1) [of n] by (simp add: ParseGlobalRequest_def readString_front nth_append)

lemma ParseForwardData_ok:
  "length a \<le> maxAPFStringLen \<Longrightarrow>
     ParseForwardData (apf_string a @ put_u32 port @ rest) = Inr (a, port)"
  using short_u32(1) [of a] by (simp add: ParseForwardData_def readString_front)

lemma ParseChannelOpen_ok:
  "length c \<le> maxAPFStringLen \<Longrightarrow>
     ParseChannelOpen (apf_string c @ put_u32 sender @ put_u32 window @ put_u32 maxPkt @ d)
       = Inr \<lparr>co_ChannelType = c, co_SenderChannel = sender, co_InitialWindowSz = window,
              co_MaxPacketSz = maxPkt, co_Data = d\<rparr>"
  using short_u32(1) [of c] by (simp add: ParseChannelOpen_def readString_front)

lemma ParseChannelData_ok:
  "length d < 2 ^ 32 \<Longrightarrow>
     ParseChannelData (put_u32 ch @ apf_string d) = Inr \<lparr>cd_RecipientChannel = ch, cd_Data = d\<rparr>"
  using readString_at [of d "put_u32 ch" "[]"] by (simp add: ParseChannelData_def)

lemma ParseProtocolVersion_ok:
  "length g = 16 \<Longrightarrow>
     ParseProtocolVersion (put_u32 a @ put_u32 b @ put_u32 c @ g)
       = Inr \<lparr>pv_MajorVersion = a, pv_MinorVersion = b, pv_Trigger = c, pv_UUID = g\<rparr>"
  by (simp add: ParseProtocolVersion_def)

lemma ReorderIntelGUID_involution:
  assumes "length raw = 16"
  shows "ReorderIntelGUID (ReorderIntelGUID raw) = raw"
  using assms by (auto simp: ReorderIntelGUID_def numeral_eq_Suc length_Suc_conv)

section \<open>Properties\<close>

text \<open>
  C16. \<open>ReadMessage\<close> accepts exactly the messages of the APF grammar: a known type followed by a body of
  one of its forms, every string of at most 256 bytes and every channel payload of at most 1 MiB. It
  consumes the message and nothing of what follows, so a receive loop stays on message boundaries.
\<close>

theorem ReadMessage_accepts_iff:
  "ReadMessage r = Inr ((t, p), rest) \<longleftrightarrow> apf_body t p \<and> r = t # p @ rest"
  using ReadMessage_body [of t p rest] ReadMessage_D [of r "(t, p)" rest]
  by (auto simp: apf_message_ok_def apf_message_bytes_def)

text \<open>The bytes a write puts on a connection that takes it.\<close>

lemma encodeAPFString_eq: "encodeAPFString s = apf_string (take maxAPFStringLen s)"
  by (auto simp: encodeAPFString_def apf_string_def Let_def)

lemma writeChannelOpenDirect_bytes:
  "writeChannelOpenDirect buffer_write w ch addr port =
     (None, w @ APFChannelOpen # apf_string (ascii ''direct-tcpip'') @ put_u32 ch @
        put_u32 DefaultWindowSize @ put_u32 DefaultMaxPacketSize @
        apf_string (take maxAPFStringLen addr) @ put_u32 (ucast port) @
        apf_string (ascii ''0.0.0.0'') @ put_u32 0)"
  by (simp add: writeChannelOpenDirect_def buffer_write_def encodeAPFString_eq Let_def
      maxAPFStringLen_def) (simp add: apf_string_def)

lemma WriteChannelData_bytes:
  "length d \<le> maxAPFPayload \<Longrightarrow>
     WriteChannelData buffer_write w ch d = (None, w @ APFChannelData # put_u32 ch @ apf_string d)"
  by (simp add: WriteChannelData_def buffer_write_def apf_string_def)

text \<open>
  The channel open and the channel data the server writes are read back whole at the other end:
  the open carries the server's channel number, the advertised window and the target address and
  port, the data the recipient and the payload.
\<close>

lemma channel_writes_are_read:
  assumes "length addr \<le> maxAPFStringLen" "length d \<le> maxChannelData"
  shows "\<exists>bs bs' p p'.
     writeChannelOpenDirect (buffer_write :: ('e, bytes) writer) w ch addr port = (None, w @ bs) \<and>
     WriteChannelData (buffer_write :: ('e, bytes) writer) (w @ bs) ch' d = (None, w @ bs @ bs') \<and>
     read_n ReadMessage 2 (bs @ bs' @ rest)
       = Inr ([(APFChannelOpen, p), (APFChannelData, p')], rest) \<and>
     (\<exists>co. ParseChannelOpen p = Inr co \<and> co_ChannelType co = ascii ''direct-tcpip'' \<and>
        co_SenderChannel co = ch \<and> co_InitialWindowSz co = DefaultWindowSize \<and>
        ParseForwardData (co_Data co) = Inr (addr, ucast port)) \<and>
     ParseChannelData p' = Inr \<lparr>cd_RecipientChannel = ch', cd_Data = d\<rparr>"
proof -
  let ?o = "apf_string (ascii ''direct-tcpip'') @ put_u32 ch @ put_u32 DefaultWindowSize @
     put_u32 DefaultMaxPacketSize @ apf_string addr @ put_u32 (ucast port) @
     apf_string (ascii ''0.0.0.0'') @ put_u32 0"
  let ?d = "put_u32 ch' @ apf_string d"
  have "apf_body APFChannelOpen ?o"
    using assms(1) by (intro body_open_tcpip) (simp_all add: tcpip_types_def maxAPFStringLen_def)
  moreover have "apf_body APFChannelData ?d" using assms(2) by (rule body_data)
  ultimately have "read_n ReadMessage 2 ((APFChannelOpen # ?o) @ (APFChannelData # ?d) @ rest)
      = Inr ([(APFChannelOpen, ?o), (APFChannelData, ?d)], rest)"
    using apf.stream [of "[(APFChannelOpen, ?o), (APFChannelData, ?d)]" rest]
    by (simp add: apf_message_ok_def apf_message_bytes_def numeral_2_eq_2)
  moreover have "length d \<le> maxAPFPayload"
    using assms(2) by (simp add: maxChannelData_def maxAPFPayload_def)
  ultimately show ?thesis
    using assms short_u32(2) [OF assms(2)]
    by (intro exI [of _ "APFChannelOpen # ?o"] exI [of _ "APFChannelData # ?d"] exI [of _ ?o] exI [of _ ?d])
       (simp add: writeChannelOpenDirect_bytes WriteChannelData_bytes ParseChannelOpen_ok
          ParseForwardData_ok ParseChannelData_ok maxAPFStringLen_def)
qed

end
