(* ===== verification/Apf_Channel.thy ===== *)
theory Apf_Channel
  imports Apf_Codec
begin

text \<open>
  One APF channel, \<open>server/internal/amt/transport/mps_channel.go\<close>: its inbox, the window the server
  reopens as the data is read, its end, and the write loop. Each operation that holds \<open>ch.mu\<close> is one
  function; a relation interleaves them with a device that keeps to the window it was given.
\<close>

section \<open>The channel\<close>

datatype chan_error = ErrClosed | ErrEOF | ErrWindowExceeded

text \<open>
  \<open>ch_ready\<close> says whether the one-slot channel \<open>ready\<close> holds a wake-up. \<open>ch_sendWindow\<close> is an
  \<open>int64\<close>, which wraps.
\<close>

record Channel =
  ch_LocalID :: "32 word"
  ch_RemoteID :: "32 word"
  ch_Type :: bytes
  ch_discard :: bool
  ch_sendWindow :: "64 word"
  ch_inbox :: bytes
  ch_unacked :: int
  ch_err :: "chan_error option"
  ch_ready :: bool

definition newChannel :: "32 word \<Rightarrow> 32 word \<Rightarrow> bytes \<Rightarrow> 32 word \<Rightarrow> Channel" where
  "newChannel local remote chType window =
     \<lparr>ch_LocalID = local, ch_RemoteID = remote, ch_Type = chType, ch_discard = False,
      ch_sendWindow = ucast window, ch_inbox = [], ch_unacked = 0, ch_err = None, ch_ready = False\<rparr>"

definition signal :: "Channel \<Rightarrow> Channel" where
  "signal ch = ch\<lparr>ch_ready := True\<rparr>"

definition takeAdjust :: "int \<Rightarrow> Channel \<Rightarrow> 32 word \<times> Channel" where
  "takeAdjust n ch =
     (let u = ch_unacked ch + n in
      if u < uint DefaultWindowSize div 2 then (0, ch\<lparr>ch_unacked := u\<rparr>)
      else (word_of_int (min u (2 ^ 32 - 1)), ch\<lparr>ch_unacked := 0\<rparr>))"

definition deliver :: "bytes \<Rightarrow> Channel \<Rightarrow> (chan_error + 32 word) \<times> Channel" where
  "deliver data ch =
     (if ch_discard ch then
        (case takeAdjust (int (length data)) ch of (adjust, ch') \<Rightarrow> (Inr adjust, ch'))
      else if ch_err ch \<noteq> None then (Inr 0, ch)
      else if length (ch_inbox ch) + length data > unat DefaultWindowSize then
        (Inl ErrWindowExceeded, ch)
      else (Inr 0, signal (ch\<lparr>ch_inbox := ch_inbox ch @ data\<rparr>)))"

definition Channel_end :: "chan_error \<Rightarrow> Channel \<Rightarrow> bool \<times> Channel" where
  "Channel_end err ch =
     (if ch_err ch \<noteq> None then (False, ch) else (True, signal (ch\<lparr>ch_err := Some err\<rparr>)))"

definition ended :: "Channel \<Rightarrow> chan_error option" where
  "ended ch = (if ch_err ch \<noteq> None then Some ErrClosed else None)"

text \<open>
  One turn of the loop in \<open>Read\<close>: data and the adjust to send for it, the error of an ended channel,
  or nothing yet, in which case the caller waits for a wake-up.
\<close>

datatype read_turn = ReadGot bytes "32 word" | ReadErr chan_error | ReadWait

definition Read_turn :: "nat \<Rightarrow> Channel \<Rightarrow> read_turn \<times> Channel" where
  "Read_turn n ch =
     (if ch_inbox ch \<noteq> [] then
        (let got = take n (ch_inbox ch); ch1 = ch\<lparr>ch_inbox := drop n (ch_inbox ch)\<rparr> in
         if ch_err ch = None then
           (case takeAdjust (int (length got)) ch1 of (adjust, ch2) \<Rightarrow> (ReadGot got adjust, ch2))
         else (ReadGot got 0, ch1))
      else (case ch_err ch of Some err \<Rightarrow> (ReadErr err, ch) | None \<Rightarrow> (ReadWait, ch)))"

definition Read_wake :: "Channel \<Rightarrow> Channel option" where
  "Read_wake ch = (if ch_ready ch then Some (ch\<lparr>ch_ready := False\<rparr>) else None)"

text \<open>A failed write of the adjust is only logged.\<close>

definition reopenWindow ::
  "('e, 'w) writer \<Rightarrow> 'w \<Rightarrow> Channel \<Rightarrow> 32 word \<Rightarrow> 'w" where
  "reopenWindow write w ch adjust =
     (if adjust = 0 then w else snd (WriteChannelWindowAdj write w (ch_RemoteID ch) adjust))"

text \<open>
  The loop of \<open>Write\<close>. Between two turns another goroutine may end the channel, so what \<open>ended\<close> answers
  at each turn is the argument \<open>endedAt\<close>.
\<close>

datatype 'e write_error = WriteEnded chan_error | WriteFailed "apf_error + 'e"

function Write_loop ::
  "('e, 'w) writer \<Rightarrow> (nat \<Rightarrow> chan_error option) \<Rightarrow> 32 word \<Rightarrow> bytes \<Rightarrow> nat \<Rightarrow> nat \<Rightarrow> 'w \<Rightarrow>
     (nat \<times> 'e write_error option) \<times> 'w" where
  "Write_loop write endedAt remoteID p turn written w =
     (if written < length p then
        (case endedAt turn of
           Some err \<Rightarrow> ((written, Some (WriteEnded err)), w)
         | None \<Rightarrow>
             (let end' = min (written + unat DefaultMaxPacketSize) (length p) in
              case WriteChannelData write w remoteID (take (end' - written) (drop written p)) of
                (Some err, w') \<Rightarrow> ((written, Some (WriteFailed err)), w')
              | (None, w') \<Rightarrow> Write_loop write endedAt remoteID p (Suc turn) end' w'))
      else ((written, None), w))"
  by pat_completeness auto
termination
  by (relation "measure (\<lambda>(_, _, _, p, _, written, _). length p - written)")
     (auto simp: DefaultMaxPacketSize_def)

declare Write_loop.simps [simp del]

definition Channel_Write ::
  "('e, 'w) writer \<Rightarrow> (nat \<Rightarrow> chan_error option) \<Rightarrow> Channel \<Rightarrow> bytes \<Rightarrow> 'w \<Rightarrow>
     (nat \<times> 'e write_error option) \<times> 'w" where
  "Channel_Write write endedAt ch p w = Write_loop write endedAt (ch_RemoteID ch) p 0 0 w"

section \<open>Writing\<close>

definition data_message :: "32 word \<Rightarrow> bytes \<Rightarrow> byte \<times> bytes" where
  "data_message ch d = (APFChannelData, put_u32 ch @ apf_string d)"

lemma data_message_ok: "length d \<le> unat DefaultMaxPacketSize \<Longrightarrow> apf_message_ok (data_message ch d)"
  by (simp add: apf_message_ok_def data_message_def body_data maxChannelData_def
      DefaultMaxPacketSize_def)

lemma WriteChannelData_packet:
  "length d \<le> unat DefaultMaxPacketSize \<Longrightarrow>
     WriteChannelData buffer_write w ch d = (None, w @ apf_message_bytes (data_message ch d))"
  by (simp add: WriteChannelData_bytes apf_message_bytes_def data_message_def maxAPFPayload_def
      DefaultMaxPacketSize_def)

text \<open>What the loop has sent when it returns: packets that make up the bytes it reports.\<close>

definition packets_of :: "bytes \<Rightarrow> bytes list \<Rightarrow> bool" where
  "packets_of sent ds \<longleftrightarrow>
     concat ds = sent \<and> list_all (\<lambda>d. d \<noteq> [] \<and> length d \<le> unat DefaultMaxPacketSize) ds"

lemma packets_of_Cons:
  "packets_of sent ds \<Longrightarrow> d \<noteq> [] \<Longrightarrow> length d \<le> unat DefaultMaxPacketSize \<Longrightarrow>
     packets_of (d @ sent) (d # ds)"
  by (simp add: packets_of_def)

lemma take_split:
  "a \<le> b \<Longrightarrow> b \<le> n \<Longrightarrow> take (b - a) (drop a p) @ take (n - b) (drop b p) = take (n - a) (drop a p)"
  using take_add [of "b - a" "n - b" "drop a p"] by simp

lemma Write_loop_buffer:
  assumes "written \<le> length p"
  shows "\<exists>n err ds. Write_loop (buffer_write :: ('e, bytes) writer) endedAt ch p turn written w
           = ((n, err), w @ concat (map (apf_message_bytes \<circ> data_message ch) ds)) \<and>
         written \<le> n \<and> n \<le> length p \<and> packets_of (take (n - written) (drop written p)) ds \<and>
         (err = None \<and> n = length p \<or>
          (\<exists>i e. endedAt i = Some e \<and> err = Some (WriteEnded e) \<and> n < length p))"
  using assms
proof (induction "buffer_write :: ('e, bytes) writer" endedAt ch p turn written w rule: Write_loop.induct)
  case (1 endedAt ch p turn written w)
  show ?case
  proof (cases "written < length p \<and> endedAt turn = None")
    case False
    then show ?thesis using 1(2)
      by (intro exI [of _ written] exI [of _ "case endedAt turn of Some e \<Rightarrow> if written < length p
            then Some (WriteEnded e) else None | None \<Rightarrow> None"] exI [of _ "[]"])
         (subst Write_loop.simps, auto simp: packets_of_def split: option.splits)
  next
    case True
    define k where "k = min (written + unat DefaultMaxPacketSize) (length p)"
    define d where "d = take (k - written) (drop written p)"
    have k: "written < k" "k \<le> length p" and d: "d \<noteq> []" "length d \<le> unat DefaultMaxPacketSize"
      using True by (auto simp: k_def d_def DefaultMaxPacketSize_def)
    have step: "Write_loop buffer_write endedAt ch p turn written w =
        Write_loop buffer_write endedAt ch p (Suc turn) k (w @ apf_message_bytes (data_message ch d))"
      using True by (subst Write_loop.simps)
        (simp add: Let_def WriteChannelData_packet [OF d(2)] flip: k_def d_def)
    have "\<exists>n err ds. Write_loop (buffer_write :: ('e, bytes) writer) endedAt ch p (Suc turn) k
            (w @ apf_message_bytes (data_message ch d))
          = ((n, err), (w @ apf_message_bytes (data_message ch d)) @
               concat (map (apf_message_bytes \<circ> data_message ch) ds)) \<and>
         k \<le> n \<and> n \<le> length p \<and> packets_of (take (n - k) (drop k p)) ds \<and>
         (err = None \<and> n = length p \<or>
          (\<exists>i e. endedAt i = Some e \<and> err = Some (WriteEnded e) \<and> n < length p))"
      using 1(1) [OF _ _ k_def _ refl] True k
      by (simp add: WriteChannelData_packet [OF d(2)] flip: d_def)
    then obtain n err ds where r: "Write_loop (buffer_write :: ('e, bytes) writer) endedAt ch p (Suc turn) k
            (w @ apf_message_bytes (data_message ch d))
          = ((n, err), (w @ apf_message_bytes (data_message ch d)) @
               concat (map (apf_message_bytes \<circ> data_message ch) ds))"
        "k \<le> n" "n \<le> length p" "packets_of (take (n - k) (drop k p)) ds"
        "err = None \<and> n = length p \<or>
          (\<exists>i e. endedAt i = Some e \<and> err = Some (WriteEnded e) \<and> n < length p)" by blast
    then have "packets_of (take (n - written) (drop written p)) (d # ds)"
      using packets_of_Cons [OF r(4) d] take_split [of written k n p] k by (simp add: d_def)
    then show ?thesis using r k unfolding step
      by (intro exI [of _ n] exI [of _ err] exI [of _ "d # ds"]) auto
  qed
qed

text \<open>
  C17. A \<open>Write\<close> on a channel ends: it sends its data in non-empty packets of at most 32 KiB that the
  device reads back in order, and reports exactly the bytes those packets carry. It stops early only
  when the channel was ended meanwhile; otherwise it has sent everything.
\<close>

theorem Write_sends_in_packets:
  "\<exists>n err ds bs.
     Channel_Write (buffer_write :: ('e, bytes) writer) endedAt ch p w = ((n, err), w @ bs) \<and>
     concat ds = take n p \<and>
     list_all (\<lambda>d. d \<noteq> [] \<and> length d \<le> unat DefaultMaxPacketSize) ds \<and>
     read_n ReadMessage (length ds) (bs @ rest) = Inr (map (data_message (ch_RemoteID ch)) ds, rest) \<and>
     (err = None \<and> n = length p \<or>
      (\<exists>i e. endedAt i = Some e \<and> err = Some (WriteEnded e) \<and> n < length p))"
proof -
  obtain n err ds where r: "Channel_Write (buffer_write :: ('e, bytes) writer) endedAt ch p w
      = ((n, err), w @ concat (map (apf_message_bytes \<circ> data_message (ch_RemoteID ch)) ds))"
    "packets_of (take n p) ds"
    "err = None \<and> n = length p \<or>
      (\<exists>i e. endedAt i = Some e \<and> err = Some (WriteEnded e) \<and> n < length p)"
    using Write_loop_buffer [of 0 p, where 'e = 'e] by (fastforce simp: Channel_Write_def)
  have "list_all apf_message_ok (map (data_message (ch_RemoteID ch)) ds)"
    using r(2) by (auto simp: packets_of_def list_all_iff data_message_ok)
  from apf.stream [OF this, of rest] r show ?thesis
    by (auto simp: packets_of_def)
qed

section \<open>A channel and a device that keeps to its window\<close>

text \<open>
  The channel with one reader, the message loop, and the device at the other end of an ordered
  connection. \<open>fl_flight\<close> holds the payloads sent and not yet delivered, \<open>fl_pending\<close> the adjusts a
  read took and has not written yet, \<open>fl_adjusts\<close> those written and not yet seen by the device;
  \<open>fl_credit\<close> is the window the device has left. \<open>fl_sent\<close> and \<open>fl_got\<close> record what was sent and what
  the reads returned, \<open>fl_blocked\<close> that the reader waits on \<open>ready\<close>.
\<close>

record flow =
  fl_ch :: Channel
  fl_flight :: "bytes list"
  fl_pending :: "32 word list"
  fl_adjusts :: "32 word list"
  fl_credit :: int
  fl_sent :: bytes
  fl_got :: bytes
  fl_blocked :: bool

abbreviation (input) window :: int where "window \<equiv> uint DefaultWindowSize"

definition flow_start :: "flow \<Rightarrow> bool" where
  "flow_start s \<longleftrightarrow>
     (\<exists>local remote chType w disc.
        s = \<lparr>fl_ch = (newChannel local remote chType w)\<lparr>ch_discard := disc\<rparr>, fl_flight = [],
             fl_pending = [], fl_adjusts = [], fl_credit = window, fl_sent = [], fl_got = [],
             fl_blocked = False\<rparr>)"

inductive flow_step :: "flow \<Rightarrow> flow \<Rightarrow> bool" where
  device_sends:
    "int (length d) \<le> fl_credit s \<Longrightarrow>
       flow_step s (s\<lparr>fl_credit := fl_credit s - int (length d), fl_flight := fl_flight s @ [d],
                      fl_sent := fl_sent s @ d\<rparr>)"
| device_adjusts:
    "fl_adjusts s = a # as \<Longrightarrow>
       flow_step s (s\<lparr>fl_adjusts := as, fl_credit := fl_credit s + uint a\<rparr>)"
| loop_delivers:
    "fl_flight s = d # ds \<Longrightarrow> deliver d (fl_ch s) = (Inr adjust, ch) \<Longrightarrow>
       flow_step s (s\<lparr>fl_flight := ds, fl_ch := ch,
                      fl_adjusts := fl_adjusts s @ (if adjust > 0 then [adjust] else [])\<rparr>)"
| loop_cuts_off:
    "fl_flight s = d # ds \<Longrightarrow> deliver d (fl_ch s) = (Inl err, ch) \<Longrightarrow>
       flow_step s (s\<lparr>fl_flight := ds, fl_ch := snd (Channel_end err ch)\<rparr>)"
| loop_drops:
    "fl_flight s = d # ds \<Longrightarrow> ch_err (fl_ch s) \<noteq> None \<Longrightarrow> flow_step s (s\<lparr>fl_flight := ds\<rparr>)"
| reader_gets:
    "\<not> fl_blocked s \<Longrightarrow> Read_turn n (fl_ch s) = (ReadGot got adjust, ch) \<Longrightarrow>
       flow_step s (s\<lparr>fl_ch := ch, fl_got := fl_got s @ got,
                      fl_pending := fl_pending s @ (if adjust = 0 then [] else [adjust])\<rparr>)"
| reader_fails:
    "\<not> fl_blocked s \<Longrightarrow> Read_turn n (fl_ch s) = (ReadErr err, ch) \<Longrightarrow> flow_step s (s\<lparr>fl_ch := ch\<rparr>)"
| reader_waits:
    "\<not> fl_blocked s \<Longrightarrow> Read_turn n (fl_ch s) = (ReadWait, ch) \<Longrightarrow>
       flow_step s (s\<lparr>fl_ch := ch, fl_blocked := True\<rparr>)"
| reader_wakes:
    "fl_blocked s \<Longrightarrow> Read_wake (fl_ch s) = Some ch \<Longrightarrow>
       flow_step s (s\<lparr>fl_ch := ch, fl_blocked := False\<rparr>)"
| reader_reopens:
    "fl_pending s = a # as \<Longrightarrow>
       flow_step s (s\<lparr>fl_pending := as, fl_adjusts := fl_adjusts s @ [a]\<rparr>)"
| channel_ends:
    "err \<noteq> ErrWindowExceeded \<Longrightarrow> flow_step s (s\<lparr>fl_ch := snd (Channel_end err (fl_ch s))\<rparr>)"

inductive_cases flow_stepE: "flow_step s s'"

definition adjust_sum :: "32 word list \<Rightarrow> int" where
  "adjust_sum as = sum_list (map uint as)"

lemma adjust_sum_simps [simp]:
  "adjust_sum [] = 0" "adjust_sum (a # as) = uint a + adjust_sum as"
  "adjust_sum (as @ bs) = adjust_sum as + adjust_sum bs"
  by (simp_all add: adjust_sum_def)

text \<open>
  Every byte of the window is in one place: with the device, in flight, in the inbox, counted as
  taken, or in an adjust on its way. Once the channel has ended, bytes are dropped and never appear.
\<close>

definition window_used :: "flow \<Rightarrow> int" where
  "window_used s = fl_credit s + int (length (concat (fl_flight s))) + int (length (ch_inbox (fl_ch s))) +
     ch_unacked (fl_ch s) + adjust_sum (fl_pending s) + adjust_sum (fl_adjusts s)"

definition flow_inv :: "flow \<Rightarrow> bool" where
  "flow_inv s \<longleftrightarrow>
     window_used s \<le> window \<and> (ch_err (fl_ch s) = None \<longrightarrow> window_used s = window) \<and>
     0 \<le> fl_credit s \<and> 0 \<le> ch_unacked (fl_ch s) \<and> ch_unacked (fl_ch s) < window div 2 \<and>
     ch_err (fl_ch s) \<noteq> Some ErrWindowExceeded \<and>
     (if ch_discard (fl_ch s) then ch_inbox (fl_ch s) = [] \<and> fl_got s = []
      else \<exists>lost. fl_sent s = fl_got s @ ch_inbox (fl_ch s) @ lost \<and>
             (ch_err (fl_ch s) = None \<longrightarrow> lost = concat (fl_flight s))) \<and>
     (fl_blocked s \<and> (ch_inbox (fl_ch s) \<noteq> [] \<or> ch_err (fl_ch s) \<noteq> None) \<longrightarrow> ch_ready (fl_ch s))"

lemma flow_inv_start: "flow_start s \<Longrightarrow> flow_inv s"
  by (auto simp: flow_start_def flow_inv_def window_used_def newChannel_def DefaultWindowSize_def)

lemma uint_word_of_int_u32: "0 \<le> u \<Longrightarrow> u < 2 ^ 32 \<Longrightarrow> uint (word_of_int u :: 32 word) = u"
  by (simp add: uint_word_of_int)

lemma take_drop_append [simp]: "take n xs @ drop n xs @ ys = xs @ ys"
  by (metis append_assoc append_take_drop_id)

lemma takeAdjust_account:
  assumes "takeAdjust n ch = (a, ch')" "0 \<le> n" "n \<le> window" "0 \<le> ch_unacked ch"
    "ch_unacked ch < window div 2"
  shows "uint a + ch_unacked ch' = ch_unacked ch + n" "0 \<le> ch_unacked ch'" "ch_unacked ch' < window div 2"
    "ch' = ch\<lparr>ch_unacked := ch_unacked ch'\<rparr>"
proof -
  have "uint (word_of_int (min (ch_unacked ch + n) (2 ^ 32 - 1)) :: 32 word) = ch_unacked ch + n"
    using assms(2-) by (subst uint_word_of_int_u32) (auto simp: DefaultWindowSize_def)
  then show "uint a + ch_unacked ch' = ch_unacked ch + n" "0 \<le> ch_unacked ch'" "ch_unacked ch' < window div 2"
      "ch' = ch\<lparr>ch_unacked := ch_unacked ch'\<rparr>"
    using assms by (auto simp: takeAdjust_def Let_def DefaultWindowSize_def split: if_splits)
qed

lemma adjust_sum_nonneg: "0 \<le> adjust_sum as"
  by (auto simp: adjust_sum_def intro!: sum_list_nonneg)

lemma window_used_parts:
  assumes "flow_inv s"
  shows "int (length (concat (fl_flight s))) + int (length (ch_inbox (fl_ch s))) \<le> window"
  using assms adjust_sum_nonneg [of "fl_pending s"] adjust_sum_nonneg [of "fl_adjusts s"]
  by (simp add: flow_inv_def window_used_def)

text \<open>What keeps the invariant, operation by operation.\<close>

lemma flow_inv_device_sends:
  assumes "flow_inv s" "int (length d) \<le> fl_credit s"
  shows "flow_inv (s\<lparr>fl_credit := fl_credit s - int (length d), fl_flight := fl_flight s @ [d],
                      fl_sent := fl_sent s @ d\<rparr>)"
  using assms by (auto simp: flow_inv_def window_used_def)

lemma flow_inv_device_adjusts:
  "flow_inv s \<Longrightarrow> fl_adjusts s = a # as \<Longrightarrow>
     flow_inv (s\<lparr>fl_adjusts := as, fl_credit := fl_credit s + uint a\<rparr>)"
  by (auto simp: flow_inv_def window_used_def)

lemma flow_inv_reopens:
  "flow_inv s \<Longrightarrow> fl_pending s = a # as \<Longrightarrow>
     flow_inv (s\<lparr>fl_pending := as, fl_adjusts := fl_adjusts s @ [a]\<rparr>)"
  by (auto simp: flow_inv_def window_used_def)

lemma flow_inv_ends:
  assumes "flow_inv s" "err \<noteq> ErrWindowExceeded"
  shows "flow_inv (s\<lparr>fl_ch := snd (Channel_end err (fl_ch s))\<rparr>)"
  using assms by (auto simp: flow_inv_def window_used_def Channel_end_def signal_def)

lemma flow_inv_drops:
  assumes "flow_inv s" "fl_flight s = d # ds" "ch_err (fl_ch s) \<noteq> None"
  shows "flow_inv (s\<lparr>fl_flight := ds\<rparr>)"
  using assms by (auto simp: flow_inv_def window_used_def)

lemma flow_inv_wakes:
  "flow_inv s \<Longrightarrow> Read_wake (fl_ch s) = Some ch \<Longrightarrow> flow_inv (s\<lparr>fl_ch := ch, fl_blocked := False\<rparr>)"
  by (auto simp: flow_inv_def window_used_def Read_wake_def split: if_splits)

lemma flow_inv_waits:
  "flow_inv s \<Longrightarrow> Read_turn n (fl_ch s) = (ReadWait, ch) \<Longrightarrow>
     flow_inv (s\<lparr>fl_ch := ch, fl_blocked := True\<rparr>)"
  by (auto simp: flow_inv_def window_used_def Read_turn_def Let_def split: if_splits option.splits prod.splits)

lemma flow_inv_fails:
  "flow_inv s \<Longrightarrow> Read_turn n (fl_ch s) = (ReadErr err, ch) \<Longrightarrow> flow_inv (s\<lparr>fl_ch := ch\<rparr>)"
  by (auto simp: flow_inv_def window_used_def Read_turn_def Let_def split: if_splits option.splits prod.splits)

text \<open>A device within its window is never cut off.\<close>

lemma deliver_fits:
  assumes "flow_inv s" "fl_flight s = d # ds"
  shows "\<exists>adjust ch. deliver d (fl_ch s) = (Inr adjust, ch)"
  using window_used_parts [OF assms(1)] assms(2)
  by (auto simp: deliver_def DefaultWindowSize_def split: prod.splits)

lemma deliver_account:
  assumes "deliver d ch = (Inr a, ch')" "int (length d) \<le> window" "0 \<le> ch_unacked ch"
    "ch_unacked ch < window div 2" "ch_discard ch \<longrightarrow> ch_inbox ch = []"
  shows "ch_discard ch \<Longrightarrow> uint a + ch_unacked ch' = ch_unacked ch + int (length d) \<and>
           0 \<le> ch_unacked ch' \<and> ch_unacked ch' < window div 2 \<and> ch' = ch\<lparr>ch_unacked := ch_unacked ch'\<rparr>"
    and "\<not> ch_discard ch \<Longrightarrow> ch_err ch \<noteq> None \<Longrightarrow> a = 0 \<and> ch' = ch"
    and "\<not> ch_discard ch \<Longrightarrow> ch_err ch = None \<Longrightarrow>
           a = 0 \<and> ch' = ch\<lparr>ch_inbox := ch_inbox ch @ d, ch_ready := True\<rparr>"
proof -
  assume "ch_discard ch"
  then have "takeAdjust (int (length d)) ch = (a, ch')"
    using assms(1) by (auto simp: deliver_def split: prod.splits)
  then show "uint a + ch_unacked ch' = ch_unacked ch + int (length d) \<and>
           0 \<le> ch_unacked ch' \<and> ch_unacked ch' < window div 2 \<and> ch' = ch\<lparr>ch_unacked := ch_unacked ch'\<rparr>"
    using takeAdjust_account [of "int (length d)" ch a ch'] assms by auto
qed (use assms in \<open>auto simp: deliver_def signal_def split: if_splits\<close>)

lemma flow_inv_delivers:
  assumes inv: "flow_inv s" and fl: "fl_flight s = d # ds"
    and del: "deliver d (fl_ch s) = (Inr a, ch')"
  shows "flow_inv (s\<lparr>fl_flight := ds, fl_ch := ch',
                      fl_adjusts := fl_adjusts s @ (if a > 0 then [a] else [])\<rparr>)"
proof -
  let ?c = "fl_ch s"
  have sum: "adjust_sum (fl_adjusts s @ (if a > 0 then [a] else [])) = adjust_sum (fl_adjusts s) + uint a"
    by (auto simp: word_gt_0)
  have len: "int (length d) \<le> window" using window_used_parts [OF inv] fl by simp
  have u: "0 \<le> ch_unacked ?c" "ch_unacked ?c < window div 2" "ch_discard ?c \<longrightarrow> ch_inbox ?c = []"
    using inv by (auto simp: flow_inv_def)
  note acc = deliver_account [OF del len u]
  consider "ch_discard ?c" | "\<not> ch_discard ?c" "ch_err ?c \<noteq> None" | "\<not> ch_discard ?c" "ch_err ?c = None"
    by blast
  then show ?thesis
  proof cases
    case 1
    obtain v where "ch' = ?c\<lparr>ch_unacked := v\<rparr>" using acc(1) [OF 1] by blast
    then show ?thesis using acc(1) [OF 1] inv fl 1 sum
      by (auto simp: flow_inv_def window_used_def simp del: adjust_sum_simps(3))
  next
    case 2
    then show ?thesis using acc(2) [OF 2] inv fl sum
      by (auto simp: flow_inv_def window_used_def)
  next
    case 3
    then show ?thesis using acc(3) [OF 3] inv fl sum
      by (auto simp: flow_inv_def window_used_def)
  qed
qed

lemma flow_inv_gets:
  assumes inv: "flow_inv s" and rd: "Read_turn n (fl_ch s) = (ReadGot got a, ch')"
    and nb: "\<not> fl_blocked s"
  shows "flow_inv (s\<lparr>fl_ch := ch', fl_got := fl_got s @ got,
                      fl_pending := fl_pending s @ (if a = 0 then [] else [a])\<rparr>)"
proof -
  let ?c = "fl_ch s" and ?c1 = "(fl_ch s)\<lparr>ch_inbox := drop n (ch_inbox (fl_ch s))\<rparr>"
  have sum: "adjust_sum (fl_pending s @ (if a = 0 then [] else [a])) = adjust_sum (fl_pending s) + uint a"
    by auto
  have ne: "ch_inbox ?c \<noteq> []" and got: "got = take n (ch_inbox ?c)"
    using rd by (auto simp: Read_turn_def Let_def split: if_splits option.splits prod.splits)
  have disc: "\<not> ch_discard ?c" using inv ne by (auto simp: flow_inv_def)
  have parts: "int (length got) \<le> window" "int (length got) + int (length (drop n (ch_inbox ?c))) = int (length (ch_inbox ?c))"
    using window_used_parts [OF inv] got by auto
  show ?thesis
  proof (cases "ch_err ?c = None")
    case True
    then have ta: "takeAdjust (int (length got)) ?c1 = (a, ch')"
      using rd ne got by (auto simp: Read_turn_def Let_def split: prod.splits)
    have "0 \<le> ch_unacked ?c1" "ch_unacked ?c1 < window div 2" using inv by (auto simp: flow_inv_def)
    from takeAdjust_account [OF ta _ parts(1) this]
    obtain v where v: "ch' = ?c1\<lparr>ch_unacked := v\<rparr>" "uint a + v = ch_unacked ?c + int (length got)"
      "0 \<le> v" "v < window div 2" by (metis (no_types, lifting) Channel.select_convs(7)
        Channel.surjective Channel.update_convs(6) Channel.update_convs(7) of_nat_0_le_iff)
    show ?thesis using v inv True disc nb parts(2) got sum
      by (auto simp: flow_inv_def window_used_def simp del: adjust_sum_simps(3) split del: if_split)
  next
    case False
    then have "a = 0" "ch' = ?c1"
      using rd ne by (auto simp: Read_turn_def Let_def split: prod.splits)
    then show ?thesis using inv False disc nb parts(2) got
      by (auto simp: flow_inv_def window_used_def)
  qed
qed

lemma flow_inv_step: "flow_step s s' \<Longrightarrow> flow_inv s \<Longrightarrow> flow_inv s'"
proof (induction rule: flow_step.induct)
  case (loop_cuts_off s d ds err ch)
  then show ?case using deliver_fits [of s d ds] by auto
qed (auto intro: flow_inv_device_sends flow_inv_device_adjusts flow_inv_delivers flow_inv_drops
      flow_inv_gets flow_inv_fails flow_inv_waits flow_inv_wakes flow_inv_reopens flow_inv_ends
      split del: if_split)

interpretation flow: step_invariant flow_start flow_step flow_inv
  by unfold_locales (auto intro: flow_inv_start flow_inv_step)

section \<open>Properties\<close>

text \<open>
  A short run used as a witness: the device sends three bytes on a channel the server opened, the
  loop delivers them, and a read takes two.
\<close>

definition flow_demo_start :: flow where
  "flow_demo_start =
     \<lparr>fl_ch = newChannel 0 7 (ascii ''direct-tcpip'') 16, fl_flight = [], fl_pending = [],
      fl_adjusts = [], fl_credit = window, fl_sent = [], fl_got = [], fl_blocked = False\<rparr>"

definition flow_demo :: flow where
  "flow_demo = flow_demo_start\<lparr>fl_credit := window - 3, fl_sent := [1, 2, 3], fl_got := [1, 2],
     fl_ch := (newChannel 0 7 (ascii ''direct-tcpip'') 16)
        \<lparr>ch_inbox := [3], ch_unacked := 2, ch_ready := True\<rparr>\<rparr>"

lemmas flow_demo_defs = flow_demo_def flow_demo_start_def newChannel_def

lemma flow_demo_reachable: "reachable flow_start flow_step flow_demo"
proof -
  let ?s0 = flow_demo_start
  let ?s1 = "?s0\<lparr>fl_credit := window - 3, fl_flight := [[1, 2, 3]], fl_sent := [1, 2, 3]\<rparr>"
  let ?c2 = "(fl_ch ?s0)\<lparr>ch_inbox := [1, 2, 3], ch_ready := True\<rparr>"
  let ?s2 = "?s1\<lparr>fl_flight := [], fl_ch := ?c2\<rparr>"
  have "newChannel 0 7 c 16 = (newChannel 0 7 c 16)\<lparr>ch_discard := False\<rparr>" for c
    by (simp add: newChannel_def)
  then have "flow_start ?s0" unfolding flow_start_def flow_demo_start_def by blast
  then have "reachable flow_start flow_step ?s0" by (rule reachable_start)
  moreover have "flow_step ?s0 ?s1"
    using device_sends [of "[1, 2, 3]" ?s0] by (simp add: flow_demo_defs DefaultWindowSize_def)
  moreover have "flow_step ?s1 ?s2"
    using loop_delivers [of ?s1 "[1, 2, 3]" "[]" 0 ?c2]
    by (simp add: flow_demo_defs deliver_def signal_def DefaultWindowSize_def)
  moreover have "flow_step ?s2 flow_demo"
    using reader_gets [of ?s2 2 "[1, 2]" 0 "?c2\<lparr>ch_inbox := [3], ch_unacked := 2\<rparr>"]
    by (simp add: flow_demo_defs Read_turn_def takeAdjust_def DefaultWindowSize_def)
  ultimately show ?thesis by (blast intro: reachable_step)
qed

text \<open>
  C18. The window is a promise the server keeps: a device that never sends more than the credit it was
  given is never cut off with \<open>errWindowExceeded\<close>, and what waits to be read never exceeds the window
  that was advertised.
\<close>

theorem device_in_window_never_cut_off:
  assumes "reachable flow_start flow_step s"
  shows "ch_err (fl_ch s) \<noteq> Some ErrWindowExceeded \<and>
         length (ch_inbox (fl_ch s)) \<le> unat DefaultWindowSize \<and>
         (fl_flight s = [] \<or> (\<exists>adjust ch. deliver (hd (fl_flight s)) (fl_ch s) = (Inr adjust, ch)))"
proof -
  have inv: "flow_inv s" using assms by (rule flow.holds)
  have "int (length (ch_inbox (fl_ch s))) \<le> window" using window_used_parts [OF inv] by simp
  then have "length (ch_inbox (fl_ch s)) \<le> unat DefaultWindowSize"
    by (simp add: DefaultWindowSize_def)
  moreover have "fl_flight s = [] \<or> (\<exists>adjust ch. deliver (hd (fl_flight s)) (fl_ch s) = (Inr adjust, ch))"
    using deliver_fits [OF inv] by (cases "fl_flight s") auto
  ultimately show ?thesis using inv by (simp add: flow_inv_def)
qed

theorem device_in_window_never_cut_off_witness:
  "ch_inbox (fl_ch flow_demo) = [3] \<and> ch_err (fl_ch flow_demo) \<noteq> Some ErrWindowExceeded"
  using device_in_window_never_cut_off [OF flow_demo_reachable] by (simp add: flow_demo_def)

text \<open>
  Flow control never stalls: when everything the device sent was read and no adjust is on its
  way, the device has more than half of the window left, so it can always go on sending.
\<close>

lemma window_always_reopens:
  assumes "reachable flow_start flow_step s" "ch_err (fl_ch s) = None" "ch_inbox (fl_ch s) = []"
    and "fl_flight s = []" "fl_pending s = []" "fl_adjusts s = []"
  shows "uint DefaultWindowSize div 2 < fl_credit s"
proof -
  have "flow_inv s" using assms(1) by (rule flow.holds)
  then show ?thesis using assms(2-) by (simp add: flow_inv_def window_used_def DefaultWindowSize_def)
qed

lemma flow_demo_drained:
  "reachable flow_start flow_step
     (flow_demo\<lparr>fl_got := [1, 2, 3], fl_ch := (fl_ch flow_demo)\<lparr>ch_inbox := [], ch_unacked := 3\<rparr>\<rparr>)"
  by (rule reachable_step [OF flow_demo_reachable])
     (use reader_gets [of flow_demo 1 "[3]" 0 "(fl_ch flow_demo)\<lparr>ch_inbox := [], ch_unacked := 3\<rparr>"] in
      \<open>simp add: flow_demo_defs Read_turn_def takeAdjust_def DefaultWindowSize_def\<close>)

text \<open>
  C19. The reads of a channel return what the device sent, in order and without a gap: what was read
  and what is buffered is a prefix of it, and while the channel is open the rest is in flight. A
  reader that waits is woken whenever there is data or the channel has ended.
\<close>

theorem channel_reads_in_order:
  assumes "reachable flow_start flow_step s" "\<not> ch_discard (fl_ch s)"
  shows "(\<exists>rest. fl_sent s = fl_got s @ ch_inbox (fl_ch s) @ rest \<and>
            (ch_err (fl_ch s) = None \<longrightarrow> rest = concat (fl_flight s))) \<and>
         (fl_blocked s \<and> (ch_inbox (fl_ch s) \<noteq> [] \<or> ch_err (fl_ch s) \<noteq> None) \<longrightarrow>
            (\<exists>ch. Read_wake (fl_ch s) = Some ch))"
proof -
  have "flow_inv s" using assms(1) by (rule flow.holds)
  then show ?thesis using assms(2) by (simp add: flow_inv_def Read_wake_def)
qed

theorem channel_reads_in_order_witness:
  "\<not> ch_discard (fl_ch flow_demo) \<and>
   (\<exists>rest. fl_sent flow_demo = fl_got flow_demo @ ch_inbox (fl_ch flow_demo) @ rest)"
proof -
  have "\<not> ch_discard (fl_ch flow_demo)" by (simp add: flow_demo_defs)
  then show ?thesis using channel_reads_in_order [OF flow_demo_reachable] by blast
qed

end
