(* ===== verification/Mps_Conn.thy ===== *)
theory Mps_Conn
  imports Apf_Channel
begin

text \<open>
  A CIRA connection of an Intel AMT device: \<open>mps_conn.go\<close>, the message handlers of
  \<open>mps_handlers.go\<close>, the handshake of \<open>mps_handshake.go\<close> and the message loop of \<open>mps.go\<close>, all under
  \<open>server/internal/amt/transport/\<close>. The channels and the reply channels a connection creates live in
  a heap and are referred to by address, since a caller may hold a channel the connection has
  forgotten. What the code does in one critical section is one function.
\<close>

section \<open>State\<close>

record BoundPort =
  bp_Address :: bytes
  bp_Port :: "32 word"

type_synonym addr = nat

datatype open_error = OpenRejected "32 word" | OpenClosed

record openReply =
  or_channel :: "addr option"
  or_err :: "open_error option"

text \<open>
  \<open>c_channels\<close> and \<open>c_opening\<close> are Go maps, \<open>None\<close> being the nil map. \<open>c_heap\<close> holds every channel the
  connection created, \<open>c_replies\<close> the content of every one-slot reply channel. \<open>c_net\<close> is the sink
  behind \<open>netConn\<close>.
\<close>

record 'w Conn =
  c_AMTUUID :: bytes
  c_BoundPorts :: "BoundPort list"
  c_net :: 'w
  c_channels :: "(32 word, addr) gomap option"
  c_opening :: "(32 word, addr) gomap option"
  c_closed :: bool
  c_nextChanID :: "32 word"
  c_deviceID :: uuid
  c_tenantID :: uuid
  c_heap :: "Channel list"
  c_replies :: "openReply option list"

definition new_Conn :: "'w \<Rightarrow> 'w Conn" where
  "new_Conn net =
     \<lparr>c_AMTUUID = replicate 16 0, c_BoundPorts = [], c_net = net, c_channels = Some [],
      c_opening = None, c_closed = False, c_nextChanID = 0, c_deviceID = uuid_Nil,
      c_tenantID = uuid_Nil, c_heap = [], c_replies = []\<rparr>"

definition Conn_link :: "uuid \<Rightarrow> uuid \<Rightarrow> 'w Conn \<Rightarrow> 'w Conn" where
  "Conn_link deviceID tenantID c = c\<lparr>c_deviceID := deviceID, c_tenantID := tenantID\<rparr>"

definition linked :: "'w Conn \<Rightarrow> uuid \<times> uuid \<times> bool" where
  "linked c = (c_deviceID c, c_tenantID c, c_deviceID c \<noteq> uuid_Nil)"

definition conn_channel :: "'w Conn \<Rightarrow> 32 word \<Rightarrow> addr option" where
  "conn_channel c localCh = (case c_channels c of None \<Rightarrow> None | Some m \<Rightarrow> map_of m localCh)"

definition forget :: "32 word \<Rightarrow> 'w Conn \<Rightarrow> 'w Conn" where
  "forget localCh c = c\<lparr>c_channels := map_option (gomap_del localCh) (c_channels c)\<rparr>"

text \<open>An operation on one channel of the heap, and a write to the connection.\<close>

definition on_channel :: "addr \<Rightarrow> (Channel \<Rightarrow> Channel) \<Rightarrow> 'w Conn \<Rightarrow> 'w Conn" where
  "on_channel a f c = c\<lparr>c_heap := (c_heap c)[a := f (c_heap c ! a)]\<rparr>"

datatype 'e mps_error = MpsApf apf_error | MpsWrite 'e | MpsEOF | MpsUnexpected byte
  | MpsService bytes | MpsNilMap

definition put_net :: "('w \<Rightarrow> 'e option \<times> 'w) \<Rightarrow> 'w Conn \<Rightarrow> 'e mps_error option \<times> 'w Conn" where
  "put_net f c = (case f (c_net c) of (err, w) \<Rightarrow> (map_option MpsWrite err, c\<lparr>c_net := w\<rparr>))"

section \<open>Opening a channel\<close>

text \<open>
  \<open>OpenChannel\<close> up to the write of the open: a closed connection refuses; otherwise the next channel
  number is taken and a reply channel is registered under it.
\<close>

definition open_register :: "'w Conn \<Rightarrow> open_error + ((32 word \<times> addr) \<times> 'w Conn)" where
  "open_register c =
     (if c_closed c then Inl OpenClosed
      else (let localCh = c_nextChanID c; reply = length (c_replies c);
                opening = (case c_opening c of None \<Rightarrow> [] | Some m \<Rightarrow> m) in
            Inr ((localCh, reply),
                 c\<lparr>c_nextChanID := localCh + 1, c_opening := Some (gomap_put localCh reply opening),
                   c_replies := c_replies c @ [None]\<rparr>)))"

definition open_write ::
  "('e, 'w) writer \<Rightarrow> bytes \<Rightarrow> 16 word \<Rightarrow> 32 word \<Rightarrow> 'w Conn \<Rightarrow> 'e mps_error option \<times> 'w Conn" where
  "open_write write targetAddr targetPort localCh =
     put_net (\<lambda>w. writeChannelOpenDirect write w localCh targetAddr targetPort)"

text \<open>Receiving from a reply channel empties its slot; sending to a full one blocks (\<open>None\<close>).\<close>

definition take_reply :: "addr \<Rightarrow> 'w Conn \<Rightarrow> (openReply \<times> 'w Conn) option" where
  "take_reply r c =
     (case c_replies c ! r of
        None \<Rightarrow> None
      | Some x \<Rightarrow> Some (x, c\<lparr>c_replies := (c_replies c)[r := None]\<rparr>))"

definition send_reply :: "addr \<Rightarrow> openReply \<Rightarrow> 'w Conn \<Rightarrow> 'w Conn option" where
  "send_reply r x c =
     (case c_replies c ! r of
        Some _ \<Rightarrow> None
      | None \<Rightarrow> Some (c\<lparr>c_replies := (c_replies c)[r := Some x]\<rparr>))"

definition abandon_delete :: "32 word \<Rightarrow> 'w Conn \<Rightarrow> 'w Conn" where
  "abandon_delete localCh c = c\<lparr>c_opening := map_option (gomap_del localCh) (c_opening c)\<rparr>"

text \<open>\<open>Channel.Close\<close>: only the call that ends the channel forgets it and tells the device.\<close>

definition Channel_Close ::
  "('e, 'w) writer \<Rightarrow> addr \<Rightarrow> 'w Conn \<Rightarrow> 'e mps_error option \<times> 'w Conn" where
  "Channel_Close write a c =
     (case Channel_end ErrClosed (c_heap c ! a) of
        (False, _) \<Rightarrow> (None, c)
      | (True, ch) \<Rightarrow>
          put_net (\<lambda>w. WriteChannelClose write w (ch_RemoteID ch))
            (forget (ch_LocalID ch) (on_channel a (\<lambda>_. ch) c)))"

definition abandon_poll :: "('e, 'w) writer \<Rightarrow> addr \<Rightarrow> 'w Conn \<Rightarrow> 'w Conn" where
  "abandon_poll write r c =
     (case take_reply r c of
        None \<Rightarrow> c
      | Some (x, c') \<Rightarrow>
          (case or_channel x of None \<Rightarrow> c' | Some a \<Rightarrow> snd (Channel_Close write a c')))"

text \<open>
  \<open>confirmOpen\<close>: the critical section, which hands back the reply to send or none, and the whole
  handler. A confirm that nobody waits for is answered with a close.
\<close>

definition confirm_lock ::
  "32 word \<Rightarrow> 32 word \<Rightarrow> 32 word \<Rightarrow> 'w Conn \<Rightarrow> (addr \<times> openReply) option \<times> 'w Conn" where
  "confirm_lock localCh remoteCh win c =
     (case c_opening c of
        None \<Rightarrow> (None, c)
      | Some m \<Rightarrow>
          (case map_of m localCh of
             None \<Rightarrow> (None, c\<lparr>c_opening := Some (gomap_del localCh m)\<rparr>)
           | Some r \<Rightarrow>
               (let a = length (c_heap c) in
                (Some (r, \<lparr>or_channel = Some a, or_err = None\<rparr>),
                 c\<lparr>c_opening := Some (gomap_del localCh m),
                   c_heap := c_heap c @ [newChannel localCh remoteCh (ascii ''direct-tcpip'') win],
                   c_channels := map_option (gomap_put localCh a) (c_channels c)\<rparr>))))"

definition confirmOpen ::
  "('e, 'w) writer \<Rightarrow> bytes \<Rightarrow> 'w Conn \<Rightarrow> ('e mps_error option \<times> 'w Conn) option" where
  "confirmOpen write payload c =
     (if length payload < 12 then Some (Some (MpsApf ErrMessageTooShort), c)
      else (let remoteCh = get_u32 (drop 4 payload) in
            case confirm_lock (get_u32 payload) remoteCh (get_u32 (drop 8 payload)) c of
              (None, c') \<Rightarrow> Some (put_net (\<lambda>w. WriteChannelClose write w remoteCh) c')
            | (Some (r, x), c') \<Rightarrow> map_option (Pair None) (send_reply r x c')))"

definition refuse_lock :: "32 word \<Rightarrow> 32 word \<Rightarrow> 'w Conn \<Rightarrow> (addr \<times> openReply) option \<times> 'w Conn" where
  "refuse_lock localCh reason c =
     (case c_opening c of
        None \<Rightarrow> (None, c)
      | Some m \<Rightarrow>
          (map_option (\<lambda>r. (r, \<lparr>or_channel = None, or_err = Some (OpenRejected reason)\<rparr>)) (map_of m localCh),
           c\<lparr>c_opening := Some (gomap_del localCh m)\<rparr>))"

definition refuseOpen :: "bytes \<Rightarrow> 'w Conn \<Rightarrow> ('e mps_error option \<times> 'w Conn) option" where
  "refuseOpen payload c =
     (if length payload < 8 then Some (Some (MpsApf ErrMessageTooShort), c)
      else (case refuse_lock (get_u32 payload) (get_u32 (drop 4 payload)) c of
              (None, c') \<Rightarrow> Some (None, c')
            | (Some (r, x), c') \<Rightarrow> map_option (Pair None) (send_reply r x c')))"

section \<open>Closing the connection\<close>

definition close_lock :: "'w Conn \<Rightarrow> (addr list \<times> addr list) \<times> 'w Conn" where
  "close_lock c =
     ((map snd (case c_channels c of None \<Rightarrow> [] | Some m \<Rightarrow> m),
       map snd (case c_opening c of None \<Rightarrow> [] | Some m \<Rightarrow> m)),
      c\<lparr>c_channels := None, c_opening := None, c_closed := True\<rparr>)"

fun close_replies :: "addr list \<Rightarrow> 'w Conn \<Rightarrow> 'w Conn option" where
  "close_replies [] c = Some c"
| "close_replies (r # rs) c =
     Option.bind (send_reply r \<lparr>or_channel = None, or_err = Some OpenClosed\<rparr> c) (close_replies rs)"

definition Conn_Close :: "'w Conn \<Rightarrow> 'w Conn option" where
  "Conn_Close c =
     (case close_lock c of
        ((chans, replies), c') \<Rightarrow>
          close_replies replies
            (fold (\<lambda>a. on_channel a (\<lambda>ch. snd (Channel_end ErrClosed ch))) chans c'))"

section \<open>Handlers\<close>

definition recordBoundPort :: "GlobalRequest \<Rightarrow> 'w Conn \<Rightarrow> 'w Conn" where
  "recordBoundPort gr c =
     (if gr_RequestName gr \<noteq> ascii ''tcpip-forward'' \<or> gr_Data gr = [] then c
      else (case ParseForwardData (gr_Data gr) of
              Inl _ \<Rightarrow> c
            | Inr (a, port) \<Rightarrow>
                c\<lparr>c_BoundPorts := c_BoundPorts c @ [\<lparr>bp_Address = a, bp_Port = port\<rparr>]\<rparr>))"

definition handleWindowAdj :: "bytes \<Rightarrow> 'w Conn \<Rightarrow> 'e mps_error option \<times> 'w Conn" where
  "handleWindowAdj payload c =
     (if length payload < 8 then (Some (MpsApf ErrMessageTooShort), c)
      else (case conn_channel c (get_u32 payload) of
              None \<Rightarrow> (None, c)
            | Some a \<Rightarrow>
                (None, on_channel a
                   (\<lambda>ch. ch\<lparr>ch_sendWindow := ch_sendWindow ch + ucast (get_u32 (drop 4 payload))\<rparr>) c)))"

text \<open>Writing to the nil map \<open>channels\<close> of a closed connection would panic (\<open>MpsNilMap\<close>).\<close>

definition handleChannelOpen ::
  "('e, 'w) writer \<Rightarrow> bytes \<Rightarrow> 'w Conn \<Rightarrow> 'e mps_error option \<times> 'w Conn" where
  "handleChannelOpen write payload c =
     (case ParseChannelOpen payload of
        Inl e \<Rightarrow> (Some (MpsApf e), c)
      | Inr co \<Rightarrow>
          (let localCh = c_nextChanID c; a = length (c_heap c);
               ch = (newChannel localCh (co_SenderChannel co) (co_ChannelType co) (co_InitialWindowSz co))
                      \<lparr>ch_discard := True\<rparr> in
           case c_channels c of
             None \<Rightarrow> (Some MpsNilMap, c\<lparr>c_nextChanID := localCh + 1\<rparr>)
           | Some m \<Rightarrow>
               put_net (\<lambda>w. WriteChannelOpenConfirm write w (co_SenderChannel co) localCh
                           DefaultWindowSize DefaultMaxPacketSize)
                 (c\<lparr>c_nextChanID := localCh + 1, c_heap := c_heap c @ [ch],
                    c_channels := Some (gomap_put localCh a m)\<rparr>)))"

definition handleChannelData ::
  "('e, 'w) writer \<Rightarrow> bytes \<Rightarrow> 'w Conn \<Rightarrow> 'e mps_error option \<times> 'w Conn" where
  "handleChannelData write payload c =
     (case ParseChannelData payload of
        Inl e \<Rightarrow> (Some (MpsApf e), c)
      | Inr cd \<Rightarrow>
          (case conn_channel c (cd_RecipientChannel cd) of
             None \<Rightarrow> (None, c)
           | Some a \<Rightarrow>
               (case deliver (cd_Data cd) (c_heap c ! a) of
                  (Inl err, ch) \<Rightarrow>
                    put_net (\<lambda>w. WriteChannelClose write w (ch_RemoteID ch))
                      (forget (ch_LocalID ch) (on_channel a (\<lambda>_. snd (Channel_end err ch)) c))
                | (Inr adjust, ch) \<Rightarrow>
                    (let c' = on_channel a (\<lambda>_. ch) c in
                     if adjust > 0
                     then put_net (\<lambda>w. WriteChannelWindowAdj write w (ch_RemoteID ch) adjust) c'
                     else (None, c')))))"

definition handleChannelClose ::
  "('e, 'w) writer \<Rightarrow> 32 word \<Rightarrow> 'w Conn \<Rightarrow> 'e mps_error option \<times> 'w Conn" where
  "handleChannelClose write localCh c =
     (case conn_channel c localCh of
        None \<Rightarrow> (None, c)
      | Some a \<Rightarrow>
          put_net (\<lambda>w. WriteChannelClose write w (ch_RemoteID (c_heap c ! a)))
            (on_channel a (\<lambda>ch. snd (Channel_end ErrEOF ch)) (forget localCh c)))"

text \<open>
  The dispatcher; \<open>None\<close> is a handler that blocks, which only a send to a full reply channel could
  cause.
\<close>

definition handleMessage ::
  "('e, 'w) writer \<Rightarrow> byte \<Rightarrow> bytes \<Rightarrow> 'w Conn \<Rightarrow> ('e mps_error option \<times> 'w Conn) option" where
  "handleMessage write msgType payload c =
     (if msgType = APFGlobalRequest then
        Some (case ParseGlobalRequest payload of
                Inl e \<Rightarrow> (Some (MpsApf e), c)
              | Inr gr \<Rightarrow>
                  (let c' = recordBoundPort gr c in
                   if gr_WantReply gr then put_net (WriteRequestSuccess write) c' else (None, c')))
      else if msgType = APFChannelOpen then Some (handleChannelOpen write payload c)
      else if msgType = APFChannelOpenConfirm then confirmOpen write payload c
      else if msgType = APFChannelOpenFailure then refuseOpen payload c
      else if msgType = APFChannelData then Some (handleChannelData write payload c)
      else if msgType = APFChannelClose then
        (if length payload < 4 then Some (Some (MpsApf ErrMessageTooShort), c)
         else Some (handleChannelClose write (get_u32 payload) c))
      else if msgType = APFChannelWindowAdj then Some (handleWindowAdj payload c)
      else if msgType = APFKeepaliveRequest then
        Some (case ParseKeepaliveRequest payload of
                Inl e \<Rightarrow> (Some (MpsApf e), c)
              | Inr ka \<Rightarrow> put_net (\<lambda>w. WriteKeepaliveReply write w (ka_Cookie ka)) c)
      else if msgType = APFDisconnect then Some (Some MpsEOF, c)
      else Some (None, c))"

section \<open>Handshake and message loop\<close>

text \<open>
  A step of the handshake takes what the device sends next and the connection, and gives a result,
  the bytes left and the connection.
\<close>

type_synonym ('e, 'a, 'w) hs = "bytes \<times> 'w Conn \<Rightarrow> ('e mps_error + 'a) \<times> bytes \<times> 'w Conn"

definition put_checked ::
  "('w \<Rightarrow> (apf_error + 'e) option \<times> 'w) \<Rightarrow> 'w Conn \<Rightarrow> 'e mps_error option \<times> 'w Conn" where
  "put_checked f c =
     (case f (c_net c) of
        (err, w) \<Rightarrow> (map_option (\<lambda>e. case e of Inl a \<Rightarrow> MpsApf a | Inr b \<Rightarrow> MpsWrite b) err, c\<lparr>c_net := w\<rparr>))"

definition expectServiceRequest :: "('e, 'w) writer \<Rightarrow> bytes \<Rightarrow> ('e, unit, 'w) hs" where
  "expectServiceRequest write expected s =
     (case s of (r, c) \<Rightarrow>
      (case ReadMessage r of
         Inl e \<Rightarrow> (Inl (MpsApf e), r, c)
       | Inr ((msgType, payload), r') \<Rightarrow>
           if msgType \<noteq> APFServiceRequest then (Inl (MpsUnexpected msgType), r', c)
           else (case ParseServiceRequest payload of
                   Inl e \<Rightarrow> (Inl (MpsApf e), r', c)
                 | Inr sr \<Rightarrow>
                     if sr_ServiceName sr \<noteq> expected then (Inl (MpsService (sr_ServiceName sr)), r', c)
                     else (case put_checked (\<lambda>w. WriteServiceAccept write w expected) c of
                             (Some e, c') \<Rightarrow> (Inl e, r', c')
                           | (None, c') \<Rightarrow> (Inr (), r', c')))))"

definition hsExchangeVersion :: "('e, 'w) writer \<Rightarrow> ('e, bytes, 'w) hs" where
  "hsExchangeVersion write s =
     (case s of (r, c) \<Rightarrow>
      (case ReadMessage r of
         Inl e \<Rightarrow> (Inl (MpsApf e), r, c)
       | Inr ((msgType, payload), r') \<Rightarrow>
           if msgType \<noteq> APFProtocolVersion then (Inl (MpsUnexpected msgType), r', c)
           else (case ParseProtocolVersion payload of
                   Inl e \<Rightarrow> (Inl (MpsApf e), r', c)
                 | Inr pv \<Rightarrow>
                     (case put_net (\<lambda>w. WriteProtocolVersion write w 1 0 0) c of
                        (Some e, c') \<Rightarrow> (Inl e, r', c')
                      | (None, c') \<Rightarrow> (Inr (ReorderIntelGUID (pv_UUID pv)), r', c')))))"

definition hsAuthService :: "('e, 'w) writer \<Rightarrow> ('e, unit, 'w) hs" where
  "hsAuthService write s =
     (case expectServiceRequest write ServiceAuth s of
        (Inl e, s') \<Rightarrow> (Inl e, s')
      | (Inr _, r, c) \<Rightarrow>
          (case ReadMessage r of
             Inl e \<Rightarrow> (Inl (MpsApf e), r, c)
           | Inr ((msgType, payload), r') \<Rightarrow>
               if msgType \<noteq> APFUserAuthRequest then (Inl (MpsUnexpected msgType), r', c)
               else (case ParseUserAuthRequest payload of
                       Inl e \<Rightarrow> (Inl (MpsApf e), r', c)
                     | Inr _ \<Rightarrow>
                         (case put_net (WriteUserAuthSuccess write) c of
                            (Some e, c') \<Rightarrow> (Inl e, r', c')
                          | (None, c') \<Rightarrow> (Inr (), r', c')))))"

definition hsPfwdService :: "('e, 'w) writer \<Rightarrow> ('e, unit, 'w) hs" where
  "hsPfwdService write s =
     (case expectServiceRequest write ServicePFwd s of
        (Inl e, s') \<Rightarrow> (Inl e, s')
      | (Inr _, r, c) \<Rightarrow>
          (case ReadMessage r of
             Inl e \<Rightarrow> (Inl (MpsApf e), r, c)
           | Inr ((msgType, payload), r') \<Rightarrow>
               if msgType \<noteq> APFGlobalRequest then (Inl (MpsUnexpected msgType), r', c)
               else (case ParseGlobalRequest payload of
                       Inl e \<Rightarrow> (Inl (MpsApf e), r', c)
                     | Inr gr \<Rightarrow>
                         (let c1 = recordBoundPort gr c in
                          if gr_WantReply gr then
                            (case put_net (WriteRequestSuccess write) c1 of
                               (Some e, c') \<Rightarrow> (Inl e, r', c')
                             | (None, c') \<Rightarrow> (Inr (), r', c'))
                          else (Inr (), r', c1)))))"

text \<open>\<open>deadline\<close> is the error of setting the deadline on the connection, if any.\<close>

definition mps_handshake :: "('e, 'w) writer \<Rightarrow> 'e option \<Rightarrow> ('e, bytes, 'w) hs" where
  "mps_handshake write deadline s =
     (case deadline of
        Some e \<Rightarrow> (Inl (MpsWrite e), s)
      | None \<Rightarrow>
          (case hsExchangeVersion write s of
             (Inl e, s1) \<Rightarrow> (Inl e, s1)
           | (Inr amtUUID, s1) \<Rightarrow>
               (case hsAuthService write s1 of
                  (Inl e, s2) \<Rightarrow> (Inl e, s2)
                | (Inr _, s2) \<Rightarrow>
                    (case hsPfwdService write s2 of
                       (Inl e, s3) \<Rightarrow> (Inl e, s3)
                     | (Inr _, s3) \<Rightarrow> (Inr amtUUID, s3)))))"

text \<open>
  The message loop. \<open>stop\<close> says at which turn the context is found cancelled or the read deadline
  cannot be set; \<open>env\<close> is what the other goroutines did to the connection since the last turn. The
  loop ends because every message takes at least its type byte off the stream.
\<close>

lemma ReadMessage_consumes: "ReadMessage r = Inr (m, r') \<Longrightarrow> length r' < length r"
  using ReadMessage_D [of r m r'] by (simp add: apf_message_bytes_def)

function messageLoop ::
  "('e, 'w) writer \<Rightarrow> (nat \<Rightarrow> bool) \<Rightarrow> (nat \<Rightarrow> 'w Conn \<Rightarrow> 'w Conn) \<Rightarrow> nat \<Rightarrow> bytes \<Rightarrow> 'w Conn \<Rightarrow>
     'w Conn option" where
  "messageLoop write stop env turn r c0 =
     (let c = env turn c0 in
      if stop turn then Some c
      else (case ReadMessage r of
              Inl _ \<Rightarrow> Some c
            | Inr ((msgType, payload), r') \<Rightarrow>
                (case handleMessage write msgType payload c of
                   None \<Rightarrow> None
                 | Some (Some _, c') \<Rightarrow> Some c'
                 | Some (None, c') \<Rightarrow> messageLoop write stop env (Suc turn) r' c')))"
  by pat_completeness auto
termination
  by (relation "measure (\<lambda>(_, _, _, _, r, _). length r)") (auto dest: ReadMessage_consumes)

declare messageLoop.simps [simp del]

end
