(* ===== verification/Mps_Handlers.thy ===== *)
theory Mps_Handlers
  imports Mps_Conn
begin

text \<open>
  Properties of the CIRA handshake and of the message loop: which streams the handshake accepts and
  what it answers, that the handlers never refuse a message the reader accepted, and that the loop
  is the sequence of its handlers.
\<close>

section \<open>Payloads of accepted messages\<close>

lemma apf_body_service:
  "apf_body APFServiceRequest p \<Longrightarrow> \<exists>s. length s \<le> maxAPFStringLen \<and> p = apf_string s"
  by (cases rule: apf_body.cases) (auto simp: apf_types fixed_bodies_def)

lemma apf_body_auth:
  "apf_body APFUserAuthRequest p \<Longrightarrow>
     \<exists>u s m. length u \<le> maxAPFStringLen \<and> length s \<le> maxAPFStringLen \<and>
       length m \<le> maxAPFStringLen \<and> p = apf_string u @ apf_string s @ apf_string m"
  by (cases rule: apf_body.cases) (auto simp: apf_types fixed_bodies_def)

lemma apf_body_global:
  "apf_body APFGlobalRequest p \<Longrightarrow> \<exists>n b d. length n \<le> maxAPFStringLen \<and> p = apf_string n @ b # d"
  by (cases rule: apf_body.cases) (auto simp: apf_types fixed_bodies_def dest: names_short)

lemma apf_body_open:
  assumes "apf_body APFChannelOpen p"
  shows "\<exists>n a b c d. length n \<le> maxAPFStringLen \<and>
       p = apf_string n @ put_u32 a @ put_u32 b @ put_u32 c @ d"
  using assms
proof (cases rule: apf_body.cases)
  case (body_open c sender window maxPkt)
  then show ?thesis by (metis append_Nil2)
next
  case (body_open_tcpip c a o' sender window maxPkt port oport)
  then show ?thesis using names_short(2) by blast
qed (auto simp: apf_types fixed_bodies_def)

lemma apf_body_data:
  "apf_body APFChannelData p \<Longrightarrow> \<exists>ch d. length d \<le> maxChannelData \<and> p = put_u32 ch @ apf_string d"
  by (cases rule: apf_body.cases) (auto simp: apf_types fixed_bodies_def)

lemma apf_body_fixed_length:
  "apf_body t p \<Longrightarrow> (t, n) \<in> set fixed_bodies \<Longrightarrow> length p = n"
  by (cases rule: apf_body.cases) (auto simp: apf_types fixed_bodies_def)

lemma body_parses:
  "apf_body APFServiceRequest p \<Longrightarrow> \<exists>x. ParseServiceRequest p = Inr x"
  "apf_body APFUserAuthRequest p \<Longrightarrow> \<exists>x. ParseUserAuthRequest p = Inr x"
  "apf_body APFGlobalRequest p \<Longrightarrow> \<exists>x. ParseGlobalRequest p = Inr x"
  "apf_body APFChannelOpen p \<Longrightarrow> \<exists>x. ParseChannelOpen p = Inr x"
  "apf_body APFChannelData p \<Longrightarrow> \<exists>x. ParseChannelData p = Inr x"
  using ParseServiceRequest_ok ParseUserAuthRequest_ok ParseGlobalRequest_ok ParseChannelOpen_ok
    ParseChannelData_ok short_u32(2)
  by (blast dest: apf_body_service apf_body_auth apf_body_global apf_body_open apf_body_data)+

lemma ParseServiceRequest_name:
  assumes "apf_body APFServiceRequest p" "ParseServiceRequest p = Inr sr"
  shows "sr_ServiceName sr = s \<longleftrightarrow> p = apf_string s"
proof -
  obtain s' where "length s' \<le> maxAPFStringLen" "p = apf_string s'"
    using apf_body_service [OF assms(1)] by blast
  then show ?thesis
    using assms(2) by (auto simp: ParseServiceRequest_ok) (metis apf_string_def append_eq_append_conv length_put_u32)
qed

lemma ReadMessage_bodyD: "ReadMessage r = Inr ((t, p), r') \<Longrightarrow> apf_body t p"
  using ReadMessage_D [of r "(t, p)" r'] by (simp add: apf_message_ok_def)

section \<open>The handshake\<close>

lemma put_net_buffer:
  "f (c_net c) = (None, w) \<Longrightarrow> put_net f c = (None, c\<lparr>c_net := w\<rparr>)"
  by (simp add: put_net_def)

lemma expectServiceRequest_iff:
  assumes "length expected \<le> maxAPFStringLen"
  shows "expectServiceRequest (buffer_write :: ('e, bytes) writer) expected (r, c) = (Inr x, r', c') \<longleftrightarrow>
     ReadMessage r = Inr ((APFServiceRequest, apf_string expected), r') \<and>
     c' = c\<lparr>c_net := c_net c @ APFServiceAccept # apf_string expected\<rparr>"
proof (cases "ReadMessage r")
  case (Inl e)
  then show ?thesis by (simp add: expectServiceRequest_def)
next
  case (Inr m)
  obtain t p r1 where m: "m = ((t, p), r1)" by (metis surj_pair)
  show ?thesis
  proof (cases "t = APFServiceRequest")
    case False
    then show ?thesis using Inr m by (auto simp: expectServiceRequest_def)
  next
    case True
    then have b: "apf_body APFServiceRequest p" using ReadMessage_bodyD Inr m by blast
    then obtain sr where sr: "ParseServiceRequest p = Inr sr" using body_parses(1) by blast
    show ?thesis using assms Inr m True ParseServiceRequest_name [OF b sr, of expected]
      by (auto simp: expectServiceRequest_def sr put_checked_def WriteServiceAccept_def
          writeStringMsg_def buffer_write_def apf_string_def)
  qed
qed

lemma expectServiceRequest_ok:
  assumes "length expected \<le> maxAPFStringLen"
    and "ReadMessage r = Inr ((APFServiceRequest, apf_string expected), r')"
  shows "expectServiceRequest buffer_write expected (r, c) =
     (Inr (), r', c\<lparr>c_net := c_net c @ APFServiceAccept # apf_string expected\<rparr>)"
  using assms by (simp add: expectServiceRequest_iff)

lemma hsExchangeVersion_iff:
  "hsExchangeVersion buffer_write (r, c) = (Inr u, r', c') \<longleftrightarrow>
     (\<exists>p. ReadMessage r = Inr ((APFProtocolVersion, p), r') \<and> u = ReorderIntelGUID (drop 12 p)) \<and>
     c' = c\<lparr>c_net := c_net c @ APFProtocolVersion # put_u32 1 @ put_u32 0 @ put_u32 0 @ replicate 16 0\<rparr>"
proof (cases "ReadMessage r")
  case (Inl e)
  then show ?thesis by (simp add: hsExchangeVersion_def)
next
  case (Inr m)
  obtain t p r1 where m: "m = ((t, p), r1)" by (metis surj_pair)
  show ?thesis
  proof (cases "t = APFProtocolVersion")
    case False
    then show ?thesis using Inr m by (auto simp: hsExchangeVersion_def)
  next
    case True
    then have "length p = 28"
      using apf_body_fixed_length [of t p 28] ReadMessage_bodyD Inr m by (simp add: fixed_bodies_def)
    then show ?thesis using Inr m True
      by (auto simp: hsExchangeVersion_def ParseProtocolVersion_def WriteProtocolVersion_def
          put_net_def buffer_write_def)
  qed
qed

lemma service_names: "length ServiceAuth \<le> maxAPFStringLen" "length ServicePFwd \<le> maxAPFStringLen"
  by (simp_all add: ServiceAuth_def ServicePFwd_def maxAPFStringLen_def)

lemma hsAuthService_iff:
  "hsAuthService (buffer_write :: ('e, bytes) writer) (r, c) = (Inr x, r', c') \<longleftrightarrow>
     (\<exists>r1 p. ReadMessage r = Inr ((APFServiceRequest, apf_string ServiceAuth), r1) \<and>
        ReadMessage r1 = Inr ((APFUserAuthRequest, p), r')) \<and>
     c' = c\<lparr>c_net := c_net c @ APFServiceAccept # apf_string ServiceAuth @ [APFUserAuthSuccess]\<rparr>"
  (is "?L \<longleftrightarrow> ?R")
proof
  assume L: ?L
  obtain v r1 c1 where v: "expectServiceRequest (buffer_write :: ('e, bytes) writer) ServiceAuth (r, c) = (v, r1, c1)"
    by (metis surj_pair)
  with L obtain u where e: "expectServiceRequest (buffer_write :: ('e, bytes) writer) ServiceAuth (r, c) = (Inr u, r1, c1)"
    by (cases v) (auto simp: hsAuthService_def)
  with L show ?R using expectServiceRequest_iff [OF service_names(1), of r c u r1 c1]
    by (auto simp: hsAuthService_def put_net_def WriteUserAuthSuccess_def buffer_write_def
        split: sum.splits prod.splits if_splits)
next
  assume R: ?R
  then obtain r1 p where r1: "ReadMessage r = Inr ((APFServiceRequest, apf_string ServiceAuth), r1)"
    and p: "ReadMessage r1 = Inr ((APFUserAuthRequest, p), r')" by blast
  obtain ua where "ParseUserAuthRequest p = Inr ua"
    using body_parses(2) ReadMessage_bodyD [OF p] by blast
  then show ?L
    using R p by (simp add: hsAuthService_def expectServiceRequest_ok [OF service_names(1) r1]
        put_net_def WriteUserAuthSuccess_def) (simp add: buffer_write_def)
qed

text \<open>What the connection becomes when the forward request of the handshake is answered.\<close>

definition forward_answered :: "GlobalRequest \<Rightarrow> bytes Conn \<Rightarrow> bytes Conn" where
  "forward_answered gr c =
     (recordBoundPort gr c)\<lparr>c_net := c_net c @ (if gr_WantReply gr then [APFRequestSuccess] else [])\<rparr>"

lemma recordBoundPort_net [simp]: "c_net (recordBoundPort gr c) = c_net c"
  by (simp add: recordBoundPort_def split: sum.splits prod.splits)

lemma forward_put:
  "(if gr_WantReply gr then
      case put_net (WriteRequestSuccess buffer_write) (recordBoundPort gr c) of
        (Some e, c') \<Rightarrow> (Inl e, r, c') | (None, c') \<Rightarrow> (Inr (), r, c')
    else (Inr (), r, recordBoundPort gr c)) = (Inr (), r, forward_answered gr c)"
  by (simp add: put_net_def WriteRequestSuccess_def buffer_write_def forward_answered_def)

lemma hsPfwdService_iff:
  "hsPfwdService (buffer_write :: ('e, bytes) writer) (r, c) = (Inr x, r', c') \<longleftrightarrow>
     (\<exists>r1 p gr. ReadMessage r = Inr ((APFServiceRequest, apf_string ServicePFwd), r1) \<and>
        ReadMessage r1 = Inr ((APFGlobalRequest, p), r') \<and> ParseGlobalRequest p = Inr gr \<and>
        c' = forward_answered gr (c\<lparr>c_net := c_net c @ APFServiceAccept # apf_string ServicePFwd\<rparr>))"
  (is "?L \<longleftrightarrow> ?R")
proof
  assume L: ?L
  obtain v r1 c1 where v: "expectServiceRequest (buffer_write :: ('e, bytes) writer) ServicePFwd (r, c) = (v, r1, c1)"
    by (metis surj_pair)
  with L obtain u where e: "expectServiceRequest (buffer_write :: ('e, bytes) writer) ServicePFwd (r, c) = (Inr u, r1, c1)"
    by (cases v) (auto simp: hsPfwdService_def)
  with L show ?R using expectServiceRequest_iff [OF service_names(2), of r c u r1 c1]
    by (auto simp: hsPfwdService_def Let_def forward_put split: sum.splits prod.splits if_splits)
next
  assume ?R
  then show ?L
    by (auto simp: hsPfwdService_def Let_def forward_put expectServiceRequest_ok [OF service_names(2)])
qed

lemma read_n_Suc_iff:
  "read_n dec (Suc n) r = Inr (x # xs, rest) \<longleftrightarrow>
     (\<exists>r1. dec r = Inr (x, r1) \<and> read_n dec n r1 = Inr (xs, rest))"
  by (auto split: sum.splits)

text \<open>The answers of the server up to the forward request.\<close>

definition handshake_replies :: bytes where
  "handshake_replies =
     APFProtocolVersion # put_u32 1 @ put_u32 0 @ put_u32 0 @ replicate 16 0 @
     APFServiceAccept # apf_string ServiceAuth @ [APFUserAuthSuccess] @
     APFServiceAccept # apf_string ServicePFwd"

text \<open>
  C20. The CIRA handshake succeeds on exactly the streams that begin with the device's five messages in
  order (version, auth service, user authentication, port-forwarding service, global request), leaves
  what follows unread, gives the device's GUID in standard byte order, answers each message, and
  records the port of a forward request.
\<close>

theorem handshake_accepts_iff:
  "mps_handshake (buffer_write :: ('e, bytes) writer) None (r, c) = (Inr u, rest, c') \<longleftrightarrow>
     (\<exists>pv ua g gr.
        read_n ReadMessage 5 r =
          Inr ([(APFProtocolVersion, pv), (APFServiceRequest, apf_string ServiceAuth),
                (APFUserAuthRequest, ua), (APFServiceRequest, apf_string ServicePFwd),
                (APFGlobalRequest, g)], rest) \<and>
        u = ReorderIntelGUID (drop 12 pv) \<and> ParseGlobalRequest g = Inr gr \<and>
        c' = forward_answered gr (c\<lparr>c_net := c_net c @ handshake_replies\<rparr>))"
  (is "?L \<longleftrightarrow> ?R")
proof -
  let ?bw = "buffer_write :: ('e, bytes) writer"
  have "?L \<longleftrightarrow> (\<exists>r1 c1 x r2 c2 y. hsExchangeVersion ?bw (r, c) = (Inr u, r1, c1) \<and>
      hsAuthService ?bw (r1, c1) = (Inr x, r2, c2) \<and> hsPfwdService ?bw (r2, c2) = (Inr y, rest, c'))"
    by (auto simp: mps_handshake_def split: sum.splits prod.splits)
  also have "\<dots> \<longleftrightarrow> ?R"
    unfolding hsExchangeVersion_iff hsAuthService_iff hsPfwdService_iff
    by (auto simp: eval_nat_numeral read_n_Suc_iff handshake_replies_def simp del: read_n.simps(2))
  finally show ?thesis .
qed

section \<open>The message loop\<close>

lemma put_net_no_apf [simp]: "put_net f c \<noteq> (Some (MpsApf e), c')"
  by (cases "f (c_net c)") (auto simp: put_net_def)

lemma fixed_long:
  "apf_body APFChannelOpenConfirm p \<Longrightarrow> length p = 16"
  "apf_body APFChannelOpenFailure p \<Longrightarrow> length p = 8"
  "apf_body APFChannelClose p \<Longrightarrow> length p = 4"
  "apf_body APFChannelWindowAdj p \<Longrightarrow> length p = 8"
  "apf_body APFKeepaliveRequest p \<Longrightarrow> length p = 4"
  by (auto dest!: apf_body_fixed_length simp: fixed_bodies_def)

lemma confirmOpen_no_apf:
  "12 \<le> length p \<Longrightarrow> confirmOpen write p c \<noteq> Some (Some (MpsApf e), c')"
  by (auto simp: confirmOpen_def Let_def split: prod.splits option.splits)

lemma refuseOpen_no_apf:
  "8 \<le> length p \<Longrightarrow> refuseOpen p c \<noteq> Some (Some (MpsApf e), c')"
  by (auto simp: refuseOpen_def split: prod.splits option.splits)

lemma handleChannelOpen_no_apf:
  "ParseChannelOpen p = Inr co \<Longrightarrow> handleChannelOpen write p c \<noteq> (Some (MpsApf e), c')"
  by (auto simp: handleChannelOpen_def Let_def split: option.splits)

lemma handleChannelData_no_apf:
  "ParseChannelData p = Inr cd \<Longrightarrow> handleChannelData write p c \<noteq> (Some (MpsApf e), c')"
  by (auto simp: handleChannelData_def Let_def split: option.splits prod.splits sum.splits if_splits)

lemma handleChannelClose_no_apf: "handleChannelClose write ch c \<noteq> (Some (MpsApf e), c')"
  by (auto simp: handleChannelClose_def split: option.splits)

lemma handleWindowAdj_no_apf:
  "8 \<le> length p \<Longrightarrow> handleWindowAdj p c \<noteq> (Some (MpsApf e), c')"
  by (auto simp: handleWindowAdj_def split: option.splits)

lemma handle_body_no_apf:
  assumes b: "apf_body t p"
  shows "handleMessage write t p c \<noteq> Some (Some (MpsApf e), c')"
proof -
  consider "t = APFGlobalRequest" | "t = APFChannelOpen" | "t = APFChannelOpenConfirm"
    | "t = APFChannelOpenFailure" | "t = APFChannelData" | "t = APFChannelClose"
    | "t = APFChannelWindowAdj" | "t = APFKeepaliveRequest"
    | "t \<notin> {APFGlobalRequest, APFChannelOpen, APFChannelOpenConfirm, APFChannelOpenFailure,
             APFChannelData, APFChannelClose, APFChannelWindowAdj, APFKeepaliveRequest}"
    by blast
  then show ?thesis
  proof cases
    case 1
    then obtain gr where "ParseGlobalRequest p = Inr gr" using body_parses(3) b by blast
    then show ?thesis using 1 by (simp add: handleMessage_def Let_def)
  next
    case 2
    then obtain co where "ParseChannelOpen p = Inr co" using body_parses(4) b by blast
    then show ?thesis using 2 handleChannelOpen_no_apf by (simp add: handleMessage_def apf_types) blast
  next
    case 3
    then show ?thesis using b fixed_long(1) [of p] confirmOpen_no_apf [of p]
      by (simp add: handleMessage_def apf_types)
  next
    case 4
    then show ?thesis using b fixed_long(2) [of p] refuseOpen_no_apf [of p]
      by (simp add: handleMessage_def apf_types)
  next
    case 5
    then obtain cd where "ParseChannelData p = Inr cd" using body_parses(5) b by blast
    then show ?thesis using 5 handleChannelData_no_apf by (simp add: handleMessage_def apf_types) blast
  next
    case 6
    then show ?thesis using b fixed_long(3) [of p] by (simp add: handleMessage_def apf_types handleChannelClose_no_apf)
  next
    case 7
    then show ?thesis using b fixed_long(4) [of p] by (simp add: handleMessage_def apf_types handleWindowAdj_no_apf)
  next
    case 8
    then show ?thesis using b fixed_long(5) [of p]
      by (simp add: handleMessage_def apf_types ParseKeepaliveRequest_def)
  next
    case 9
    then show ?thesis by (simp add: handleMessage_def)
  qed
qed

text \<open>
  The parsers of the handlers are total on what the reader accepts: no message that \<open>ReadMessage\<close>
  returned is refused as too short by its handler, so a device's connection is never dropped for a
  message that was read whole.
\<close>

lemma accepted_message_is_handled:
  assumes "ReadMessage r = Inr ((t, p), rest)"
  shows "handleMessage write t p c \<noteq> Some (Some (MpsApf e), c')"
  using ReadMessage_bodyD [OF assms] by (rule handle_body_no_apf)

text \<open>The loop over a list of messages: handler by handler until one ends it.\<close>

fun handle_all ::
  "('e, 'w) writer \<Rightarrow> (nat \<Rightarrow> bool) \<Rightarrow> (nat \<Rightarrow> 'w Conn \<Rightarrow> 'w Conn) \<Rightarrow> nat \<Rightarrow> (byte \<times> bytes) list \<Rightarrow>
     'w Conn \<Rightarrow> 'w Conn option" where
  "handle_all write stop env turn [] c = Some (env turn c)"
| "handle_all write stop env turn ((t, p) # ms) c =
     (if stop turn then Some (env turn c)
      else (case handleMessage write t p (env turn c) of
              None \<Rightarrow> None
            | Some (Some _, c') \<Rightarrow> Some c'
            | Some (None, c') \<Rightarrow> handle_all write stop env (Suc turn) ms c'))"

text \<open>
  The message loop on a stream is the sequence of its handlers: on the encodings of any list of
  well-formed messages it runs the handlers in order, one turn each, until a handler fails, the
  context ends or the stream is used up, whatever other goroutines do to the connection between two
  turns.
\<close>

lemma messageLoop_runs_handlers:
  assumes "list_all apf_message_ok ms"
  shows "messageLoop write stop env turn (concat (map apf_message_bytes ms)) c =
         handle_all write stop env turn ms c"
  using assms
proof (induction ms arbitrary: turn c)
  case Nil
  then show ?case by (subst messageLoop.simps) (simp add: Let_def ReadMessage_def read_full_def)
next
  case (Cons m ms)
  obtain t p where m: "m = (t, p)" by fastforce
  have "ReadMessage (apf_message_bytes m @ concat (map apf_message_bytes ms))
      = Inr (m, concat (map apf_message_bytes ms))"
    using Cons.prems by (intro apf.dec_enc) simp
  then show ?case using Cons m
    by (subst messageLoop.simps) (auto simp: Let_def split: option.splits)
qed

end
