(* ===== verification/Mps_Open.thy ===== *)
theory Mps_Open
  imports Mps_Conn
begin

text \<open>
  Channel opens against the message loop: any number of goroutines in \<open>OpenChannel\<close>
  (\<open>server/internal/amt/transport/mps_conn.go\<close>), the loop that routes the device's answers to them
  and the close of the connection, interleaved at their critical sections and channel operations.
\<close>

section \<open>The goroutines\<close>

text \<open>
  Where an \<open>OpenChannel\<close> call stands: about to write the open, waiting for the reply, about to delete
  its entry or to poll its reply in \<open>abandonOpen\<close>, or returned with a channel or an error. The reply
  channel of the \<open>i\<close>-th call is the one at address \<open>i\<close>.
\<close>

datatype opener =
    OpWrite (op_id: "32 word")
  | OpWait (op_id: "32 word")
  | OpDelete (op_id: "32 word")
  | OpPoll (op_id: "32 word")
  | OpGot (op_id: "32 word") (op_channel: addr)
  | OpFail (op_id: "32 word")

text \<open>Where the loop stands: reading, about to send a reply, or closing with replies left to send.\<close>

datatype loop_pc = LRead | LSend addr openReply | LClosing "addr list"

record 'w open_state =
  o_conn :: "'w Conn"
  o_loop :: loop_pc
  o_ops :: "opener list"

definition closed_reply :: openReply where
  "closed_reply = \<lparr>or_channel = None, or_err = Some OpenClosed\<rparr>"

definition reply_result :: "32 word \<Rightarrow> openReply \<Rightarrow> opener" where
  "reply_result i x = (case or_channel x of Some a \<Rightarrow> OpGot i a | None \<Rightarrow> OpFail i)"

definition opens_start :: "'w open_state \<Rightarrow> bool" where
  "opens_start s \<longleftrightarrow> (\<exists>net. s = \<lparr>o_conn = new_Conn net, o_loop = LRead, o_ops = []\<rparr>)"

inductive opens_step :: "('e, 'w) writer \<Rightarrow> 'w open_state \<Rightarrow> 'w open_state \<Rightarrow> bool" for wr where
  open_starts:
    "open_register (o_conn s) = Inr ((i, r), c) \<Longrightarrow>
       opens_step wr s (s\<lparr>o_conn := c, o_ops := o_ops s @ [OpWrite i]\<rparr>)"
| open_writes:
    "r < length (o_ops s) \<Longrightarrow> o_ops s ! r = OpWrite i \<Longrightarrow> open_write wr a port i (o_conn s) = (err, c) \<Longrightarrow>
       opens_step wr s
         (s\<lparr>o_conn := c, o_ops := (o_ops s)[r := if err = None then OpWait i else OpDelete i]\<rparr>)"
| open_answered:
    "r < length (o_ops s) \<Longrightarrow> o_ops s ! r = OpWait i \<Longrightarrow> take_reply r (o_conn s) = Some (x, c) \<Longrightarrow>
       opens_step wr s (s\<lparr>o_conn := c, o_ops := (o_ops s)[r := reply_result i x]\<rparr>)"
| open_gives_up:
    "r < length (o_ops s) \<Longrightarrow> o_ops s ! r = OpWait i \<Longrightarrow>
       opens_step wr s (s\<lparr>o_ops := (o_ops s)[r := OpDelete i]\<rparr>)"
| open_deletes:
    "r < length (o_ops s) \<Longrightarrow> o_ops s ! r = OpDelete i \<Longrightarrow>
       opens_step wr s (s\<lparr>o_conn := abandon_delete i (o_conn s), o_ops := (o_ops s)[r := OpPoll i]\<rparr>)"
| open_polls:
    "r < length (o_ops s) \<Longrightarrow> o_ops s ! r = OpPoll i \<Longrightarrow>
       opens_step wr s (s\<lparr>o_conn := abandon_poll wr r (o_conn s), o_ops := (o_ops s)[r := OpFail i]\<rparr>)"
| loop_confirms:
    "o_loop s = LRead \<Longrightarrow> confirm_lock i rm win (o_conn s) = (Some (r, x), c) \<Longrightarrow>
       opens_step wr s (s\<lparr>o_conn := c, o_loop := LSend r x\<rparr>)"
| loop_confirms_none:
    "o_loop s = LRead \<Longrightarrow> confirm_lock i rm win (o_conn s) = (None, c) \<Longrightarrow>
       opens_step wr s (s\<lparr>o_conn := snd (put_net (\<lambda>w. WriteChannelClose wr w rm) c)\<rparr>)"
| loop_refuses:
    "o_loop s = LRead \<Longrightarrow> refuse_lock i reason (o_conn s) = (Some (r, x), c) \<Longrightarrow>
       opens_step wr s (s\<lparr>o_conn := c, o_loop := LSend r x\<rparr>)"
| loop_refuses_none:
    "o_loop s = LRead \<Longrightarrow> refuse_lock i reason (o_conn s) = (None, c) \<Longrightarrow>
       opens_step wr s (s\<lparr>o_conn := c\<rparr>)"
| loop_sends:
    "o_loop s = LSend r x \<Longrightarrow> send_reply r x (o_conn s) = Some c \<Longrightarrow>
       opens_step wr s (s\<lparr>o_conn := c, o_loop := LRead\<rparr>)"
| loop_opens:
    "o_loop s = LRead \<Longrightarrow> opens_step wr s (s\<lparr>o_conn := snd (handleChannelOpen wr p (o_conn s))\<rparr>)"
| loop_data:
    "o_loop s = LRead \<Longrightarrow> opens_step wr s (s\<lparr>o_conn := snd (handleChannelData wr p (o_conn s))\<rparr>)"
| loop_close:
    "o_loop s = LRead \<Longrightarrow> opens_step wr s (s\<lparr>o_conn := snd (handleChannelClose wr i (o_conn s))\<rparr>)"
| loop_adjust:
    "o_loop s = LRead \<Longrightarrow>
       opens_step wr s (s\<lparr>o_conn := snd (handleWindowAdj p (o_conn s) :: 'e mps_error option \<times> 'w Conn)\<rparr>)"
| conn_closes:
    "o_loop s = LRead \<Longrightarrow> close_lock (o_conn s) = ((chans, rs), c) \<Longrightarrow>
       opens_step wr s
         (s\<lparr>o_conn := fold (\<lambda>a. on_channel a (\<lambda>ch. snd (Channel_end ErrClosed ch))) chans c,
            o_loop := LClosing rs\<rparr>)"
| conn_close_sends:
    "o_loop s = LClosing (r # rs) \<Longrightarrow> send_reply r closed_reply (o_conn s) = Some c \<Longrightarrow>
       opens_step wr s (s\<lparr>o_conn := c, o_loop := LClosing rs\<rparr>)"
| caller_reads:
    "r < length (o_ops s) \<Longrightarrow> o_ops s ! r = OpGot i a \<Longrightarrow>
       opens_step wr s (s\<lparr>o_conn := on_channel a (\<lambda>ch. snd (Read_turn n ch)) (o_conn s)\<rparr>)"
| caller_closes:
    "r < length (o_ops s) \<Longrightarrow> o_ops s ! r = OpGot i a \<Longrightarrow>
       opens_step wr s (s\<lparr>o_conn := snd (Channel_Close wr a (o_conn s))\<rparr>)"

section \<open>The invariant\<close>

definition opening_of :: "'w Conn \<Rightarrow> (32 word, addr) gomap" where
  "opening_of c = (case c_opening c of None \<Rightarrow> [] | Some m \<Rightarrow> m)"

text \<open>How many sends to a reply channel are still to come or are waiting in its slot.\<close>

definition loop_senders :: "loop_pc \<Rightarrow> addr \<Rightarrow> nat" where
  "loop_senders l r =
     (case l of LRead \<Rightarrow> 0 | LSend r' _ \<Rightarrow> (if r' = r then 1 else 0) | LClosing rs \<Rightarrow> count_list rs r)"

definition loop_targets :: "loop_pc \<Rightarrow> addr set" where
  "loop_targets l = (case l of LRead \<Rightarrow> {} | LSend r _ \<Rightarrow> {r} | LClosing rs \<Rightarrow> set rs)"

definition senders :: "'w Conn \<Rightarrow> loop_pc \<Rightarrow> addr \<Rightarrow> nat" where
  "senders c l r =
     count_list (map snd (opening_of c)) r + loop_senders l r + (if c_replies c ! r = None then 0 else 1)"

text \<open>A reply for the call numbered \<open>i\<close>: its channel is one opened under that number.\<close>

definition reply_for :: "Channel list \<Rightarrow> 32 word \<Rightarrow> openReply \<Rightarrow> bool" where
  "reply_for heap i x \<longleftrightarrow>
     (case or_channel x of None \<Rightarrow> True
      | Some a \<Rightarrow> a < length heap \<and> ch_LocalID (heap ! a) = i \<and> \<not> ch_discard (heap ! a))"

text \<open>
  The invariant in three parts: every reply channel gets at most one send; an entry of \<open>opening\<close>
  belongs to the call with that number; every reply, waiting or received, is for its own call.
\<close>

definition sends_once :: "'w open_state \<Rightarrow> bool" where
  "sends_once s \<longleftrightarrow>
     length (c_replies (o_conn s)) = length (o_ops s) \<and>
     (\<forall>r < length (o_ops s). senders (o_conn s) (o_loop s) r \<le> 1) \<and>
     loop_targets (o_loop s) \<subseteq> {..<length (o_ops s)}"

definition entries_own :: "'w open_state \<Rightarrow> bool" where
  "entries_own s \<longleftrightarrow>
     (\<forall>e \<in> set (opening_of (o_conn s)). snd e < length (o_ops s) \<and> op_id (o_ops s ! snd e) = fst e)"

definition replies_match :: "'w open_state \<Rightarrow> bool" where
  "replies_match s \<longleftrightarrow>
     (\<forall>r x. o_loop s = LSend r x \<longrightarrow> reply_for (c_heap (o_conn s)) (op_id (o_ops s ! r)) x) \<and>
     (\<forall>r x. r < length (o_ops s) \<longrightarrow> c_replies (o_conn s) ! r = Some x \<longrightarrow>
        reply_for (c_heap (o_conn s)) (op_id (o_ops s ! r)) x) \<and>
     (\<forall>r i a. r < length (o_ops s) \<longrightarrow> o_ops s ! r = OpGot i a \<longrightarrow>
        reply_for (c_heap (o_conn s)) i \<lparr>or_channel = Some a, or_err = None\<rparr>)"

definition opens_inv :: "'w open_state \<Rightarrow> bool" where
  "opens_inv s \<longleftrightarrow> sends_once s \<and> entries_own s \<and> replies_match s"

lemmas opens_inv_defs = opens_inv_def sends_once_def entries_own_def replies_match_def

text \<open>
  Everything that happens to the heap adds channels or leaves the number and the direction of the
  channels it holds alone.
\<close>

definition heap_grows :: "Channel list \<Rightarrow> Channel list \<Rightarrow> bool" where
  "heap_grows h h' \<longleftrightarrow>
     length h \<le> length h' \<and>
     (\<forall>a < length h. ch_LocalID (h' ! a) = ch_LocalID (h ! a) \<and> ch_discard (h' ! a) = ch_discard (h ! a))"

lemma heap_grows_refl [simp]: "heap_grows h h"
  by (simp add: heap_grows_def)

lemma heap_grows_trans: "heap_grows h h' \<Longrightarrow> heap_grows h' h'' \<Longrightarrow> heap_grows h h''"
  by (auto simp: heap_grows_def)

lemma heap_grows_append [simp]: "heap_grows h (h @ chs)"
  by (simp add: heap_grows_def nth_append)

lemma heap_grows_update:
  "ch_LocalID ch = ch_LocalID (h ! a) \<Longrightarrow> ch_discard ch = ch_discard (h ! a) \<Longrightarrow> heap_grows h (h[a := ch])"
  unfolding heap_grows_def by (metis length_list_update nth_list_update_eq nth_list_update_neq order_refl)

lemma reply_for_grows: "reply_for h i x \<Longrightarrow> heap_grows h h' \<Longrightarrow> reply_for h' i x"
  by (auto simp: reply_for_def heap_grows_def split: option.splits)

text \<open>The operations that touch neither the entries nor the reply channels.\<close>

definition quiet :: "'w Conn \<Rightarrow> 'w Conn \<Rightarrow> bool" where
  "quiet c c' \<longleftrightarrow>
     c_replies c' = c_replies c \<and> opening_of c' = opening_of c \<and> heap_grows (c_heap c) (c_heap c')"

lemma quiet_trans: "quiet c c' \<Longrightarrow> quiet c' c'' \<Longrightarrow> quiet c c''"
  by (auto simp: quiet_def intro: heap_grows_trans)

lemma quiet_put_net [simp]: "quiet c (snd (put_net f c))"
  by (cases "f (c_net c)") (simp add: put_net_def quiet_def opening_of_def)

lemma quiet_forget [simp]: "quiet c (forget i c)"
  by (simp add: quiet_def forget_def opening_of_def)

lemma quiet_refl [simp]: "quiet c c"
  by (simp add: quiet_def)

lemma quiet_put_netI: "quiet c c' \<Longrightarrow> quiet c (snd (put_net f c'))"
  by (rule quiet_trans [OF _ quiet_put_net])

lemma quiet_forgetI: "quiet c c' \<Longrightarrow> quiet c (forget i c')"
  by (rule quiet_trans [OF _ quiet_forget])

lemma quiet_on_channel:
  "ch_LocalID (f (c_heap c ! a)) = ch_LocalID (c_heap c ! a) \<Longrightarrow>
   ch_discard (f (c_heap c ! a)) = ch_discard (c_heap c ! a) \<Longrightarrow> quiet c (on_channel a f c)"
  by (simp add: quiet_def on_channel_def opening_of_def heap_grows_update)

lemma Channel_end_ids [simp]:
  "ch_LocalID (snd (Channel_end e ch)) = ch_LocalID ch" "ch_discard (snd (Channel_end e ch)) = ch_discard ch"
  by (simp_all add: Channel_end_def signal_def)

lemma deliver_ids [simp]:
  "ch_LocalID (snd (deliver d ch)) = ch_LocalID ch" "ch_discard (snd (deliver d ch)) = ch_discard ch"
  by (simp_all add: deliver_def signal_def takeAdjust_def Let_def)

lemma Read_turn_ids [simp]:
  "ch_LocalID (snd (Read_turn n ch)) = ch_LocalID ch" "ch_discard (snd (Read_turn n ch)) = ch_discard ch"
  by (simp_all add: Read_turn_def takeAdjust_def Let_def split: option.splits)

lemma quiet_Channel_Close: "quiet c (snd (Channel_Close write a c))"
proof (cases "Channel_end ErrClosed (c_heap c ! a)")
  case (Pair b ch)
  then have "ch_LocalID ch = ch_LocalID (c_heap c ! a)" "ch_discard ch = ch_discard (c_heap c ! a)"
    using Channel_end_ids [of ErrClosed "c_heap c ! a"] by simp_all
  then have "quiet c (on_channel a (\<lambda>_. ch) c)" by (rule quiet_on_channel)
  then show ?thesis using Pair
    by (auto simp: Channel_Close_def split: bool.splits intro!: quiet_put_netI quiet_forgetI)
qed

lemma quiet_handleWindowAdj: "quiet c (snd (handleWindowAdj p c))"
  by (auto simp: handleWindowAdj_def split: option.splits intro: quiet_on_channel)

lemma quiet_handleChannelOpen: "quiet c (snd (handleChannelOpen write p c))"
  by (auto simp: handleChannelOpen_def Let_def split: sum.splits option.splits
      intro!: quiet_trans [OF _ quiet_put_net]) (simp_all add: quiet_def opening_of_def)

lemma quiet_handleChannelClose: "quiet c (snd (handleChannelClose write i c))"
proof (cases "conn_channel c i")
  case (Some a)
  have "quiet (forget i c) (on_channel a (\<lambda>ch. snd (Channel_end ErrEOF ch)) (forget i c))"
    by (rule quiet_on_channel) simp_all
  then show ?thesis using Some quiet_trans [OF quiet_forget]
    by (auto simp: handleChannelClose_def intro!: quiet_put_netI)
qed (simp add: handleChannelClose_def)

lemma quiet_handleChannelData: "quiet c (snd (handleChannelData write p c))"
proof (cases "ParseChannelData p")
  case (Inr cd)
  show ?thesis
  proof (cases "conn_channel c (cd_RecipientChannel cd)")
    case (Some a)
    obtain res ch where d: "deliver (cd_Data cd) (c_heap c ! a) = (res, ch)" by fastforce
    have "ch_LocalID ch = ch_LocalID (c_heap c ! a)" "ch_discard ch = ch_discard (c_heap c ! a)"
      using deliver_ids [of "cd_Data cd" "c_heap c ! a"] d by simp_all
    then have "quiet c (on_channel a (\<lambda>_. ch) c)" "quiet c (on_channel a (\<lambda>_. snd (Channel_end e ch)) c)" for e
      by (simp_all add: quiet_on_channel)
    then show ?thesis using Inr Some d
      by (auto simp: handleChannelData_def Let_def split: sum.splits
          intro!: quiet_put_netI quiet_forgetI)
  qed (simp add: handleChannelData_def Inr)
qed (simp add: handleChannelData_def)

lemma quiet_end_all: "quiet c (fold (\<lambda>a. on_channel a (\<lambda>ch. snd (Channel_end e ch))) chans c)"
proof (induction chans arbitrary: c)
  case (Cons a chans)
  then show ?case using quiet_on_channel [of "\<lambda>ch. snd (Channel_end e ch)" c a]
    by (auto intro: quiet_trans)
qed simp

section \<open>Every step keeps the invariant\<close>

lemma replies_match_grows:
  assumes "replies_match s" "heap_grows (c_heap (o_conn s)) (c_heap c)" "c_replies c = c_replies (o_conn s)"
  shows "replies_match (s\<lparr>o_conn := c\<rparr>)"
  using assms(1,3) reply_for_grows [OF _ assms(2)] by (simp add: replies_match_def)

lemma opens_inv_quiet:
  assumes "opens_inv s" "quiet (o_conn s) c"
  shows "opens_inv (s\<lparr>o_conn := c\<rparr>)"
  using assms replies_match_grows [of s c]
  by (auto simp: opens_inv_def sends_once_def entries_own_def quiet_def senders_def)

lemma opens_inv_pc:
  assumes "opens_inv s" "op_id op = op_id (o_ops s ! r)"
    and "\<And>i a. op = OpGot i a \<Longrightarrow> reply_for (c_heap (o_conn s)) i \<lparr>or_channel = Some a, or_err = None\<rparr>"
  shows "opens_inv (s\<lparr>o_ops := (o_ops s)[r := op]\<rparr>)"
proof -
  have same: "op_id ((o_ops s)[r := op] ! j) = op_id (o_ops s ! j)" if "j < length (o_ops s)" for j
    using that assms(2) by (cases "j = r") auto
  moreover have "reply_for (c_heap (o_conn s)) i \<lparr>or_channel = Some a, or_err = None\<rparr>"
    if "j < length (o_ops s)" "(o_ops s)[r := op] ! j = OpGot i a" for i j a
    using that assms(1,3) by (cases "j = r") (auto simp: opens_inv_defs)
  moreover have "j < length (o_ops s)" if "o_loop s = LSend j x" for j x
    using assms(1) that by (simp add: opens_inv_defs loop_targets_def)
  ultimately show ?thesis
    using assms(1) by (simp add: opens_inv_defs)
qed

lemma count_list_snd_filter: "count_list (map snd (filter P m)) r \<le> count_list (map snd m) r"
  by (induction m) auto

lemma count_list_snd_del:
  assumes "(i, r) \<in> set m"
  shows "Suc (count_list (map snd (gomap_del i m)) r) \<le> count_list (map snd m) r"
  using assms
proof (induction m)
  case (Cons e m)
  show ?case
  proof (cases "e = (i, r)")
    case True
    then show ?thesis using count_list_snd_filter [of "\<lambda>e. fst e \<noteq> i" m r] by (simp add: gomap_del_def)
  next
    case False
    then show ?thesis using Cons by (auto simp: gomap_del_def)
  qed
qed simp

lemma senders_shrink:
  assumes "opens_inv s" "opening_of c = filter P (opening_of (o_conn s))"
    and "c_replies c = c_replies (o_conn s)" "c_heap c = c_heap (o_conn s)"
  shows "opens_inv (s\<lparr>o_conn := c\<rparr>)"
proof -
  have "senders c (o_loop s) r \<le> senders (o_conn s) (o_loop s) r" for r
    using assms(2,3) count_list_snd_filter [of P "opening_of (o_conn s)" r] by (simp add: senders_def)
  then have "sends_once (s\<lparr>o_conn := c\<rparr>)"
    using assms(1,3) by (auto simp: opens_inv_def sends_once_def intro: order_trans)
  moreover have "entries_own (s\<lparr>o_conn := c\<rparr>)"
    using assms(1,2) by (auto simp: opens_inv_def entries_own_def)
  moreover have "replies_match (s\<lparr>o_conn := c\<rparr>)"
    using assms(1,3,4) by (simp add: opens_inv_def replies_match_def)
  ultimately show ?thesis by (simp add: opens_inv_def)
qed

lemma opens_inv_delete: "opens_inv s \<Longrightarrow> opens_inv (s\<lparr>o_conn := abandon_delete i (o_conn s)\<rparr>)"
  by (erule senders_shrink [where P = "\<lambda>e. fst e \<noteq> i"])
     (auto simp: abandon_delete_def opening_of_def gomap_del_def split: option.splits)

lemma opens_inv_refuse_none:
  "opens_inv s \<Longrightarrow> refuse_lock i reason (o_conn s) = (None, c) \<Longrightarrow> opens_inv (s\<lparr>o_conn := c\<rparr>)"
  by (erule senders_shrink [where P = "\<lambda>e. fst e \<noteq> i"])
     (auto simp: refuse_lock_def opening_of_def gomap_del_def split: option.splits)

lemma opens_inv_confirm_none:
  "opens_inv s \<Longrightarrow> confirm_lock i rm win (o_conn s) = (None, c) \<Longrightarrow> opens_inv (s\<lparr>o_conn := c\<rparr>)"
  by (erule senders_shrink [where P = "\<lambda>e. fst e \<noteq> i"])
     (auto simp: confirm_lock_def opening_of_def gomap_del_def Let_def split: option.splits)

text \<open>The loop takes an entry out of \<open>opening\<close> and is about to answer it.\<close>

lemma opens_inv_routes:
  assumes inv: "opens_inv s" and rd: "o_loop s = LRead" and m: "(i, r) \<in> set (opening_of (o_conn s))"
    and c: "opening_of c = gomap_del i (opening_of (o_conn s))" "c_replies c = c_replies (o_conn s)"
      "heap_grows (c_heap (o_conn s)) (c_heap c)"
    and x: "reply_for (c_heap c) i x"
  shows "opens_inv (s\<lparr>o_conn := c, o_loop := LSend r x\<rparr>)"
proof -
  have own: "r < length (o_ops s)" "op_id (o_ops s ! r) = i"
    using inv m by (auto simp: opens_inv_defs)
  have "senders c (LSend r x) j \<le> senders (o_conn s) LRead j" for j
    using count_list_snd_del [OF m] count_list_snd_filter [of "\<lambda>e. fst e \<noteq> i" "opening_of (o_conn s)" j] c
    by (auto simp: senders_def loop_senders_def gomap_del_def)
  then have "senders c (LSend r x) j \<le> 1" if "j < length (o_ops s)" for j
    using inv rd that by (auto simp: opens_inv_defs intro: order_trans)
  then have "sends_once (s\<lparr>o_conn := c, o_loop := LSend r x\<rparr>)"
    using inv c own by (simp add: opens_inv_def sends_once_def loop_targets_def)
  moreover have "entries_own (s\<lparr>o_conn := c, o_loop := LSend r x\<rparr>)"
    using inv c by (auto simp: opens_inv_def entries_own_def gomap_del_def)
  moreover have "replies_match (s\<lparr>o_conn := c, o_loop := LSend r x\<rparr>)"
    using inv c(2) own x reply_for_grows [OF _ c(3)] by (simp add: opens_inv_def replies_match_def)
  ultimately show ?thesis by (simp add: opens_inv_def)
qed

lemma opens_inv_confirm:
  assumes "opens_inv s" "o_loop s = LRead" "confirm_lock i rm win (o_conn s) = (Some (r, x), c)"
  shows "opens_inv (s\<lparr>o_conn := c, o_loop := LSend r x\<rparr>)"
proof (rule opens_inv_routes [OF assms(1,2), of i])
  obtain m where m: "c_opening (o_conn s) = Some m" "map_of m i = Some r"
    "x = \<lparr>or_channel = Some (length (c_heap (o_conn s))), or_err = None\<rparr>"
    "opening_of c = gomap_del i m" "c_replies c = c_replies (o_conn s)"
    "c_heap c = c_heap (o_conn s) @ [newChannel i rm (ascii ''direct-tcpip'') win]"
    using assms(3) by (auto simp: confirm_lock_def Let_def opening_of_def split: option.splits)
  show "(i, r) \<in> set (opening_of (o_conn s))"
    using m by (auto simp: opening_of_def intro: map_of_SomeD)
  show "opening_of c = gomap_del i (opening_of (o_conn s))" "c_replies c = c_replies (o_conn s)"
    "heap_grows (c_heap (o_conn s)) (c_heap c)" "reply_for (c_heap c) i x"
    using m by (simp_all add: opening_of_def reply_for_def newChannel_def)
qed

lemma opens_inv_refuse:
  assumes "opens_inv s" "o_loop s = LRead" "refuse_lock i reason (o_conn s) = (Some (r, x), c)"
  shows "opens_inv (s\<lparr>o_conn := c, o_loop := LSend r x\<rparr>)"
  by (rule opens_inv_routes [OF assms(1,2), of i])
     (use assms(3) in \<open>auto simp: refuse_lock_def opening_of_def reply_for_def
        split: option.splits intro: map_of_SomeD\<close>)

text \<open>A send fills the slot it was counted for; a receive empties it.\<close>

lemma opens_inv_sends:
  assumes inv: "opens_inv s" and send: "send_reply r x (o_conn s) = Some c"
    and l: "o_loop s = LSend r x \<and> l = LRead \<or>
            (\<exists>rs. o_loop s = LClosing (r # rs) \<and> l = LClosing rs \<and> x = closed_reply)"
  shows "opens_inv (s\<lparr>o_conn := c, o_loop := l\<rparr>)"
proof -
  have r: "r < length (o_ops s)" "length (c_replies (o_conn s)) = length (o_ops s)"
    using inv l by (auto simp: opens_inv_defs loop_targets_def)
  have c: "c = (o_conn s)\<lparr>c_replies := (c_replies (o_conn s))[r := Some x]\<rparr>" "c_replies (o_conn s) ! r = None"
    using send by (auto simp: send_reply_def split: option.splits)
  have "senders c l j = senders (o_conn s) (o_loop s) j" if "j < length (o_ops s)" for j
    using c l r by (cases "j = r") (auto simp: senders_def loop_senders_def opening_of_def)
  then have "sends_once (s\<lparr>o_conn := c, o_loop := l\<rparr>)"
    using inv c l by (auto simp: opens_inv_def sends_once_def loop_targets_def)
  moreover have "entries_own (s\<lparr>o_conn := c, o_loop := l\<rparr>)"
    using inv c by (auto simp: opens_inv_def entries_own_def opening_of_def)
  moreover have "reply_for (c_heap (o_conn s)) (op_id (o_ops s ! r)) x"
    using inv l by (auto simp: opens_inv_def replies_match_def closed_reply_def reply_for_def)
  then have "replies_match (s\<lparr>o_conn := c, o_loop := l\<rparr>)"
    using inv c l r by (auto simp: opens_inv_def replies_match_def nth_list_update)
  ultimately show ?thesis by (simp add: opens_inv_def)
qed

lemma opens_inv_takes:
  assumes inv: "opens_inv s" and r: "r < length (o_ops s)" and take: "take_reply r (o_conn s) = Some (x, c)"
  shows "opens_inv (s\<lparr>o_conn := c\<rparr>)" "reply_for (c_heap c) (op_id (o_ops s ! r)) x"
proof -
  have len: "length (c_replies (o_conn s)) = length (o_ops s)" using inv by (simp add: opens_inv_defs)
  have c: "c = (o_conn s)\<lparr>c_replies := (c_replies (o_conn s))[r := None]\<rparr>" "c_replies (o_conn s) ! r = Some x"
    using take by (auto simp: take_reply_def split: option.splits)
  have "senders c (o_loop s) j \<le> senders (o_conn s) (o_loop s) j" if "j < length (o_ops s)" for j
    using c len that by (cases "j = r") (auto simp: senders_def opening_of_def)
  then have "sends_once (s\<lparr>o_conn := c\<rparr>)"
    using inv c by (auto simp: opens_inv_def sends_once_def intro: order_trans)
  moreover have "entries_own (s\<lparr>o_conn := c\<rparr>)"
    using inv c by (auto simp: opens_inv_def entries_own_def opening_of_def)
  moreover have "replies_match (s\<lparr>o_conn := c\<rparr>)"
    using inv c len r by (auto simp: opens_inv_def replies_match_def nth_list_update split: if_splits)
  ultimately show "opens_inv (s\<lparr>o_conn := c\<rparr>)" by (simp add: opens_inv_def)
  show "reply_for (c_heap c) (op_id (o_ops s ! r)) x"
    using inv c r by (auto simp: opens_inv_def replies_match_def)
qed

lemma opens_inv_starts:
  assumes inv: "opens_inv s" and reg: "open_register (o_conn s) = Inr ((i, r), c)"
  shows "opens_inv (s\<lparr>o_conn := c, o_ops := o_ops s @ [OpWrite i]\<rparr>)"
proof -
  let ?n = "length (o_ops s)"
  have c: "c_replies c = c_replies (o_conn s) @ [None]" "c_heap c = c_heap (o_conn s)"
      "opening_of c = gomap_put i ?n (opening_of (o_conn s))"
    using reg inv by (auto simp: open_register_def Let_def opening_of_def opens_inv_defs split: if_splits)
  have len: "length (c_replies (o_conn s)) = ?n" using inv by (simp add: opens_inv_defs)
  have fresh: "count_list (map snd (opening_of (o_conn s))) ?n = 0" "loop_senders (o_loop s) ?n = 0"
    using inv by (auto simp: opens_inv_defs loop_targets_def loop_senders_def count_list_0_iff
        split: loop_pc.splits)
  have "senders c (o_loop s) j \<le> 1" if "j < Suc ?n" for j
  proof (cases "j = ?n")
    case True
    then show ?thesis using c len fresh count_list_snd_filter [of "\<lambda>e. fst e \<noteq> i" "opening_of (o_conn s)" ?n]
      by (simp add: senders_def gomap_put_def nth_append)
  next
    case False
    then have "senders c (o_loop s) j \<le> senders (o_conn s) (o_loop s) j"
      using c len that count_list_snd_filter [of "\<lambda>e. fst e \<noteq> i" "opening_of (o_conn s)" j]
      by (simp add: senders_def gomap_put_def nth_append)
    then show ?thesis using inv that False by (auto simp: opens_inv_defs intro: order_trans)
  qed
  then have "sends_once (s\<lparr>o_conn := c, o_ops := o_ops s @ [OpWrite i]\<rparr>)"
    using inv c len by (auto simp: opens_inv_def sends_once_def)
  moreover have "entries_own (s\<lparr>o_conn := c, o_ops := o_ops s @ [OpWrite i]\<rparr>)"
    using inv c by (auto simp: opens_inv_def entries_own_def gomap_put_def nth_append)
  moreover have "replies_match (s\<lparr>o_conn := c, o_ops := o_ops s @ [OpWrite i]\<rparr>)"
    using inv c len by (auto simp: opens_inv_defs nth_append loop_targets_def less_Suc_eq)
  ultimately show ?thesis by (simp add: opens_inv_def)
qed

lemma opens_inv_closes:
  assumes inv: "opens_inv s" and l: "o_loop s = LRead" and cl: "close_lock (o_conn s) = ((chans, rs), c)"
  shows "opens_inv (s\<lparr>o_conn := c, o_loop := LClosing rs\<rparr>)"
proof -
  have c: "rs = map snd (opening_of (o_conn s))" "opening_of c = []"
      "c_replies c = c_replies (o_conn s)" "c_heap c = c_heap (o_conn s)"
    using cl by (auto simp: close_lock_def opening_of_def)
  have "senders c (LClosing rs) j = senders (o_conn s) LRead j" for j
    using c by (simp add: senders_def loop_senders_def)
  then show ?thesis
    using inv c l by (auto simp: opens_inv_defs loop_targets_def)
qed

lemma opens_inv_answered:
  assumes inv: "opens_inv s" and r: "r < length (o_ops s)" "o_ops s ! r = OpWait i"
    and t: "take_reply r (o_conn s) = Some (x, c)"
  shows "opens_inv (s\<lparr>o_conn := c, o_ops := (o_ops s)[r := reply_result i x]\<rparr>)"
proof -
  note tk = opens_inv_takes [OF inv r(1) t]
  have id: "op_id (reply_result i x) = op_id (o_ops (s\<lparr>o_conn := c\<rparr>) ! r)"
    using r(2) by (simp add: reply_result_def split: option.splits)
  have "reply_for (c_heap (o_conn (s\<lparr>o_conn := c\<rparr>))) j \<lparr>or_channel = Some a, or_err = None\<rparr>"
    if "reply_result i x = OpGot j a" for j a
    using that tk(2) r(2) by (auto simp: reply_result_def reply_for_def split: option.splits)
  from opens_inv_pc [OF tk(1) id this] show ?thesis by simp
qed

lemma opens_inv_polls:
  assumes "opens_inv s" "r < length (o_ops s)"
  shows "opens_inv (s\<lparr>o_conn := abandon_poll wr r (o_conn s)\<rparr>)"
proof (cases "take_reply r (o_conn s)")
  case None
  then show ?thesis using assms(1) by (simp add: abandon_poll_def)
next
  case (Some t)
  obtain x c where t: "t = (x, c)" by fastforce
  have "opens_inv (s\<lparr>o_conn := c\<rparr>)" using opens_inv_takes(1) [OF assms, of x c] Some t by simp
  then show ?thesis
    using Some t opens_inv_quiet [of "s\<lparr>o_conn := c\<rparr>", simplified] quiet_Channel_Close
    by (auto simp: abandon_poll_def split: option.splits)
qed

lemma opens_inv_moves:
  assumes "opens_inv (s\<lparr>o_conn := c\<rparr>)" "op_id op = op_id (o_ops s ! r)" "\<And>i a. op \<noteq> OpGot i a"
  shows "opens_inv (s\<lparr>o_conn := c, o_ops := (o_ops s)[r := op]\<rparr>)"
  using opens_inv_pc [OF assms(1), of op r] assms(2,3) by simp

lemma opens_inv_step: "opens_step wr s s' \<Longrightarrow> opens_inv s \<Longrightarrow> opens_inv s'"
proof (induction rule: opens_step.induct)
  case (open_writes r s i a port err c)
  then have "quiet (o_conn s) c"
    using quiet_put_net [of "o_conn s" "\<lambda>w. writeChannelOpenDirect wr w i a port"]
    by (simp add: open_write_def)
  then show ?case using open_writes opens_inv_quiet by (intro opens_inv_moves) auto
next
  case (open_gives_up r s i)
  then show ?case using opens_inv_pc [of s "OpDelete i" r] by simp
next
  case (open_deletes r s i)
  then show ?case using opens_inv_delete by (intro opens_inv_moves) auto
next
  case (open_polls r s i)
  then show ?case using opens_inv_polls by (intro opens_inv_moves) auto
next
  case (loop_confirms_none s i rm win c)
  then have "opens_inv (s\<lparr>o_conn := c\<rparr>)" by (blast intro: opens_inv_confirm_none)
  then show ?case using opens_inv_quiet [of "s\<lparr>o_conn := c\<rparr>"] quiet_put_net [of c] by simp
next
  case (conn_closes s chans rs c)
  then have "opens_inv (s\<lparr>o_conn := c, o_loop := LClosing rs\<rparr>)" by (blast intro: opens_inv_closes)
  then show ?case
    using opens_inv_quiet [of "s\<lparr>o_conn := c, o_loop := LClosing rs\<rparr>", OF _ quiet_end_all, of ErrClosed chans]
    by (cases s) simp
next
  case (loop_sends s r x c)
  then show ?case by (intro opens_inv_sends) auto
next
  case (conn_close_sends s r rs c)
  then show ?case by (intro opens_inv_sends) auto
next
  case (caller_reads r s i a n)
  then show ?case by (intro opens_inv_quiet quiet_on_channel) simp_all
qed (auto intro: opens_inv_starts opens_inv_answered opens_inv_confirm opens_inv_refuse
      opens_inv_refuse_none opens_inv_quiet quiet_handleChannelOpen quiet_handleChannelData
      quiet_handleChannelClose quiet_handleWindowAdj quiet_Channel_Close)

lemma opens_inv_start: "opens_start s \<Longrightarrow> opens_inv s"
  by (auto simp: opens_start_def opens_inv_defs new_Conn_def opening_of_def loop_targets_def)

interpretation opens: step_invariant opens_start "opens_step wr" opens_inv
  by unfold_locales (auto intro: opens_inv_start opens_inv_step)

section \<open>Properties\<close>

text \<open>
  A run used as a witness: one call opens a channel, the device confirms it, and the loop is about
  to send the reply.
\<close>

definition open_demo :: "bytes open_state" where
  "open_demo =
     (let c = snd (confirm_lock 0 9 32768 (snd (projr (open_register (new_Conn [])))\<lparr>c_net :=
                snd (writeChannelOpenDirect (buffer_write :: (unit, bytes) writer) [] 0 (ascii ''127.0.0.1'') 16992)\<rparr>))
      in \<lparr>o_conn = c, o_loop = LSend 0 \<lparr>or_channel = Some 0, or_err = None\<rparr>, o_ops = [OpWait 0]\<rparr>)"

lemma open_demo_reachable: "reachable opens_start (opens_step (buffer_write :: (unit, bytes) writer)) open_demo"
proof -
  let ?bw = "buffer_write :: (unit, bytes) writer"
  let ?s0 = "\<lparr>o_conn = new_Conn [], o_loop = LRead, o_ops = []\<rparr> :: bytes open_state"
  let ?c1 = "snd (projr (open_register (new_Conn [])))"
  let ?s1 = "?s0\<lparr>o_conn := ?c1, o_ops := [OpWrite 0]\<rparr>"
  let ?c2 = "?c1\<lparr>c_net := snd (writeChannelOpenDirect ?bw [] 0 (ascii ''127.0.0.1'') 16992)\<rparr>"
  let ?s2 = "?s1\<lparr>o_conn := ?c2, o_ops := [OpWait 0]\<rparr>"
  have "reachable opens_start (opens_step ?bw) ?s0"
    by (rule reachable_start) (auto simp: opens_start_def)
  moreover have "opens_step ?bw ?s0 ?s1"
    using open_starts [of ?s0 0 0 ?c1 ?bw]
    by (simp add: open_register_def new_Conn_def Let_def)
  moreover have "opens_step ?bw ?s1 ?s2"
    using open_writes [of 0 ?s1 0 ?bw "ascii ''127.0.0.1''" 16992 None ?c2]
    by (simp add: open_write_def put_net_def writeChannelOpenDirect_bytes open_register_def new_Conn_def Let_def)
  moreover have "opens_step ?bw ?s2 open_demo"
    using loop_confirms [of ?s2 0 9 32768 0 "\<lparr>or_channel = Some 0, or_err = None\<rparr>" "o_conn open_demo" ?bw]
    by (simp add: open_demo_def open_register_def new_Conn_def Let_def confirm_lock_def gomap_put_def)
  ultimately show ?thesis by (blast intro: reachable_step)
qed

text \<open>
  C21. The answer to a channel open reaches the call that asked for it, and routing it never blocks the
  message loop: however calls, cancellations, answers and the close of the connection interleave,
  when the loop is about to send a reply the reply channel is empty, and a call that returned a
  channel has one opened under its own number.
\<close>

theorem open_replies_are_routed:
  assumes "reachable opens_start (opens_step wr) s"
  shows "(\<forall>r x. o_loop s = LSend r x \<longrightarrow> (\<exists>c. send_reply r x (o_conn s) = Some c)) \<and>
         (\<forall>r i a. r < length (o_ops s) \<longrightarrow> o_ops s ! r = OpGot i a \<longrightarrow>
            a < length (c_heap (o_conn s)) \<and> ch_LocalID (c_heap (o_conn s) ! a) = i)"
proof -
  have inv: "opens_inv s" using assms by (rule opens.holds)
  have "c_replies (o_conn s) ! r = None" if "o_loop s = LSend r x" for r x
  proof -
    have "senders (o_conn s) (LSend r x) r \<le> 1"
      using inv that by (auto simp: opens_inv_defs loop_targets_def)
    then show ?thesis by (auto simp: senders_def loop_senders_def split: if_splits)
  qed
  then show ?thesis
    using inv by (auto simp: send_reply_def opens_inv_def replies_match_def reply_for_def)
qed

theorem open_replies_are_routed_witness:
  "o_loop open_demo = LSend 0 \<lparr>or_channel = Some 0, or_err = None\<rparr> \<and>
   (\<exists>c. send_reply 0 \<lparr>or_channel = Some 0, or_err = None\<rparr> (o_conn open_demo) = Some c)"
proof -
  have l: "o_loop open_demo = LSend 0 \<lparr>or_channel = Some 0, or_err = None\<rparr>"
    by (simp add: open_demo_def Let_def)
  show ?thesis using open_replies_are_routed [OF open_demo_reachable] l by blast
qed

text \<open>
  C22. An open that is given up while the loop holds its answer leaks the channel: the call deletes
  nothing and finds no reply, returns its error, and the loop then sends a reply nobody takes. The
  channel stays open and registered at both ends, though \<open>abandonOpen\<close> is meant to close a channel
  that was opened in the meantime.
\<close>

theorem abandoned_open_can_leak:
  "\<exists>s :: bytes open_state.
     reachable opens_start (opens_step (buffer_write :: (unit, bytes) writer)) s \<and>
     o_loop s = LRead \<and> o_ops s = [OpFail 0] \<and> \<not> c_closed (o_conn s) \<and>
     conn_channel (o_conn s) 0 = Some 0 \<and> ch_err (c_heap (o_conn s) ! 0) = None"
proof -
  let ?bw = "buffer_write :: (unit, bytes) writer"
  let ?x = "\<lparr>or_channel = Some 0, or_err = None\<rparr>"
  let ?s1 = "open_demo\<lparr>o_ops := [OpDelete 0]\<rparr>"
  let ?s2 = "?s1\<lparr>o_conn := abandon_delete 0 (o_conn ?s1), o_ops := [OpPoll 0]\<rparr>"
  let ?s3 = "?s2\<lparr>o_conn := abandon_poll ?bw 0 (o_conn ?s2), o_ops := [OpFail 0]\<rparr>"
  let ?s4 = "?s3\<lparr>o_conn := the (send_reply 0 ?x (o_conn ?s3)), o_loop := LRead\<rparr>"
  note unf = open_demo_def Let_def open_register_def new_Conn_def confirm_lock_def gomap_put_def
    abandon_delete_def gomap_del_def abandon_poll_def take_reply_def send_reply_def
  have "opens_step ?bw open_demo ?s1"
    using open_gives_up [of 0 open_demo 0 ?bw] by (simp add: open_demo_def Let_def)
  moreover have "opens_step ?bw ?s1 ?s2"
    using open_deletes [of 0 ?s1 0 ?bw] by simp
  moreover have "opens_step ?bw ?s2 ?s3"
    using open_polls [of 0 ?s2 0 ?bw] by simp
  moreover have "opens_step ?bw ?s3 ?s4"
    using loop_sends [of ?s3 0 ?x "the (send_reply 0 ?x (o_conn ?s3))" ?bw] by (simp add: unf)
  ultimately have "reachable opens_start (opens_step ?bw) ?s4"
    using open_demo_reachable by (blast intro: reachable_step)
  then show ?thesis
    by (intro exI [of _ ?s4] conjI) (simp_all add: unf conn_channel_def newChannel_def)
qed

end
