(* ===== verification/Mps_Server.thy ===== *)
theory Mps_Server
  imports Mps_Conn
begin

text \<open>
  The Management Presence Server: which CIRA connections it holds, how it links them to a device and
  its tenant, and the state it writes for them. \<open>server/internal/amt/transport/mps.go\<close>, the table of
  \<open>server/internal/amt/postgres.go\<close> and the lookup of
  \<open>server/internal/device/postgres_hardware.go\<close>. A statement the database refuses is an argument.
\<close>

section \<open>The tables\<close>

datatype device_status = StatusOnline | StatusOffline | StatusConnecting

record AMTDevice =
  ad_TenantID :: uuid
  ad_DeviceID :: uuid
  ad_Status :: device_status
  ad_LastSeen :: instant

type_synonym amt_table = "(bytes, AMTDevice) gomap"

datatype amt_error = ErrTenantRequired | ErrAMTDeviceNotFound | ErrDatabase

text \<open>\<open>tenant\<close> is the tenant carried on the context, if one is; \<open>refused\<close> that the statement failed.\<close>

definition amt_Upsert ::
  "uuid option \<Rightarrow> bool \<Rightarrow> instant \<Rightarrow> bytes \<Rightarrow> uuid \<Rightarrow> device_status \<Rightarrow> amt_table \<Rightarrow>
     amt_error option \<times> amt_table" where
  "amt_Upsert tenant refused now u device status t =
     (case tenant of
        None \<Rightarrow> (Some ErrTenantRequired, t)
      | Some tid \<Rightarrow>
          if refused then (Some ErrDatabase, t)
          else (None, gomap_put u \<lparr>ad_TenantID = tid, ad_DeviceID = device, ad_Status = status,
                                   ad_LastSeen = now\<rparr> t))"

definition amt_SetStatus ::
  "uuid \<Rightarrow> bool \<Rightarrow> instant \<Rightarrow> bytes \<Rightarrow> device_status \<Rightarrow> amt_table \<Rightarrow> amt_error option \<times> amt_table" where
  "amt_SetStatus tenant refused now u status t =
     (if refused then (Some ErrDatabase, t)
      else (case map_of t u of
              None \<Rightarrow> (Some ErrAMTDeviceNotFound, t)
            | Some d \<Rightarrow>
                if ad_TenantID d \<noteq> tenant then (Some ErrAMTDeviceNotFound, t)
                else (None, gomap_put u (d\<lparr>ad_Status := status, ad_LastSeen := now\<rparr>) t)))"

text \<open>
  The rows of \<open>device_hardware\<close> as far as the lookup reads them: system UUID, device and tenant. At
  most two of the matching rows are fetched.
\<close>

type_synonym hardware_table = "(bytes \<times> uuid \<times> uuid) list"

definition ResolveBySystemUUID :: "hardware_table \<Rightarrow> bytes \<Rightarrow> (uuid \<times> uuid) option" where
  "ResolveBySystemUUID rows systemUUID =
     (let matches = take 2 (map snd (filter (\<lambda>row. fst row = systemUUID) rows)) in
      if length matches \<noteq> 1 then None else Some (hd matches))"

section \<open>The server\<close>

text \<open>
  \<open>srv_conns\<close> maps an AMT UUID to a connection; the connections themselves live in \<open>srv_heap\<close>.
  \<open>srv_amt\<close> is the table the server writes.
\<close>

record 'w Server =
  srv_conns :: "(bytes, addr) gomap"
  srv_count :: int
  srv_heap :: "'w Conn list"
  srv_amt :: amt_table

definition new_Server :: "amt_table \<Rightarrow> 'w Server" where
  "new_Server t = \<lparr>srv_conns = [], srv_count = 0, srv_heap = [], srv_amt = t\<rparr>"

definition ConnectedDeviceCount :: "'w Server \<Rightarrow> int" where
  "ConnectedDeviceCount s = srv_count s"

definition GetConn :: "'w Server \<Rightarrow> bytes \<Rightarrow> addr option" where
  "GetConn s amtUUID = map_of (srv_conns s) amtUUID"

text \<open>
  The database as one call sees it: the hardware rows, whether the statement is refused, the time.
\<close>

record env =
  env_rows :: hardware_table
  env_refused :: bool
  env_now :: instant

definition linkConn :: "env \<Rightarrow> addr \<Rightarrow> bytes \<Rightarrow> 'w Server \<Rightarrow> bool \<times> 'w Server" where
  "linkConn e mc amtUUID s =
     (case linked (srv_heap s ! mc) of
        (_, _, True) \<Rightarrow> (True, s)
      | (_, _, False) \<Rightarrow>
          (case ResolveBySystemUUID (env_rows e) amtUUID of
             None \<Rightarrow> (False, s)
           | Some (deviceID, tenantID) \<Rightarrow>
               (case amt_Upsert (Some tenantID) (env_refused e) (env_now e) amtUUID deviceID StatusOnline
                       (srv_amt s) of
                  (Some _, t) \<Rightarrow> (False, s\<lparr>srv_amt := t\<rparr>)
                | (None, t) \<Rightarrow>
                    (True, s\<lparr>srv_amt := t,
                             srv_heap := (srv_heap s)[mc := Conn_link deviceID tenantID (srv_heap s ! mc)]\<rparr>))))"

definition registerConn :: "env \<Rightarrow> addr \<Rightarrow> bytes \<Rightarrow> 'w Server \<Rightarrow> 'w Server" where
  "registerConn e mc amtUUID s =
     snd (linkConn e mc amtUUID
       (s\<lparr>srv_conns := gomap_put amtUUID mc (srv_conns s), srv_count := srv_count s + 1\<rparr>))"

definition unregisterConn :: "env \<Rightarrow> addr \<Rightarrow> bytes \<Rightarrow> 'w Server \<Rightarrow> 'w Server" where
  "unregisterConn e mc amtUUID s =
     (let s1 = s\<lparr>srv_conns := gomap_del amtUUID (srv_conns s), srv_count := srv_count s - 1\<rparr> in
      case linked (srv_heap s1 ! mc) of
        (_, tenantID, True) \<Rightarrow>
          s1\<lparr>srv_amt := snd (amt_SetStatus tenantID (env_refused e) (env_now e) amtUUID StatusOffline (srv_amt s1))\<rparr>
      | _ \<Rightarrow> s1)"

text \<open>
  \<open>storeDetail\<close>: what it writes on the device's hardware row, if anything; \<open>prober\<close> is the result of
  the WSMAN query, when a prober is set.
\<close>

definition storeDetail :: "(unit + (string \<times> string)) option \<Rightarrow> uuid \<Rightarrow> uuid \<Rightarrow> (uuid \<times> uuid \<times> string \<times> string) option" where
  "storeDetail prober deviceID tenantID =
     (case prober of
        None \<Rightarrow> None
      | Some (Inl _) \<Rightarrow> None
      | Some (Inr (model, firmware)) \<Rightarrow>
          if model = [] \<and> firmware = [] then None else Some (tenantID, deviceID, model, firmware))"

text \<open>
  The keepalive goroutine over the events its loop selects: the end of the context, a relink tick or
  a keepalive tick. The cookie counts the requests, modulo its 32 bits.
\<close>

datatype tick = CtxDone | RelinkTick env | KeepaliveTick

fun keepalive_loop ::
  "('e, 'w) writer \<Rightarrow> addr \<Rightarrow> tick list \<Rightarrow> 32 word \<Rightarrow> 'w Server \<Rightarrow> 'w Server" where
  "keepalive_loop write mc [] cookie s = s"
| "keepalive_loop write mc (CtxDone # ts) cookie s = s"
| "keepalive_loop write mc (RelinkTick e # ts) cookie s =
     keepalive_loop write mc ts cookie (snd (linkConn e mc (c_AMTUUID (srv_heap s ! mc)) s))"
| "keepalive_loop write mc (KeepaliveTick # ts) cookie s =
     (case put_net (\<lambda>w. WriteKeepaliveRequest write w (cookie + 1)) (srv_heap s ! mc) of
        (Some _, c) \<Rightarrow> s\<lparr>srv_heap := (srv_heap s)[mc := c]\<rparr>
      | (None, c) \<Rightarrow> keepalive_loop write mc ts (cookie + 1) (s\<lparr>srv_heap := (srv_heap s)[mc := c]\<rparr>))"

definition startKeepalive :: "('e, 'w) writer \<Rightarrow> addr \<Rightarrow> tick list \<Rightarrow> 'w Server \<Rightarrow> 'w Server" where
  "startKeepalive write mc ts s =
     (case put_net (\<lambda>w. WriteKeepaliveOptionsRequest write w 30 10) (srv_heap s ! mc) of
        (Some _, c) \<Rightarrow> s\<lparr>srv_heap := (srv_heap s)[mc := c]\<rparr>
      | (None, c) \<Rightarrow> keepalive_loop write mc ts 0 (s\<lparr>srv_heap := (srv_heap s)[mc := c]\<rparr>))"

section \<open>Connections coming and going\<close>

text \<open>
  What \<open>handleConn\<close> does to the server before and after its message loop: a connection whose handshake
  gave the UUID \<open>u\<close> is registered, its link is retried on the keepalive tick, and it is unregistered
  when the loop ends. \<open>live\<close> lists the connections between the two.
\<close>

record 'w mps_state =
  m_server :: "'w Server"
  m_live :: "addr list"

definition mps_start :: "'w mps_state \<Rightarrow> bool" where
  "mps_start st \<longleftrightarrow> (\<exists>t. st = \<lparr>m_server = new_Server t, m_live = []\<rparr>)"

inductive mps_step :: "'w mps_state \<Rightarrow> 'w mps_state \<Rightarrow> bool" where
  conn_registers:
    "s = m_server st \<Longrightarrow> mc = length (srv_heap s) \<Longrightarrow>
       mps_step st
         (st\<lparr>m_server := registerConn e mc u (s\<lparr>srv_heap := srv_heap s @ [(new_Conn net)\<lparr>c_AMTUUID := u\<rparr>]\<rparr>),
             m_live := mc # m_live st\<rparr>)"
| conn_relinks:
    "mc \<in> set (m_live st) \<Longrightarrow>
       mps_step st
         (st\<lparr>m_server := snd (linkConn e mc (c_AMTUUID (srv_heap (m_server st) ! mc)) (m_server st))\<rparr>)"
| conn_unregisters:
    "mc \<in> set (m_live st) \<Longrightarrow>
       mps_step st
         (st\<lparr>m_server := unregisterConn e mc (c_AMTUUID (srv_heap (m_server st) ! mc)) (m_server st),
             m_live := remove1 mc (m_live st)\<rparr>)"

section \<open>The registry\<close>

definition mps_inv :: "'w mps_state \<Rightarrow> bool" where
  "mps_inv st \<longleftrightarrow>
     srv_count (m_server st) = int (length (m_live st)) \<and> distinct (m_live st) \<and>
     set (m_live st) \<subseteq> {..<length (srv_heap (m_server st))} \<and>
     (\<forall>u mc. map_of (srv_conns (m_server st)) u = Some mc \<longrightarrow>
        mc \<in> set (m_live st) \<and> c_AMTUUID (srv_heap (m_server st) ! mc) = u)"

text \<open>Linking changes neither the registry nor whose connection a connection is.\<close>

lemma linkConn_keeps:
  "srv_conns (snd (linkConn e mc u s)) = srv_conns s"
  "srv_count (snd (linkConn e mc u s)) = srv_count s"
  "length (srv_heap (snd (linkConn e mc u s))) = length (srv_heap s)"
  by (auto simp: linkConn_def split: prod.splits option.splits bool.splits)

lemma Conn_link_uuid [simp]: "c_AMTUUID (Conn_link d t c) = c_AMTUUID c"
  by (simp add: Conn_link_def)

lemma linkConn_uuid [simp]:
  "c_AMTUUID (srv_heap (snd (linkConn e mc u s)) ! j) = c_AMTUUID (srv_heap s ! j)"
proof (cases "j = mc \<and> mc < length (srv_heap s)")
  case True
  then show ?thesis by (auto simp: linkConn_def split: prod.splits option.splits bool.splits)
next
  case False
  then have "(srv_heap s)[mc := x] ! j = srv_heap s ! j" for x
    by (metis linorder_not_less list_update_beyond nth_list_update_neq)
  then show ?thesis by (auto simp: linkConn_def split: prod.splits option.splits bool.splits)
qed

lemma unregisterConn_keeps:
  "srv_conns (unregisterConn e mc u s) = gomap_del u (srv_conns s)"
  "srv_count (unregisterConn e mc u s) = srv_count s - 1"
  "srv_heap (unregisterConn e mc u s) = srv_heap s"
  by (auto simp: unregisterConn_def Let_def split: prod.splits bool.splits)

lemma mps_inv_step: "mps_step st st' \<Longrightarrow> mps_inv st \<Longrightarrow> mps_inv st'"
proof (induction rule: mps_step.induct)
  case (conn_registers s st mc e u net)
  then have "mc \<notin> set (m_live st)" by (auto simp: mps_inv_def)
  moreover have "(srv_heap s @ [c]) ! j = srv_heap s ! j" if "j \<in> set (m_live st)" for j c
    using that conn_registers by (auto simp: mps_inv_def nth_append)
  ultimately show ?case
    using conn_registers by (auto simp: mps_inv_def registerConn_def linkConn_keeps split: if_splits)
next
  case (conn_relinks mc st e)
  then show ?case by (simp add: mps_inv_def linkConn_keeps)
next
  case (conn_unregisters mc st e)
  let ?u = "c_AMTUUID (srv_heap (m_server st) ! mc)"
  have "length (m_live st) = Suc (length (remove1 mc (m_live st)))"
    using conn_unregisters by (simp add: length_remove1) (metis Suc_pred length_pos_if_in_set)
  then show ?case
    using conn_unregisters by (auto simp: mps_inv_def unregisterConn_keeps split: if_splits)
qed

lemma mps_inv_start: "mps_start st \<Longrightarrow> mps_inv st"
  by (auto simp: mps_start_def mps_inv_def new_Server_def)

interpretation mps: step_invariant mps_start mps_step mps_inv
  by unfold_locales (auto intro: mps_inv_start mps_inv_step)

section \<open>Properties\<close>

text \<open>A device with one hardware row, connecting once and then again before the first has ended.\<close>

definition demo_uuid :: bytes where
  "demo_uuid = replicate 16 1"

definition mps_demo_env :: env where
  "mps_demo_env = \<lparr>env_rows = [(demo_uuid, 5, 6)], env_refused = False, env_now = 100\<rparr>"

definition mps_demo1 :: "bytes mps_state" where
  "mps_demo1 =
     \<lparr>m_server = registerConn mps_demo_env 0 demo_uuid ((new_Server [])\<lparr>srv_heap := [(new_Conn [])\<lparr>c_AMTUUID := demo_uuid\<rparr>]\<rparr>),
      m_live = [0]\<rparr>"

definition mps_demo2 :: "bytes mps_state" where
  "mps_demo2 =
     mps_demo1\<lparr>m_server := registerConn mps_demo_env 1 demo_uuid
        ((m_server mps_demo1)\<lparr>srv_heap := srv_heap (m_server mps_demo1) @ [(new_Conn [])\<lparr>c_AMTUUID := demo_uuid\<rparr>]\<rparr>),
      m_live := [1, 0]\<rparr>"

definition mps_demo3 :: "bytes mps_state" where
  "mps_demo3 =
     mps_demo2\<lparr>m_server := unregisterConn mps_demo_env 0 demo_uuid (m_server mps_demo2), m_live := [1]\<rparr>"

lemmas mps_demo_defs = mps_demo1_def mps_demo2_def mps_demo3_def mps_demo_env_def new_Server_def
  registerConn_def unregisterConn_def linkConn_def linked_def new_Conn_def Conn_link_def
  ResolveBySystemUUID_def amt_Upsert_def amt_SetStatus_def gomap_put_def gomap_del_def Let_def

lemma mps_demo_reachable:
  "reachable mps_start mps_step mps_demo1" "reachable mps_start mps_step mps_demo3"
proof -
  let ?s0 = "\<lparr>m_server = new_Server [], m_live = []\<rparr> :: bytes mps_state"
  have "reachable mps_start mps_step ?s0" by (rule reachable_start) (auto simp: mps_start_def)
  moreover have "mps_step ?s0 mps_demo1"
    using conn_registers [of "new_Server []" ?s0 0 mps_demo_env demo_uuid "[]"]
    by (simp add: mps_demo1_def new_Server_def)
  ultimately show r1: "reachable mps_start mps_step mps_demo1" by (rule reachable_step)
  have "length (srv_heap (m_server mps_demo1)) = 1" "m_live mps_demo1 = [0]"
    by (simp_all add: mps_demo_defs)
  then have "mps_step mps_demo1 mps_demo2"
    using conn_registers [of "m_server mps_demo1" mps_demo1 1 mps_demo_env demo_uuid "[]"]
    by (simp add: mps_demo2_def)
  moreover have "mps_step mps_demo2 mps_demo3"
    using conn_unregisters [of 0 mps_demo2 mps_demo_env] by (simp add: mps_demo3_def)
       (simp add: mps_demo_defs)
  ultimately show "reachable mps_start mps_step mps_demo3" using r1 by (blast intro: reachable_step)
qed

text \<open>
  The server counts exactly the connections between registration and unregistration, and
  \<open>GetConn\<close> never hands out a connection that has ended or one of another device.
\<close>

lemma registry_holds_live:
  assumes "reachable mps_start mps_step st"
  shows "ConnectedDeviceCount (m_server st) = int (length (m_live st)) \<and>
         (\<forall>u mc. GetConn (m_server st) u = Some mc \<longrightarrow>
            mc \<in> set (m_live st) \<and> c_AMTUUID (srv_heap (m_server st) ! mc) = u)"
  using mps.holds [OF assms] by (simp add: mps_inv_def ConnectedDeviceCount_def GetConn_def)


end
