(* ===== verification/Cert_Ledger.thy ===== *)
theory Cert_Ledger
  imports OG_Prelude
begin

text \<open>
  The certificate ledger, \<open>server/internal/certledger/store.go\<close> and \<open>upkeep.go\<close>: the table of every
  certificate the server issued, the index over it that is held in memory, and the order that
  decides which of a device's certificates is current. The table is a list of rows, a statement the
  database refuses is an argument, and the entries of the index live in a heap, since both of its
  maps point at the same entry.
\<close>

section \<open>Entries\<close>

type_synonym fingerprint = bytes
type_synonym addr = nat

datatype Source = SourceEnroll | SourceRenew

record Entry =
  e_Fingerprint :: fingerprint
  e_DeviceID :: uuid
  e_IssuerHash :: bytes
  e_NotBefore :: instant
  e_NotAfter :: instant
  e_Source :: Source
  e_IssuedAt :: instant
  e_Seen :: bool

definition later :: "Entry \<Rightarrow> Entry \<Rightarrow> bool" where
  "later e other =
     (if e_NotBefore e \<noteq> e_NotBefore other then e_NotBefore e > e_NotBefore other
      else e_IssuedAt e > e_IssuedAt other)"

text \<open>A row of \<open>device_certificates\<close>: the entry as it was inserted, and when it was first seen.\<close>

record ledger_row =
  row_entry :: Entry
  row_firstSeenAt :: "instant option"

text \<open>The index: two maps into one heap of entries, and the table behind it.\<close>

record Ledger =
  l_heap :: "Entry list"
  l_byPrint :: "(fingerprint, addr) gomap"
  l_byDevice :: "(uuid, addr list) gomap"
  l_table :: "ledger_row list"

definition new_Ledger :: "ledger_row list \<Rightarrow> Ledger" where
  "new_Ledger table = \<lparr>l_heap = [], l_byPrint = [], l_byDevice = [], l_table = table\<rparr>"

definition device_addrs :: "Ledger \<Rightarrow> uuid \<Rightarrow> addr list" where
  "device_addrs s d = (case map_of (l_byDevice s) d of None \<Rightarrow> [] | Some as \<Rightarrow> as)"

definition indexLocked :: "Entry \<Rightarrow> Ledger \<Rightarrow> Ledger" where
  "indexLocked e s =
     (let a = length (l_heap s) in
      s\<lparr>l_heap := l_heap s @ [e], l_byPrint := gomap_put (e_Fingerprint e) a (l_byPrint s),
        l_byDevice := gomap_put (e_DeviceID e) (device_addrs s (e_DeviceID e) @ [a]) (l_byDevice s)\<rparr>)"

text \<open>
  \<open>Warm\<close> fills the index from the rows. \<open>failsAt\<close> is the number of the row whose scan fails, if any:
  the rows before it stay indexed and the call returns an error.
\<close>

definition scan_row :: "ledger_row \<Rightarrow> Entry" where
  "scan_row row = (row_entry row)\<lparr>e_Seen := (row_firstSeenAt row \<noteq> None)\<rparr>"

definition Warm :: "nat option \<Rightarrow> Ledger \<Rightarrow> bool \<times> Ledger" where
  "Warm failsAt s =
     (case failsAt of
        Some k \<Rightarrow> (False, fold (\<lambda>row. indexLocked (scan_row row)) (take k (l_table s)) s)
      | None \<Rightarrow> (True, fold (\<lambda>row. indexLocked (scan_row row)) (l_table s) s))"

definition ledger_index :: "Entry \<Rightarrow> Ledger \<Rightarrow> Entry \<times> Ledger" where
  "ledger_index e s =
     (case map_of (l_byPrint s) (e_Fingerprint e) of
        Some a \<Rightarrow> (l_heap s ! a, s)
      | None \<Rightarrow> (e, indexLocked e s))"

definition Lookup :: "Ledger \<Rightarrow> fingerprint \<Rightarrow> Entry option" where
  "Lookup s fp = map_option ((!) (l_heap s)) (map_of (l_byPrint s) fp)"

definition supersededLocked :: "Ledger \<Rightarrow> Entry \<Rightarrow> bool" where
  "supersededLocked s e =
     list_ex (\<lambda>a. e_Seen (l_heap s ! a) \<and> later (l_heap s ! a) e) (device_addrs s (e_DeviceID e))"

definition Superseded :: "Ledger \<Rightarrow> fingerprint \<Rightarrow> bool" where
  "Superseded s fp =
     (case map_of (l_byPrint s) fp of None \<Rightarrow> False | Some a \<Rightarrow> supersededLocked s (l_heap s ! a))"

definition HasDevice :: "Ledger \<Rightarrow> uuid \<Rightarrow> bool" where
  "HasDevice s d = (device_addrs s d \<noteq> [])"

section \<open>Issuance\<close>

text \<open>What the server reads of a certificate: its DER, subject, validity and public key.\<close>

record x509_cert =
  x_Raw :: bytes
  x_CN :: string
  x_RawSubject :: bytes
  x_NotBefore :: instant
  x_NotAfter :: instant
  x_SPKI :: bytes

text \<open>
  SHA-256 and \<open>uuid.Parse\<close>, which the ledger calls, and what a \<open>TIMESTAMPTZ\<close> column gives back of a
  time written to it.
\<close>

record ledger_ops =
  op_sha256 :: "bytes \<Rightarrow> fingerprint"
  op_uuid_parse :: "string \<Rightarrow> uuid option"
  op_stored :: "instant \<Rightarrow> instant"

definition entryFor ::
  "ledger_ops \<Rightarrow> x509_cert \<Rightarrow> bytes \<Rightarrow> Source \<Rightarrow> instant \<Rightarrow> Entry option" where
  "entryFor ops leaf issuerHash source issuedAt =
     map_option (\<lambda>d. \<lparr>e_Fingerprint = op_sha256 ops (x_Raw leaf), e_DeviceID = d,
                      e_IssuerHash = issuerHash, e_NotBefore = x_NotBefore leaf,
                      e_NotAfter = x_NotAfter leaf, e_Source = source, e_IssuedAt = issuedAt,
                      e_Seen = False\<rparr>)
       (op_uuid_parse ops (x_CN leaf))"

definition has_row :: "Ledger \<Rightarrow> fingerprint \<Rightarrow> bool" where
  "has_row s fp = list_ex (\<lambda>row. e_Fingerprint (row_entry row) = fp) (l_table s)"

definition stored_entry :: "ledger_ops \<Rightarrow> Entry \<Rightarrow> Entry" where
  "stored_entry ops e =
     e\<lparr>e_NotBefore := op_stored ops (e_NotBefore e), e_NotAfter := op_stored ops (e_NotAfter e),
       e_IssuedAt := op_stored ops (e_IssuedAt e)\<rparr>"

definition insert_row :: "ledger_ops \<Rightarrow> Entry \<Rightarrow> Ledger \<Rightarrow> Ledger" where
  "insert_row ops e s =
     s\<lparr>l_table := l_table s @ [\<lparr>row_entry = stored_entry ops e, row_firstSeenAt = None\<rparr>]\<rparr>"

definition Record ::
  "ledger_ops \<Rightarrow> bool \<Rightarrow> x509_cert \<Rightarrow> bytes \<Rightarrow> Source \<Rightarrow> instant \<Rightarrow> Ledger \<Rightarrow> Entry option \<times> Ledger" where
  "Record ops refused leaf issuerHash source issuedAt s =
     (case entryFor ops leaf issuerHash source issuedAt of
        None \<Rightarrow> (None, s)
      | Some e \<Rightarrow>
          if refused then (None, s)
          else (case ledger_index e (if has_row s (e_Fingerprint e) then s else insert_row ops e s) of
                  (e', s') \<Rightarrow> (Some e', s')))"

text \<open>
  \<open>Claim\<close> inserts only while no device, no deleted device (\<open>held\<close>) and no row of the table holds the
  number; a fingerprint that is already there violates the primary key. \<open>Inl\<close> is an error, \<open>Inr None\<close>
  a number that is taken.
\<close>

definition Claim ::
  "ledger_ops \<Rightarrow> bool \<Rightarrow> (uuid \<Rightarrow> bool) \<Rightarrow> x509_cert \<Rightarrow> bytes \<Rightarrow> instant \<Rightarrow> Ledger \<Rightarrow>
     (unit + Entry option) \<times> Ledger" where
  "Claim ops refused held leaf issuerHash issuedAt s =
     (case entryFor ops leaf issuerHash SourceEnroll issuedAt of
        None \<Rightarrow> (Inl (), s)
      | Some e \<Rightarrow>
          if refused then (Inl (), s)
          else if held (e_DeviceID e) \<or>
                  list_ex (\<lambda>row. e_DeviceID (row_entry row) = e_DeviceID e) (l_table s)
            then (Inr None, s)
          else if has_row s (e_Fingerprint e) then (Inl (), s)
          else (case ledger_index e (insert_row ops e s) of (e', s') \<Rightarrow> (Inr (Some e'), s')))"

section \<open>Sightings\<close>

text \<open>\<open>see\<close> compares pointers: an entry never supersedes itself.\<close>

definition see :: "fingerprint \<Rightarrow> Ledger \<Rightarrow> (fingerprint list \<times> bool) \<times> Ledger" where
  "see fp s =
     (case map_of (l_byPrint s) fp of
        None \<Rightarrow> (([], False), s)
      | Some a \<Rightarrow>
          (let e = l_heap s ! a in
           if e_Seen e then (([], False), s)
           else (let e' = e\<lparr>e_Seen := True\<rparr>; s' = s\<lparr>l_heap := (l_heap s)[a := e']\<rparr> in
                 ((map (\<lambda>b. e_Fingerprint (l_heap s' ! b))
                     (filter (\<lambda>b. b \<noteq> a \<and> later e' (l_heap s' ! b)) (device_addrs s (e_DeviceID e))),
                   True), s'))))"

definition writeSeen :: "fingerprint \<Rightarrow> instant \<Rightarrow> Ledger \<Rightarrow> Ledger" where
  "writeSeen fp seenAt s =
     s\<lparr>l_table := map (\<lambda>row. if e_Fingerprint (row_entry row) = fp \<and> row_firstSeenAt row = None
                             then row\<lparr>row_firstSeenAt := Some seenAt\<rparr> else row) (l_table s)\<rparr>"

text \<open>
  \<open>MarkSeen\<close> persists behind the caller, \<open>MarkInstalled\<close> before it returns; the index changes at once
  in both, and \<open>refused\<close> says that the write failed.
\<close>

definition MarkSeen :: "fingerprint \<Rightarrow> Ledger \<Rightarrow> fingerprint list \<times> Ledger" where
  "MarkSeen fp s = (case see fp s of ((older, _), s') \<Rightarrow> (older, s'))"

definition MarkInstalled ::
  "bool \<Rightarrow> fingerprint \<Rightarrow> instant \<Rightarrow> Ledger \<Rightarrow> (fingerprint list \<times> bool) \<times> Ledger" where
  "MarkInstalled refused fp seenAt s =
     (case see fp s of
        ((older, False), s') \<Rightarrow> ((older, True), s')
      | ((older, True), s') \<Rightarrow> if refused then ((older, False), s') else ((older, True), writeSeen fp seenAt s'))"

section \<open>Upkeep\<close>

definition RenewalsSince :: "Ledger \<Rightarrow> uuid \<Rightarrow> instant \<Rightarrow> nat" where
  "RenewalsSince s d since =
     length (filter (\<lambda>row. e_DeviceID (row_entry row) = d \<and> e_Source (row_entry row) = SourceRenew \<and>
                           e_IssuedAt (row_entry row) > since) (l_table s))"

text \<open>The zero time when there is none, as the scan of a NULL leaves it.\<close>

definition OldestRenewalSince :: "Ledger \<Rightarrow> uuid \<Rightarrow> instant \<Rightarrow> instant" where
  "OldestRenewalSince s d since =
     (case map (\<lambda>row. e_IssuedAt (row_entry row))
             (filter (\<lambda>row. e_DeviceID (row_entry row) = d \<and> e_Source (row_entry row) = SourceRenew \<and>
                            e_IssuedAt (row_entry row) > since) (l_table s)) of
        [] \<Rightarrow> 0
      | t # ts \<Rightarrow> fold min ts t)"

definition forget_one :: "fingerprint \<Rightarrow> Ledger \<Rightarrow> Ledger" where
  "forget_one fp s =
     (case map_of (l_byPrint s) fp of
        None \<Rightarrow> s
      | Some a \<Rightarrow>
          (let d = e_DeviceID (l_heap s ! a);
               kept = filter (\<lambda>b. b \<noteq> a) (device_addrs s d) in
           s\<lparr>l_byPrint := gomap_del fp (l_byPrint s),
             l_byDevice := (if kept = [] then gomap_del d (l_byDevice s)
                            else gomap_put d kept (l_byDevice s))\<rparr>))"

definition ledger_forget :: "fingerprint list \<Rightarrow> Ledger \<Rightarrow> Ledger" where
  "ledger_forget prints s = fold forget_one prints s"

definition ForgetDevice :: "uuid \<Rightarrow> Ledger \<Rightarrow> Ledger" where
  "ForgetDevice d s =
     s\<lparr>l_byPrint := fold (\<lambda>a. gomap_del (e_Fingerprint (l_heap s ! a))) (device_addrs s d) (l_byPrint s),
       l_byDevice := gomap_del d (l_byDevice s)\<rparr>"

definition doomed :: "instant \<Rightarrow> duration \<Rightarrow> Ledger \<Rightarrow> fingerprint list" where
  "doomed now grace s =
     map (\<lambda>p. e_Fingerprint (l_heap s ! snd p))
       (filter (\<lambda>p. e_NotAfter (l_heap s ! snd p) < now - grace \<and> supersededLocked s (l_heap s ! snd p))
          (l_byPrint s))"

text \<open>
  The deletes run one after another; \<open>refusedAt\<close> is the number of the one that fails, if any, after
  which neither the rest nor the index is touched.
\<close>

definition delete_rows :: "fingerprint list \<Rightarrow> Ledger \<Rightarrow> Ledger" where
  "delete_rows prints s =
     s\<lparr>l_table := filter (\<lambda>row. e_Fingerprint (row_entry row) \<notin> set prints) (l_table s)\<rparr>"

definition Prune :: "nat option \<Rightarrow> instant \<Rightarrow> duration \<Rightarrow> Ledger \<Rightarrow> nat option \<times> Ledger" where
  "Prune refusedAt now grace s =
     (let d = doomed now grace s in
      if d = [] then (Some 0, s)
      else (case refusedAt of
              Some k \<Rightarrow> if k < length d then (None, delete_rows (take k d) s)
                        else (Some (length d), ledger_forget d (delete_rows d s))
            | None \<Rightarrow> (Some (length d), ledger_forget d (delete_rows d s))))"

section \<open>Census\<close>

record IssuerCount =
  ic_IssuerHash :: bytes
  ic_Devices :: nat
  ic_LatestNotAfter :: instant

definition newest_of :: "Entry \<Rightarrow> Entry list \<Rightarrow> Entry" where
  "newest_of e es = fold (\<lambda>e' newest. if later e' newest then e' else newest) es e"

definition count_newest :: "Entry \<Rightarrow> (bytes, IssuerCount) gomap \<Rightarrow> (bytes, IssuerCount) gomap" where
  "count_newest newest counts =
     (let c = (case map_of counts (e_IssuerHash newest) of
                 Some c \<Rightarrow> c
               | None \<Rightarrow> \<lparr>ic_IssuerHash = e_IssuerHash newest, ic_Devices = 0, ic_LatestNotAfter = 0\<rparr>) in
      gomap_put (e_IssuerHash newest)
        (c\<lparr>ic_Devices := ic_Devices c + 1,
           ic_LatestNotAfter := (if e_NotAfter newest > ic_LatestNotAfter c then e_NotAfter newest
                                 else ic_LatestNotAfter c)\<rparr>) counts)"

text \<open>
  The maps are walked in the order of their association lists and the counts sorted with the most
  machines first.
\<close>

definition census_counts :: "Ledger \<Rightarrow> (bytes, IssuerCount) gomap" where
  "census_counts s =
     fold (\<lambda>p. count_newest (newest_of (l_heap s ! hd (snd p)) (map ((!) (l_heap s)) (tl (snd p)))))
       (l_byDevice s) []"

definition CensusByNewestIssuer :: "Ledger \<Rightarrow> IssuerCount list" where
  "CensusByNewestIssuer s = rev (sort_key ic_Devices (map snd (census_counts s)))"

section \<open>The ledger as a map from fingerprints to entries\<close>

text \<open>
  The two maps of the index describe one set of entries: both point at the same entries of the heap,
  and an entry is filed under its own fingerprint and its own device.
\<close>

definition ledger_wf :: "Ledger \<Rightarrow> bool" where
  "ledger_wf s \<longleftrightarrow>
     gomap_wf (l_byPrint s) \<and>
     (\<forall>fp a. map_of (l_byPrint s) fp = Some a \<longrightarrow>
        a < length (l_heap s) \<and> e_Fingerprint (l_heap s ! a) = fp \<and>
        a \<in> set (device_addrs s (e_DeviceID (l_heap s ! a)))) \<and>
     (\<forall>d. \<forall>a \<in> set (device_addrs s d).
        a < length (l_heap s) \<and> e_DeviceID (l_heap s ! a) = d \<and>
        map_of (l_byPrint s) (e_Fingerprint (l_heap s ! a)) = Some a)"

text \<open>What \<open>Superseded\<close> means over the entries alone, whatever the index looks like.\<close>

definition superseded_in :: "(fingerprint \<rightharpoonup> Entry) \<Rightarrow> Entry \<Rightarrow> bool" where
  "superseded_in m e \<longleftrightarrow>
     (\<exists>fp' e'. m fp' = Some e' \<and> e_DeviceID e' = e_DeviceID e \<and> e_Seen e' \<and> later e' e)"

lemma later_irrefl [simp]: "\<not> later e e"
  by (simp add: later_def)

lemma later_trans: "later a b \<Longrightarrow> later b c \<Longrightarrow> later a c"
  by (auto simp: later_def split: if_splits)

lemma later_seen [simp]:
  "later (e\<lparr>e_Seen := b\<rparr>) o' = later e o'" "later e (o'\<lparr>e_Seen := b\<rparr>) = later e o'"
  by (simp_all add: later_def)

lemma LookupD:
  assumes "ledger_wf s" "Lookup s fp = Some e"
  obtains a where "map_of (l_byPrint s) fp = Some a" "a < length (l_heap s)" "l_heap s ! a = e"
    "a \<in> set (device_addrs s (e_DeviceID e))" "e_Fingerprint e = fp"
  using assms by (auto simp: Lookup_def ledger_wf_def)

lemma device_addrs_Lookup:
  assumes "ledger_wf s" "a \<in> set (device_addrs s d)"
  shows "Lookup s (e_Fingerprint (l_heap s ! a)) = Some (l_heap s ! a)" "e_DeviceID (l_heap s ! a) = d"
  using assms by (auto simp: Lookup_def ledger_wf_def)

lemma supersededLocked_iff: "ledger_wf s \<Longrightarrow> supersededLocked s e \<longleftrightarrow> superseded_in (Lookup s) e"
proof
  assume wf: "ledger_wf s" and "supersededLocked s e"
  then obtain a where "a \<in> set (device_addrs s (e_DeviceID e))" "e_Seen (l_heap s ! a)" "later (l_heap s ! a) e"
    by (auto simp: supersededLocked_def list_ex_iff)
  then show "superseded_in (Lookup s) e"
    using device_addrs_Lookup [OF wf] unfolding superseded_in_def by blast
next
  assume wf: "ledger_wf s" and "superseded_in (Lookup s) e"
  then obtain fp' e' where e': "Lookup s fp' = Some e'" "e_DeviceID e' = e_DeviceID e" "e_Seen e'" "later e' e"
    by (auto simp: superseded_in_def)
  from LookupD [OF wf e'(1)] obtain a where
    "l_heap s ! a = e'" "a \<in> set (device_addrs s (e_DeviceID e'))" by metis
  then show "supersededLocked s e" using e' by (auto simp: supersededLocked_def list_ex_iff)
qed

lemma Superseded_iff:
  "ledger_wf s \<Longrightarrow> Superseded s fp \<longleftrightarrow> (\<exists>e. Lookup s fp = Some e \<and> superseded_in (Lookup s) e)"
  by (auto simp: Superseded_def Lookup_def supersededLocked_iff split: option.splits)

section \<open>The operations keep the index well formed\<close>

lemma wf_new: "ledger_wf (new_Ledger t)" "Lookup (new_Ledger t) = Map.empty"
  by (auto simp: ledger_wf_def new_Ledger_def device_addrs_def Lookup_def)

lemma device_addrs_put:
  "device_addrs (s\<lparr>l_byDevice := gomap_put d as (l_byDevice s)\<rparr>) d' = (if d' = d then as else device_addrs s d')"
  by (simp add: device_addrs_def)

lemma wf_table [simp]: "ledger_wf (s\<lparr>l_table := t\<rparr>) \<longleftrightarrow> ledger_wf s" "Lookup (s\<lparr>l_table := t\<rparr>) = Lookup s"
  "device_addrs (s\<lparr>l_table := t\<rparr>) = device_addrs s"
  by (simp_all add: ledger_wf_def device_addrs_def Lookup_def fun_eq_iff)

lemma wf_indexLocked:
  assumes wf: "ledger_wf s" and fresh: "Lookup s (e_Fingerprint e) = None"
  shows "ledger_wf (indexLocked e s)" "Lookup (indexLocked e s) = (Lookup s)(e_Fingerprint e \<mapsto> e)"
proof -
  let ?a = "length (l_heap s)"
  have none: "map_of (l_byPrint s) (e_Fingerprint e) = None" using fresh by (simp add: Lookup_def)
  have old: "a < ?a" if "map_of (l_byPrint s) fp = Some a" for fp a
    using wf that by (auto simp: ledger_wf_def)
  have dev: "device_addrs (indexLocked e s) d =
      (if d = e_DeviceID e then device_addrs s d @ [?a] else device_addrs s d)" for d
    by (simp add: indexLocked_def Let_def device_addrs_def)
  have heap: "l_heap (indexLocked e s) ! a = (if a = ?a then e else l_heap s ! a)" if "a \<le> ?a" for a
    using that by (simp add: indexLocked_def Let_def nth_append)
  have print: "map_of (l_byPrint (indexLocked e s)) = (map_of (l_byPrint s))(e_Fingerprint e \<mapsto> ?a)"
    by (simp add: indexLocked_def Let_def)
  show "Lookup (indexLocked e s) = (Lookup s)(e_Fingerprint e \<mapsto> e)"
    using old by (auto simp: Lookup_def print heap fun_eq_iff map_option_case less_imp_le split: option.splits)
  have "a < length (l_heap (indexLocked e s)) \<and> e_Fingerprint (l_heap (indexLocked e s) ! a) = fp \<and>
      a \<in> set (device_addrs (indexLocked e s) (e_DeviceID (l_heap (indexLocked e s) ! a)))"
    if "map_of (l_byPrint (indexLocked e s)) fp = Some a" for fp a
  proof (cases "fp = e_Fingerprint e")
    case True
    then have "a = ?a" using that by (simp add: print)
    then show ?thesis using True heap [of a] dev by (simp add: indexLocked_def Let_def)
  next
    case False
    then have a: "map_of (l_byPrint s) fp = Some a" using that by (simp add: print)
    then have "l_heap (indexLocked e s) ! a = l_heap s ! a" using old heap [of a] by fastforce
    moreover have "e_Fingerprint (l_heap s ! a) = fp" "a \<in> set (device_addrs s (e_DeviceID (l_heap s ! a)))"
      using wf a unfolding ledger_wf_def by blast+
    moreover have "length (l_heap (indexLocked e s)) = Suc ?a" by (simp add: indexLocked_def Let_def)
    ultimately show ?thesis using old [OF a] dev
      by (cases "e_DeviceID (l_heap s ! a) = e_DeviceID e") simp_all
  qed
  moreover have "a < length (l_heap (indexLocked e s)) \<and> e_DeviceID (l_heap (indexLocked e s) ! a) = d \<and>
      map_of (l_byPrint (indexLocked e s)) (e_Fingerprint (l_heap (indexLocked e s) ! a)) = Some a"
    if "a \<in> set (device_addrs (indexLocked e s) d)" for d a
  proof (cases "a \<in> set (device_addrs s d)")
    case True
    then have a: "a < ?a" "e_DeviceID (l_heap s ! a) = d"
      "map_of (l_byPrint s) (e_Fingerprint (l_heap s ! a)) = Some a"
      using wf by (auto simp: ledger_wf_def)
    then have "e_Fingerprint (l_heap s ! a) \<noteq> e_Fingerprint e" using none by force
    then show ?thesis using a heap [of a] by (simp add: print) (simp add: indexLocked_def Let_def)
  next
    case False
    then have "a = ?a" "d = e_DeviceID e" using that by (auto simp: dev split: if_splits)
    then show ?thesis using heap [of a] by (simp add: print) (simp add: indexLocked_def Let_def)
  qed
  moreover have "gomap_wf (l_byPrint (indexLocked e s))"
    using wf by (simp add: indexLocked_def Let_def ledger_wf_def)
  ultimately show "ledger_wf (indexLocked e s)" unfolding ledger_wf_def by blast
qed

text \<open>Marking an entry seen.\<close>

lemma wf_printD:
  assumes "ledger_wf s" "map_of (l_byPrint s) fp = Some a"
  shows "a < length (l_heap s)" "e_Fingerprint (l_heap s ! a) = fp"
  using assms unfolding ledger_wf_def by blast+

abbreviation seen_at :: "addr \<Rightarrow> bool \<Rightarrow> Ledger \<Rightarrow> Ledger" where
  "seen_at a b s \<equiv> s\<lparr>l_heap := (l_heap s)[a := (l_heap s ! a)\<lparr>e_Seen := b\<rparr>]\<rparr>"

lemma seen_at_ids:
  "e_Fingerprint ((l_heap s)[a := (l_heap s ! a)\<lparr>e_Seen := b\<rparr>] ! j) = e_Fingerprint (l_heap s ! j)"
  "e_DeviceID ((l_heap s)[a := (l_heap s ! a)\<lparr>e_Seen := b\<rparr>] ! j) = e_DeviceID (l_heap s ! j)"
  by (rule nth_update_keeps, simp)+

lemma wf_seen: "ledger_wf s \<Longrightarrow> ledger_wf (seen_at a b s)"
proof -
  assume wf: "ledger_wf s"
  have dev: "device_addrs (seen_at a b s) = device_addrs s" by (simp add: device_addrs_def fun_eq_iff)
  have rest: "l_heap (seen_at a b s) = (l_heap s)[a := (l_heap s ! a)\<lparr>e_Seen := b\<rparr>]"
    "l_byPrint (seen_at a b s) = l_byPrint s" by simp_all
  show ?thesis unfolding ledger_wf_def dev rest length_list_update seen_at_ids
    using wf unfolding ledger_wf_def .
qed

lemma Lookup_seen:
  assumes wf: "ledger_wf s" and a: "map_of (l_byPrint s) fp = Some a"
  shows "Lookup (seen_at a b s) = (Lookup s)(fp \<mapsto> (l_heap s ! a)\<lparr>e_Seen := b\<rparr>)"
proof
  fix fp'
  show "Lookup (seen_at a b s) fp' = ((Lookup s)(fp \<mapsto> (l_heap s ! a)\<lparr>e_Seen := b\<rparr>)) fp'"
  proof (cases "map_of (l_byPrint s) fp'")
    case None
    then show ?thesis using a by (auto simp: Lookup_def)
  next
    case (Some a')
    have "fp' = fp" if "a' = a" using wf_printD(2) [OF wf Some] wf_printD(2) [OF wf a] that by simp
    moreover have "a' = a" if "fp' = fp" using Some a that by simp
    ultimately show ?thesis using Some wf_printD(1) [OF wf a]
      by (cases "a' = a") (auto simp: Lookup_def)
  qed
qed

lemma see_Lookup:
  assumes "ledger_wf s"
  shows "ledger_wf (snd (see fp s))"
    "Lookup (snd (see fp s)) = (case Lookup s fp of
       None \<Rightarrow> Lookup s | Some e \<Rightarrow> (Lookup s)(fp \<mapsto> e\<lparr>e_Seen := True\<rparr>))"
proof -
  have same: "(Lookup s)(fp \<mapsto> e\<lparr>e_Seen := True\<rparr>) = Lookup s" if "Lookup s fp = Some e" "e_Seen e" for e
    using that by (auto simp: fun_eq_iff)
  show "ledger_wf (snd (see fp s))"
    using assms wf_seen by (auto simp: see_def Let_def split: option.splits)
  show "Lookup (snd (see fp s)) = (case Lookup s fp of
       None \<Rightarrow> Lookup s | Some e \<Rightarrow> (Lookup s)(fp \<mapsto> e\<lparr>e_Seen := True\<rparr>))"
  proof (cases "map_of (l_byPrint s) fp")
    case None
    then show ?thesis by (simp add: see_def Lookup_def)
  next
    case (Some a)
    then have l: "Lookup s fp = Some (l_heap s ! a)" by (simp add: Lookup_def)
    show ?thesis
    proof (cases "e_Seen (l_heap s ! a)")
      case True
      then show ?thesis using Some same [OF l True] l by (simp add: see_def)
    next
      case False
      then show ?thesis using Some Lookup_seen [OF assms Some, of True] l by (simp add: see_def Let_def)
    qed
  qed
qed

text \<open>Forgetting entries.\<close>

lemma wf_forget_one:
  assumes wf: "ledger_wf s"
  shows "ledger_wf (forget_one fp s)" "Lookup (forget_one fp s) = (Lookup s)(fp := None)"
proof -
  show "Lookup (forget_one fp s) = (Lookup s)(fp := None)"
    by (auto simp: forget_one_def Let_def Lookup_def fun_eq_iff split: option.splits)
  show "ledger_wf (forget_one fp s)"
  proof (cases "map_of (l_byPrint s) fp")
    case None
    then show ?thesis using wf by (simp add: forget_one_def)
  next
    case (Some a)
    let ?s' = "forget_one fp s" and ?d = "e_DeviceID (l_heap s ! a)"
    have fp: "e_Fingerprint (l_heap s ! a) = fp" using wf Some unfolding ledger_wf_def by blast
    have heap: "l_heap ?s' = l_heap s" and print: "l_byPrint ?s' = gomap_del fp (l_byPrint s)"
      using Some by (simp_all add: forget_one_def Let_def)
    have dev: "set (device_addrs ?s' d) = set (device_addrs s d) - (if d = ?d then {a} else {})" for d
      using Some by (auto simp: forget_one_def Let_def device_addrs_def filter_empty_conv split: option.splits)
    have "j \<noteq> a" if "map_of (l_byPrint s) fp' = Some j" "fp' \<noteq> fp" for fp' j
      using wf that fp unfolding ledger_wf_def by blast
    then have "j < length (l_heap s) \<and> e_Fingerprint (l_heap s ! j) = fp' \<and>
        j \<in> set (device_addrs ?s' (e_DeviceID (l_heap s ! j)))"
      if "map_of (l_byPrint s) fp' = Some j" "fp' \<noteq> fp" for fp' j
      using wf that unfolding ledger_wf_def dev by auto
    moreover have "j < length (l_heap s) \<and> e_DeviceID (l_heap s ! j) = d \<and>
        map_of (l_byPrint ?s') (e_Fingerprint (l_heap s ! j)) = Some j"
      if "j \<in> set (device_addrs ?s' d)" for d j
    proof -
      have j: "j \<in> set (device_addrs s d)" "d = ?d \<longrightarrow> j \<noteq> a" using that dev [of d] by (auto split: if_splits)
      then have w: "j < length (l_heap s)" "e_DeviceID (l_heap s ! j) = d"
        "map_of (l_byPrint s) (e_Fingerprint (l_heap s ! j)) = Some j"
        using wf unfolding ledger_wf_def by blast+
      then have "e_Fingerprint (l_heap s ! j) \<noteq> fp" using Some j(2) by auto
      then show ?thesis using w by (simp add: print)
    qed
    moreover have "gomap_wf (l_byPrint ?s')" using wf by (simp add: print ledger_wf_def)
    ultimately show ?thesis unfolding ledger_wf_def heap by (auto simp: print split: if_splits)
  qed
qed

lemma wf_forget:
  assumes "ledger_wf s"
  shows "ledger_wf (ledger_forget prints s) \<and>
    Lookup (ledger_forget prints s) = (\<lambda>fp. if fp \<in> set prints then None else Lookup s fp)"
  using assms
proof (induction prints arbitrary: s)
  case (Cons p prints)
  then show ?case using wf_forget_one [of s p] by (auto simp: ledger_forget_def fun_eq_iff)
qed (simp add: ledger_forget_def)


section \<open>What a sighting and a pruning change\<close>

lemma supersededI:
  "Lookup s fp' = Some e' \<Longrightarrow> e_DeviceID e' = e_DeviceID e \<Longrightarrow> e_Seen e' \<Longrightarrow> later e' e \<Longrightarrow>
   superseded_in (Lookup s) e"
  unfolding superseded_in_def by blast

text \<open>
  Over the entries alone: an entry that becomes seen supersedes what it is later than among its
  device's, and nothing else changes.
\<close>

lemma superseded_in_seen:
  assumes "m fp = Some e"
  shows "superseded_in (m(fp \<mapsto> e\<lparr>e_Seen := True\<rparr>)) x \<longleftrightarrow>
    superseded_in m x \<or> e_DeviceID e = e_DeviceID x \<and> later e x"
proof -
  have "superseded_in (m(fp \<mapsto> e\<lparr>e_Seen := True\<rparr>)) x" if "superseded_in m x"
  proof -
    from that obtain fp' e' where "m fp' = Some e'" "e_DeviceID e' = e_DeviceID x" "e_Seen e'" "later e' x"
      by (auto simp: superseded_in_def)
    then show ?thesis using assms unfolding superseded_in_def
      by (cases "fp' = fp") (auto intro!: exI [of _ fp'])
  qed
  moreover have "superseded_in (m(fp \<mapsto> e\<lparr>e_Seen := True\<rparr>)) x" if "e_DeviceID e = e_DeviceID x" "later e x"
    using that unfolding superseded_in_def by (auto intro!: exI [of _ fp])
  moreover have "superseded_in m x \<or> e_DeviceID e = e_DeviceID x \<and> later e x"
    if "superseded_in (m(fp \<mapsto> e\<lparr>e_Seen := True\<rparr>)) x"
    using that by (auto simp: superseded_in_def split: if_splits)
  ultimately show ?thesis by blast
qed

lemma see_older:
  assumes wf: "ledger_wf s" and e: "Lookup s fp = Some e" and new: "\<not> e_Seen e"
  shows "fst (fst (see fp s)) = map (\<lambda>b. e_Fingerprint (l_heap s ! b))
           (filter (\<lambda>b. later e (l_heap s ! b)) (device_addrs s (e_DeviceID e)))"
    and "snd (fst (see fp s))"
proof -
  from e obtain a where a: "map_of (l_byPrint s) fp = Some a" and [simp]: "e = l_heap s ! a"
    by (auto simp: Lookup_def)
  have "(b \<noteq> a \<and> later (e\<lparr>e_Seen := True\<rparr>) ((l_heap s)[a := e\<lparr>e_Seen := True\<rparr>] ! b)) = later e (l_heap s ! b)" for b
    by (cases "b = a") auto
  then show "fst (fst (see fp s)) = map (\<lambda>b. e_Fingerprint (l_heap s ! b))
           (filter (\<lambda>b. later e (l_heap s ! b)) (device_addrs s (e_DeviceID e)))"
    using a new by (simp add: see_def Let_def seen_at_ids)
  show "snd (fst (see fp s))" using a new by (simp add: see_def Let_def)
qed

lemma see_older_iff:
  assumes wf: "ledger_wf s" and e: "Lookup s fp = Some e" and new: "\<not> e_Seen e"
  shows "x \<in> set (fst (fst (see fp s))) \<longleftrightarrow>
    (\<exists>e'. Lookup s x = Some e' \<and> e_DeviceID e' = e_DeviceID e \<and> later e e')"
proof
  assume "x \<in> set (fst (fst (see fp s)))"
  then show "\<exists>e'. Lookup s x = Some e' \<and> e_DeviceID e' = e_DeviceID e \<and> later e e'"
    using device_addrs_Lookup [OF wf] unfolding see_older(1) [OF assms] by fastforce
next
  assume "\<exists>e'. Lookup s x = Some e' \<and> e_DeviceID e' = e_DeviceID e \<and> later e e'"
  then obtain e' where e': "Lookup s x = Some e'" "e_DeviceID e' = e_DeviceID e" "later e e'" by blast
  from LookupD [OF wf e'(1)] obtain a where
    "l_heap s ! a = e'" "a \<in> set (device_addrs s (e_DeviceID e'))" "e_Fingerprint e' = x" by metis
  then show "x \<in> set (fst (fst (see fp s)))"
    using e' unfolding see_older(1) [OF assms] by force
qed

lemma see_nothing:
  "Lookup s fp = None \<or> (\<exists>e. Lookup s fp = Some e \<and> e_Seen e) \<Longrightarrow> see fp s = (([], False), s)"
  by (auto simp: see_def Lookup_def split: option.splits)

text \<open>A finite set of entries of a device that is superseded at all is superseded by one that is not.\<close>

lemma later_maximal:
  assumes "finite A" "a \<in> A"
  shows "\<exists>m \<in> A. (m = a \<or> later m a) \<and> (\<forall>x \<in> A. \<not> later x m)"
proof -
  let ?B = "{y \<in> A. y = a \<or> later y a}"
  have "asymp_on ?B later" "transp_on ?B later"
    using later_trans later_irrefl unfolding asymp_on_def transp_on_def by blast+
  moreover have "finite ?B" "?B \<noteq> {}" using assms by auto
  ultimately obtain m where m: "m \<in> ?B" "\<And>x. x \<in> ?B \<Longrightarrow> x \<noteq> m \<Longrightarrow> \<not> later x m"
    using Finite_Set.bex_min_element [of ?B later] by blast
  have "\<not> later x m" if "x \<in> A" for x
  proof
    assume l: "later x m"
    then have "later x a" using m(1) later_trans [OF l] by auto
    then show False using m(2) [of x] l that by (cases "x = m") auto
  qed
  then show ?thesis using m(1) by blast
qed

lemma finite_Lookup: "finite (ran (Lookup s))"
proof (rule finite_subset)
  show "ran (Lookup s) \<subseteq> (!) (l_heap s) ` snd ` set (l_byPrint s)"
    by (auto simp: Lookup_def ran_def dest!: map_of_SomeD) force
qed simp

text \<open>
  Dropping superseded entries, whatever else decides which, leaves the verdict on those that stay:
  the latest seen entry of a device is never superseded, so it stays and still supersedes.
\<close>

lemma superseded_in_drop:
  assumes fin: "finite (ran m)" and drop: "\<And>fp e. fp \<in> D \<Longrightarrow> m fp = Some e \<Longrightarrow> superseded_in m e"
  shows "superseded_in (\<lambda>fp. if fp \<in> D then None else m fp) e \<longleftrightarrow> superseded_in m e"
proof
  assume "superseded_in m e"
  then obtain fp e' where e': "m fp = Some e'" "e_DeviceID e' = e_DeviceID e" "e_Seen e'" "later e' e"
    by (auto simp: superseded_in_def)
  let ?A = "{x \<in> ran m. e_DeviceID x = e_DeviceID e \<and> e_Seen x}"
  have "e' \<in> ?A" using e' by (auto simp: ran_def)
  then obtain k where k: "k \<in> ?A" "k = e' \<or> later k e'" "\<forall>x \<in> ?A. \<not> later x k"
    using later_maximal [of ?A e'] fin by auto
  then obtain fk where fk: "m fk = Some k" by (auto simp: ran_def)
  have "\<not> superseded_in m k" using k by (auto simp: superseded_in_def ran_def)
  then have "fk \<notin> D" using drop fk by blast
  moreover have "later k e" using k e' later_trans by blast
  ultimately show "superseded_in (\<lambda>fp. if fp \<in> D then None else m fp) e"
    using fk k by (auto simp: superseded_in_def)
qed (auto simp: superseded_in_def split: if_splits)

lemma doomed_iff:
  assumes wf: "ledger_wf s"
  shows "fp \<in> set (doomed now grace s) \<longleftrightarrow>
    (\<exists>e. Lookup s fp = Some e \<and> e_NotAfter e < now - grace \<and> superseded_in (Lookup s) e)"
proof -
  have g: "gomap_wf (l_byPrint s)" using wf by (simp add: ledger_wf_def)
  have "fp \<in> set (doomed now grace s) \<longleftrightarrow>
      (\<exists>fp' a. map_of (l_byPrint s) fp' = Some a \<and> e_Fingerprint (l_heap s ! a) = fp \<and>
        e_NotAfter (l_heap s ! a) < now - grace \<and> superseded_in (Lookup s) (l_heap s ! a))"
    unfolding doomed_def supersededLocked_iff [OF wf] by (auto simp: gomap_mem_map_of [OF g] image_iff Bex_def)
  also have "\<dots> \<longleftrightarrow> (\<exists>a. map_of (l_byPrint s) fp = Some a \<and>
        e_NotAfter (l_heap s ! a) < now - grace \<and> superseded_in (Lookup s) (l_heap s ! a))"
    using wf_printD(2) [OF wf] by blast
  finally show ?thesis by (auto simp: Lookup_def)
qed

end
