(* ===== verification/Cert_Index.thy ===== *)
theory Cert_Index
  imports Cert_Ledger
begin

text \<open>
  Correctness of the certificate ledger: what a sighting and a pruning change of the verdicts, that
  the index in memory agrees with the table behind it, and that a restart therefore loses nothing.
\<close>

section \<open>The index and the table\<close>

text \<open>The entries the rows stand for, and the operations as the server runs them: every statement succeeds.\<close>

definition table_lookup :: "ledger_row list \<Rightarrow> fingerprint \<Rightarrow> Entry option" where
  "table_lookup t fp = map_option scan_row (map_of (map (\<lambda>r. (e_Fingerprint (row_entry r), r)) t) fp)"

datatype ledger_op =
  OpRecord x509_cert bytes Source instant
| OpClaim "uuid \<Rightarrow> bool" x509_cert bytes instant
| OpSeen fingerprint instant
| OpInstalled fingerprint instant
| OpPrune instant duration

fun run_ledger_op :: "ledger_ops \<Rightarrow> ledger_op \<Rightarrow> Ledger \<Rightarrow> Ledger" where
  "run_ledger_op ops (OpRecord leaf h src t) s = snd (Record ops False leaf h src t s)"
| "run_ledger_op ops (OpClaim held leaf h t) s = snd (Claim ops False held leaf h t s)"
| "run_ledger_op ops (OpSeen fp t) s =
     (if snd (fst (see fp s)) then writeSeen fp t (snd (MarkSeen fp s)) else snd (MarkSeen fp s))"
| "run_ledger_op ops (OpInstalled fp t) s = snd (MarkInstalled False fp t s)"
| "run_ledger_op ops (OpPrune now grace) s = snd (Prune None now grace s)"

text \<open>
  The index agrees with the table when every row is an entry, as the column types store it, and
  nothing else is.
\<close>

definition ledger_agrees :: "ledger_ops \<Rightarrow> Ledger \<Rightarrow> bool" where
  "ledger_agrees ops s \<longleftrightarrow>
     ledger_wf s \<and> distinct (map (\<lambda>r. e_Fingerprint (row_entry r)) (l_table s)) \<and>
     table_lookup (l_table s) = map_option (stored_entry ops) \<circ> Lookup s"

lemma scan_row_simps [simp]:
  "e_Fingerprint (scan_row r) = e_Fingerprint (row_entry r)"
  "e_DeviceID (scan_row r) = e_DeviceID (row_entry r)"
  by (simp_all add: scan_row_def)

lemma stored_simps [simp]:
  "e_Fingerprint (stored_entry ops e) = e_Fingerprint e" "e_DeviceID (stored_entry ops e) = e_DeviceID e"
  "e_Seen (stored_entry ops e) = e_Seen e"
  "stored_entry ops (e\<lparr>e_Seen := b\<rparr>) = (stored_entry ops e)\<lparr>e_Seen := b\<rparr>"
  by (simp_all add: stored_entry_def)

lemma table_lookup_Nil [simp]: "table_lookup [] = Map.empty"
  by (simp add: table_lookup_def fun_eq_iff)

lemma table_lookup_Cons:
  "table_lookup (r # t) fp = (if fp = e_Fingerprint (row_entry r) then Some (scan_row r) else table_lookup t fp)"
  by (simp add: table_lookup_def)

lemma map_of_rows_None:
  "map_of (map (\<lambda>r. (f r, r)) t) fp = None \<longleftrightarrow> fp \<notin> f ` set t"
  by (simp add: map_of_eq_None_iff image_image)

lemma has_row_iff: "has_row s fp \<longleftrightarrow> table_lookup (l_table s) fp \<noteq> None"
  by (auto simp: has_row_def table_lookup_def list_ex_iff map_of_rows_None)

lemma table_lookup_snoc:
  assumes "table_lookup t (e_Fingerprint (row_entry r)) = None"
  shows "table_lookup (t @ [r]) = (table_lookup t)(e_Fingerprint (row_entry r) \<mapsto> scan_row r)"
  using assms by (auto simp: table_lookup_def fun_eq_iff map_add_def split: option.splits)

lemma table_lookup_filter:
  "distinct (map (\<lambda>r. e_Fingerprint (row_entry r)) t) \<Longrightarrow>
   table_lookup (filter (\<lambda>r. P (e_Fingerprint (row_entry r))) t) fp = (if P fp then table_lookup t fp else None)"
proof -
  have "map_of (map (\<lambda>r. (f r, r)) (filter (\<lambda>r. P (f r)) t)) fp =
      (if P fp then map_of (map (\<lambda>r. (f r, r)) t) fp else None)" for f :: "ledger_row \<Rightarrow> fingerprint"
    by (induction t) auto
  from this [of "\<lambda>r. e_Fingerprint (row_entry r)"] show ?thesis by (simp add: table_lookup_def)
qed

lemma table_lookup_seen:
  "table_lookup (map (\<lambda>row. if e_Fingerprint (row_entry row) = fp \<and> row_firstSeenAt row = None
                            then row\<lparr>row_firstSeenAt := Some t\<rparr> else row) rows) fp' =
   (if fp' = fp then map_option (\<lambda>e. e\<lparr>e_Seen := True\<rparr>) (table_lookup rows fp) else table_lookup rows fp')"
proof -
  let ?f = "\<lambda>row. if e_Fingerprint (row_entry row) = fp \<and> row_firstSeenAt row = None
                   then row\<lparr>row_firstSeenAt := Some t\<rparr> else row"
  have f: "e_Fingerprint (row_entry (?f r)) = e_Fingerprint (row_entry r)"
    "scan_row (?f r) = (if e_Fingerprint (row_entry r) = fp then (scan_row r)\<lparr>e_Seen := True\<rparr> else scan_row r)" for r
    by (cases "row_firstSeenAt r", simp_all add: scan_row_def)+
  show ?thesis
  proof (induction rows)
    case (Cons r rows)
    then show ?case unfolding table_lookup_Cons list.map f
      by (cases "e_Fingerprint (row_entry r) = fp"; cases "fp' = e_Fingerprint (row_entry r)") auto
  qed simp
qed

text \<open>Filling an index from rows with distinct fingerprints.\<close>

lemma Warm_fold:
  assumes "ledger_wf s" "distinct (map (\<lambda>r. e_Fingerprint (row_entry r)) t)"
    "\<And>r. r \<in> set t \<Longrightarrow> Lookup s (e_Fingerprint (row_entry r)) = None"
  shows "ledger_wf (fold (\<lambda>row. indexLocked (scan_row row)) t s) \<and>
    Lookup (fold (\<lambda>row. indexLocked (scan_row row)) t s) = Lookup s ++ table_lookup t"
  using assms
proof (induction t arbitrary: s)
  case Nil
  then show ?case by simp
next
  case (Cons r t)
  let ?s = "indexLocked (scan_row r) s"
  have wf: "ledger_wf ?s" and L: "Lookup ?s = (Lookup s)(e_Fingerprint (row_entry r) \<mapsto> scan_row r)"
    using wf_indexLocked [of s "scan_row r"] Cons.prems by auto
  have "Lookup ?s (e_Fingerprint (row_entry x)) = None" if "x \<in> set t" for x
  proof -
    have "e_Fingerprint (row_entry x) \<noteq> e_Fingerprint (row_entry r)" using Cons.prems(2) that by (auto simp: image_iff)
    then show ?thesis using Cons.prems(3) [of x] that by (simp add: L)
  qed
  then have IH: "ledger_wf (fold (\<lambda>row. indexLocked (scan_row row)) t ?s) \<and>
      Lookup (fold (\<lambda>row. indexLocked (scan_row row)) t ?s) = Lookup ?s ++ table_lookup t"
    using Cons.IH [OF wf] Cons.prems by simp
  have "table_lookup t (e_Fingerprint (row_entry r)) = None"
    using Cons.prems(2) by (auto simp: table_lookup_def map_of_rows_None)
  then have "Lookup ?s ++ table_lookup t = Lookup s ++ table_lookup (r # t)"
    by (auto simp: L map_add_def fun_eq_iff table_lookup_def split: option.splits)
  then show ?case using IH by simp
qed

lemma Warm_new:
  assumes "distinct (map (\<lambda>r. e_Fingerprint (row_entry r)) t)"
  shows "ledger_wf (snd (Warm None (new_Ledger t)))" "Lookup (snd (Warm None (new_Ledger t))) = table_lookup t"
proof -
  have t: "l_table (new_Ledger t) = t" by (simp add: new_Ledger_def)
  have "ledger_wf (fold (\<lambda>row. indexLocked (scan_row row)) t (new_Ledger t)) \<and>
      Lookup (fold (\<lambda>row. indexLocked (scan_row row)) t (new_Ledger t)) = Lookup (new_Ledger t) ++ table_lookup t"
    by (rule Warm_fold [OF wf_new(1) assms]) (simp add: wf_new)
  then show "ledger_wf (snd (Warm None (new_Ledger t)))" "Lookup (snd (Warm None (new_Ledger t))) = table_lookup t"
    by (simp_all add: Warm_def t wf_new)
qed

section \<open>Every operation keeps the agreement\<close>

lemma agrees_new: "ledger_agrees ops (new_Ledger [])"
  using wf_new [of "[]"] by (simp add: ledger_agrees_def new_Ledger_def fun_eq_iff)

lemma agrees_insert:
  assumes ag: "ledger_agrees ops s" and fresh: "\<not> has_row s (e_Fingerprint e)" and unseen: "\<not> e_Seen e"
  shows "ledger_agrees ops (snd (ledger_index e (insert_row ops e s)))"
proof -
  let ?r = "\<lparr>row_entry = stored_entry ops e, row_firstSeenAt = None\<rparr>"
  have none: "table_lookup (l_table s) (e_Fingerprint e) = None" using fresh by (simp add: has_row_iff)
  then have "Lookup s (e_Fingerprint e) = None" using ag by (auto simp: ledger_agrees_def fun_eq_iff)
  moreover have "Lookup (insert_row ops e s) = Lookup s" "ledger_wf (insert_row ops e s)"
    using ag by (simp_all add: insert_row_def ledger_agrees_def)
  ultimately have i: "ledger_wf (indexLocked e (insert_row ops e s))"
    "Lookup (indexLocked e (insert_row ops e s)) = (Lookup s)(e_Fingerprint e \<mapsto> e)"
    "snd (ledger_index e (insert_row ops e s)) = indexLocked e (insert_row ops e s)"
    using wf_indexLocked [of "insert_row ops e s" e] by (auto simp: ledger_index_def Lookup_def insert_row_def)
  have t: "l_table (indexLocked e (insert_row ops e s)) = l_table s @ [?r]"
    by (simp add: indexLocked_def Let_def insert_row_def)
  have "e_Fingerprint e \<notin> (\<lambda>r. e_Fingerprint (row_entry r)) ` set (l_table s)"
    using none by (simp add: table_lookup_def map_of_rows_None)
  then have "distinct (map (\<lambda>r. e_Fingerprint (row_entry r)) (l_table s @ [?r]))"
    using ag by (auto simp: ledger_agrees_def)
  moreover have "scan_row ?r = stored_entry ops e" using unseen by (simp add: scan_row_def)
  then have "table_lookup (l_table s @ [?r]) = map_option (stored_entry ops) \<circ> (Lookup s)(e_Fingerprint e \<mapsto> e)"
    using table_lookup_snoc [of "l_table s" ?r] none ag by (auto simp: ledger_agrees_def fun_eq_iff)
  ultimately show ?thesis using i t by (simp add: ledger_agrees_def)
qed

lemma entryFor_unseen: "entryFor ops leaf h src t = Some e \<Longrightarrow> \<not> e_Seen e"
  by (auto simp: entryFor_def)

lemma agrees_Record:
  assumes ag: "ledger_agrees ops s"
  shows "ledger_agrees ops (snd (Record ops False leaf h src t s))"
proof (cases "entryFor ops leaf h src t")
  case None
  then show ?thesis using ag by (simp add: Record_def)
next
  case (Some e)
  show ?thesis
  proof (cases "has_row s (e_Fingerprint e)")
    case True
    then have "Lookup s (e_Fingerprint e) \<noteq> None"
      using ag by (auto simp: ledger_agrees_def has_row_iff fun_eq_iff)
    then have "snd (ledger_index e s) = s" by (auto simp: ledger_index_def Lookup_def)
    then show ?thesis using ag Some True by (simp add: Record_def case_prod_unfold)
  next
    case False
    then show ?thesis using agrees_insert [OF ag False entryFor_unseen [OF Some]] Some
      by (simp add: Record_def case_prod_unfold)
  qed
qed

lemma agrees_Claim:
  assumes ag: "ledger_agrees ops s"
  shows "ledger_agrees ops (snd (Claim ops False held leaf h t s))"
proof (cases "entryFor ops leaf h SourceEnroll t")
  case None
  then show ?thesis using ag by (simp add: Claim_def)
next
  case (Some e)
  then show ?thesis using ag agrees_insert [OF ag _ entryFor_unseen [OF Some]]
    by (simp add: Claim_def case_prod_unfold)
qed

lemma agrees_writeSeen:
  assumes ag: "ledger_agrees ops s" and new: "snd (fst (see fp s))"
  shows "ledger_agrees ops (writeSeen fp t (snd (see fp s)))"
proof -
  have wf: "ledger_wf s" using ag by (simp add: ledger_agrees_def)
  obtain e where e: "Lookup s fp = Some e" "\<not> e_Seen e"
    using new by (auto simp: see_def Lookup_def Let_def split: option.splits if_splits)
  have tab: "l_table (snd (see fp s)) = l_table s"
    by (simp add: see_def Let_def split: option.split)
  have L: "Lookup (snd (see fp s)) = (Lookup s)(fp \<mapsto> e\<lparr>e_Seen := True\<rparr>)"
    using see_Lookup(2) [OF wf, of fp] e by simp
  have "table_lookup (l_table (writeSeen fp t (snd (see fp s)))) =
      map_option (stored_entry ops) \<circ> Lookup (snd (see fp s))"
    using ag e by (auto simp: writeSeen_def tab table_lookup_seen L ledger_agrees_def fun_eq_iff)
  moreover have "map (\<lambda>r. e_Fingerprint (row_entry r)) (l_table (writeSeen fp t (snd (see fp s)))) =
      map (\<lambda>r. e_Fingerprint (row_entry r)) (l_table s)"
    by (auto simp: writeSeen_def tab)
  ultimately show ?thesis
    using ag see_Lookup(1) [OF wf] by (simp add: ledger_agrees_def writeSeen_def)
qed

lemma see_unchanged: "\<not> snd (fst (see fp s)) \<Longrightarrow> snd (see fp s) = s"
  by (auto simp: see_def Let_def split: option.splits if_splits)

lemma delete_rows_Lookup [simp]: "Lookup (delete_rows D s) = Lookup s"
  by (simp add: delete_rows_def)

lemma agrees_Prune:
  assumes ag: "ledger_agrees ops s"
  shows "ledger_agrees ops (snd (Prune None now grace s))"
proof -
  let ?D = "doomed now grace s"
  have wf: "ledger_wf (delete_rows ?D s)" using ag by (simp add: delete_rows_def ledger_agrees_def)
  have fg: "ledger_wf (ledger_forget ?D (delete_rows ?D s))"
    "Lookup (ledger_forget ?D (delete_rows ?D s)) = (\<lambda>fp. if fp \<in> set ?D then None else Lookup s fp)"
    using wf_forget [OF wf, of ?D] unfolding delete_rows_Lookup by blast+
  have tab: "l_table (ledger_forget prints u) = l_table u" for prints u
    unfolding ledger_forget_def
    by (induction prints arbitrary: u) (simp_all add: forget_one_def Let_def split: option.split)
  have d: "distinct (map (\<lambda>r. e_Fingerprint (row_entry r)) (l_table s))" using ag by (simp add: ledger_agrees_def)
  have "ledger_agrees ops (ledger_forget ?D (delete_rows ?D s))"
    unfolding ledger_agrees_def tab
  proof (intro conjI ext)
    show "distinct (map (\<lambda>r. e_Fingerprint (row_entry r)) (l_table (delete_rows ?D s)))"
      using d by (simp add: delete_rows_def distinct_map_filter)
    show "table_lookup (l_table (delete_rows ?D s)) fp =
        (map_option (stored_entry ops) \<circ> Lookup (ledger_forget ?D (delete_rows ?D s))) fp" for fp
      using ag table_lookup_filter [OF d, of "\<lambda>fp. fp \<notin> set ?D"]
      by (simp add: fg(2) ledger_agrees_def) (simp add: delete_rows_def)
  qed (rule fg(1))
  then show ?thesis using ag by (simp add: Prune_def Let_def)
qed

lemma agrees_run: "ledger_agrees ops s \<Longrightarrow> ledger_agrees ops (run_ledger_op ops a s)"
  using agrees_Record agrees_Claim agrees_Prune agrees_writeSeen
  by (cases a) (auto simp: MarkSeen_def MarkInstalled_def case_prod_unfold see_unchanged split: bool.split)

lemma agrees_runs: "ledger_agrees ops s \<Longrightarrow> ledger_agrees ops (fold (run_ledger_op ops) as s)"
  by (induction as arbitrary: s) (simp_all add: agrees_run)

section \<open>The ledger as admission uses it\<close>

text \<open>
  What the agent server relies on: the verdict on a certificate is decided by the entries, and
  marking one seen changes that entry alone and names the certificates it supersedes.
\<close>

locale certificate_ledger =
  fixes ok :: "'s \<Rightarrow> bool" and lookup :: "'s \<Rightarrow> fingerprint \<Rightarrow> Entry option"
    and superseded :: "'s \<Rightarrow> fingerprint \<Rightarrow> bool"
    and mark :: "fingerprint \<Rightarrow> 's \<Rightarrow> fingerprint list \<times> 's"
  assumes superseded_spec:
    "ok s \<Longrightarrow> superseded s fp \<longleftrightarrow> (\<exists>e. lookup s fp = Some e \<and> superseded_in (lookup s) e)"
    and mark_ok: "ok s \<Longrightarrow> ok (snd (mark fp s))"
    and mark_lookup: "ok s \<Longrightarrow> lookup (snd (mark fp s)) =
      (case lookup s fp of None \<Rightarrow> lookup s | Some e \<Rightarrow> (lookup s)(fp \<mapsto> e\<lparr>e_Seen := True\<rparr>))"
    and mark_older: "ok s \<Longrightarrow> lookup s fp = Some e \<Longrightarrow> \<not> e_Seen e \<Longrightarrow>
      x \<in> set (fst (mark fp s)) \<longleftrightarrow> (\<exists>e'. lookup s x = Some e' \<and> e_DeviceID e' = e_DeviceID e \<and> later e e')"
    and mark_again: "lookup s fp = None \<or> (\<exists>e. lookup s fp = Some e \<and> e_Seen e) \<Longrightarrow> mark fp s = ([], s)"
begin

lemma mark_supersedes:
  assumes ok: "ok s"
  shows "superseded (snd (mark fp s)) x \<longleftrightarrow> superseded s x \<or> x \<in> set (fst (mark fp s))"
proof (cases "\<exists>e. lookup s fp = Some e \<and> \<not> e_Seen e")
  case False
  then have "lookup s fp = None \<or> (\<exists>e. lookup s fp = Some e \<and> e_Seen e)" by (cases "lookup s fp") auto
  then have "mark fp s = ([], s)" by (rule mark_again)
  then show ?thesis by simp
next
  case True
  then obtain e where e: "lookup s fp = Some e" "\<not> e_Seen e" by blast
  let ?m = "(lookup s)(fp \<mapsto> e\<lparr>e_Seen := True\<rparr>)"
  have m: "lookup (snd (mark fp s)) = ?m" using mark_lookup [OF ok, of fp] e by simp
  have dev: "superseded_in m (y\<lparr>e_Seen := True\<rparr>) = superseded_in m y" for m y
    by (simp add: superseded_in_def)
  have "superseded (snd (mark fp s)) x \<longleftrightarrow> (\<exists>y. lookup s x = Some y \<and> superseded_in ?m y)"
    using superseded_spec [OF mark_ok [OF ok], of fp x] e dev unfolding m by auto
  also have "\<dots> \<longleftrightarrow> superseded s x \<or> (\<exists>y. lookup s x = Some y \<and> e_DeviceID e = e_DeviceID y \<and> later e y)"
    unfolding superseded_in_seen [of "lookup s", OF e(1)] superseded_spec [OF ok] by blast
  also have "\<dots> \<longleftrightarrow> superseded s x \<or> x \<in> set (fst (mark fp s))"
    unfolding mark_older [OF ok e] by auto
  finally show ?thesis .
qed

lemma mark_keeps_superseded: "ok s \<Longrightarrow> superseded s x \<Longrightarrow> superseded (snd (mark fp s)) x"
  by (simp add: mark_supersedes)

text \<open>A certificate that was current when it was marked is not superseded by being marked.\<close>

lemma mark_stays_current: "ok s \<Longrightarrow> \<not> superseded s fp \<Longrightarrow> \<not> superseded (snd (mark fp s)) fp"
proof -
  assume ok: "ok s" and "\<not> superseded s fp"
  moreover have "fp \<notin> set (fst (mark fp s))"
  proof (cases "\<exists>e. lookup s fp = Some e \<and> \<not> e_Seen e")
    case True
    then show ?thesis using mark_older [OF ok, of fp] by auto
  next
    case False
    then have "mark fp s = ([], s)" by (intro mark_again) (cases "lookup s fp", auto)
    then show ?thesis by simp
  qed
  ultimately show ?thesis by (simp add: mark_supersedes)
qed

end

interpretation idx: certificate_ledger ledger_wf Lookup Superseded MarkSeen
proof unfold_locales
  show "Superseded s fp \<longleftrightarrow> (\<exists>e. Lookup s fp = Some e \<and> superseded_in (Lookup s) e)" if "ledger_wf s" for s fp
    using that by (rule Superseded_iff)
  show "ledger_wf (snd (MarkSeen fp s))" if "ledger_wf s" for s fp
    using see_Lookup(1) [OF that] by (simp add: MarkSeen_def case_prod_unfold)
  show "Lookup (snd (MarkSeen fp s)) =
      (case Lookup s fp of None \<Rightarrow> Lookup s | Some e \<Rightarrow> (Lookup s)(fp \<mapsto> e\<lparr>e_Seen := True\<rparr>))"
    if "ledger_wf s" for s fp
    using see_Lookup(2) [OF that] by (simp add: MarkSeen_def case_prod_unfold)
  show "x \<in> set (fst (MarkSeen fp s)) \<longleftrightarrow>
      (\<exists>e'. Lookup s x = Some e' \<and> e_DeviceID e' = e_DeviceID e \<and> later e e')"
    if "ledger_wf s" "Lookup s fp = Some e" "\<not> e_Seen e" for s fp e x
    using see_older_iff [OF that] by (simp add: MarkSeen_def case_prod_unfold)
  show "MarkSeen fp s = ([], s)" if "Lookup s fp = None \<or> (\<exists>e. Lookup s fp = Some e \<and> e_Seen e)" for s fp
    using see_nothing [OF that] by (simp add: MarkSeen_def)
qed

section \<open>Every ledger the server can reach\<close>

text \<open>
  The ledger starts by warming up from a table, whose fingerprints are distinct because they are its
  primary key, and then runs its operations in any order, each of whose statements may be refused.
\<close>

definition ledger_start :: "Ledger \<Rightarrow> bool" where
  "ledger_start s \<longleftrightarrow>
     (\<exists>t k. distinct (map (\<lambda>r. e_Fingerprint (row_entry r)) t) \<and> s = snd (Warm k (new_Ledger t)))"

inductive ledger_step :: "ledger_ops \<Rightarrow> Ledger \<Rightarrow> Ledger \<Rightarrow> bool" for ops where
  step_record: "ledger_step ops s (snd (Record ops refused leaf h src t s))"
| step_claim: "ledger_step ops s (snd (Claim ops refused held leaf h t s))"
| step_seen: "ledger_step ops s (snd (MarkSeen fp s))"
| step_persist: "ledger_step ops s (writeSeen fp t s)"
| step_installed: "ledger_step ops s (snd (MarkInstalled refused fp t s))"
| step_forget: "ledger_step ops s (ForgetDevice d s)"
| step_prune: "ledger_step ops s (snd (Prune refusedAt now grace s))"

lemma wf_ledger_index: "ledger_wf s \<Longrightarrow> ledger_wf (snd (ledger_index e s))"
  using wf_indexLocked(1) [of s e] by (auto simp: ledger_index_def Lookup_def split: option.split)

lemma wf_tables [simp]:
  "ledger_wf (insert_row ops e s) = ledger_wf s" "ledger_wf (writeSeen fp t s) = ledger_wf s"
  "ledger_wf (delete_rows D s) = ledger_wf s"
  by (simp_all add: insert_row_def writeSeen_def delete_rows_def)

lemma wf_Record: "ledger_wf s \<Longrightarrow> ledger_wf (snd (Record ops refused leaf h src t s))"
  by (auto simp: Record_def case_prod_unfold wf_ledger_index split: option.split)

lemma wf_Claim: "ledger_wf s \<Longrightarrow> ledger_wf (snd (Claim ops refused held leaf h t s))"
  by (auto simp: Claim_def case_prod_unfold wf_ledger_index split: option.split)

lemma wf_MarkInstalled: "ledger_wf s \<Longrightarrow> ledger_wf (snd (MarkInstalled refused fp t s))"
  using see_Lookup(1) [of s fp] by (auto simp: MarkInstalled_def case_prod_unfold split: bool.split)

lemma wf_Prune: "ledger_wf s \<Longrightarrow> ledger_wf (snd (Prune refusedAt now grace s))"
  by (auto simp: Prune_def Let_def wf_forget split: option.split)

lemma fold_gomap_del: "map_of (fold (\<lambda>a. gomap_del (f a)) as m) k = (if k \<in> f ` set as then None else map_of m k)"
  by (induction as arbitrary: m) auto

lemma wf_ForgetDevice: "ledger_wf s \<Longrightarrow> ledger_wf (ForgetDevice d s)"
proof -
  assume wf: "ledger_wf s"
  let ?s' = "ForgetDevice d s"
  have dev: "device_addrs ?s' d' = (if d' = d then [] else device_addrs s d')" for d'
    by (simp add: ForgetDevice_def device_addrs_def)
  have heap: "l_heap ?s' = l_heap s" by (simp add: ForgetDevice_def)
  have print: "map_of (l_byPrint ?s') fp = Some a \<longleftrightarrow>
      map_of (l_byPrint s) fp = Some a \<and> e_DeviceID (l_heap s ! a) \<noteq> d" for fp a
  proof -
    have "map_of (l_byPrint ?s') fp = (if fp \<in> (\<lambda>a. e_Fingerprint (l_heap s ! a)) ` set (device_addrs s d)
        then None else map_of (l_byPrint s) fp)"
      unfolding ForgetDevice_def by (simp add: fold_gomap_del)
    moreover have "fp \<in> (\<lambda>a. e_Fingerprint (l_heap s ! a)) ` set (device_addrs s d) \<longleftrightarrow>
        e_DeviceID (l_heap s ! a) = d" if "map_of (l_byPrint s) fp = Some a"
    proof
      assume "fp \<in> (\<lambda>a. e_Fingerprint (l_heap s ! a)) ` set (device_addrs s d)"
      then obtain b where b: "b \<in> set (device_addrs s d)" "fp = e_Fingerprint (l_heap s ! b)" by blast
      then have "map_of (l_byPrint s) fp = Some b" "e_DeviceID (l_heap s ! b) = d"
        using wf unfolding ledger_wf_def by blast+
      then show "e_DeviceID (l_heap s ! a) = d" using that by simp
    next
      assume "e_DeviceID (l_heap s ! a) = d"
      moreover have "a \<in> set (device_addrs s (e_DeviceID (l_heap s ! a)))"
        using wf that unfolding ledger_wf_def by blast
      ultimately show "fp \<in> (\<lambda>a. e_Fingerprint (l_heap s ! a)) ` set (device_addrs s d)"
        using wf_printD(2) [OF wf that] by blast
    qed
    ultimately show ?thesis by (cases "map_of (l_byPrint s) fp") auto
  qed
  have g: "gomap_wf (fold (\<lambda>a. gomap_del (f a)) as m)" if "gomap_wf m" for f as m
    using that by (induction as arbitrary: m) auto
  have "gomap_wf (l_byPrint ?s')" using wf by (auto simp: ForgetDevice_def ledger_wf_def intro: g)
  moreover have "a < length (l_heap s) \<and> e_Fingerprint (l_heap s ! a) = fp \<and>
      a \<in> set (device_addrs ?s' (e_DeviceID (l_heap s ! a)))" if "map_of (l_byPrint ?s') fp = Some a" for fp a
  proof -
    have a: "map_of (l_byPrint s) fp = Some a" "e_DeviceID (l_heap s ! a) \<noteq> d" using that print by blast+
    then have "a \<in> set (device_addrs s (e_DeviceID (l_heap s ! a)))" using wf unfolding ledger_wf_def by blast
    then show ?thesis using wf_printD [OF wf a(1)] a(2) by (simp add: dev)
  qed
  moreover have "a < length (l_heap s) \<and> e_DeviceID (l_heap s ! a) = d' \<and>
      map_of (l_byPrint ?s') (e_Fingerprint (l_heap s ! a)) = Some a" if "a \<in> set (device_addrs ?s' d')" for a d'
  proof -
    have a: "a \<in> set (device_addrs s d')" "d' \<noteq> d" using that by (auto simp: dev split: if_splits)
    then have "a < length (l_heap s)" "e_DeviceID (l_heap s ! a) = d'"
      "map_of (l_byPrint s) (e_Fingerprint (l_heap s ! a)) = Some a"
      using wf unfolding ledger_wf_def by blast+
    then show ?thesis using a(2) print by blast
  qed
  ultimately show ?thesis unfolding ledger_wf_def heap by blast
qed

lemma wf_Warm:
  assumes "distinct (map (\<lambda>r. e_Fingerprint (row_entry r)) t)"
  shows "ledger_wf (snd (Warm k (new_Ledger t)))"
proof -
  have "ledger_wf (fold (\<lambda>row. indexLocked (scan_row row)) (take j t) (new_Ledger t))" for j
  proof -
    have "distinct (map (\<lambda>r. e_Fingerprint (row_entry r)) (take j t))"
      using assms by (metis distinct_take take_map)
    then show ?thesis using Warm_fold [OF wf_new(1), of "take j t" t] by (simp add: wf_new)
  qed
  from this [of "length t"] this show ?thesis by (auto simp: Warm_def new_Ledger_def split: option.split)
qed

lemma ledger_step_wf: "ledger_step ops s s' \<Longrightarrow> ledger_wf s \<Longrightarrow> ledger_wf s'"
  by (cases rule: ledger_step.cases)
     (auto intro: wf_Record wf_Claim idx.mark_ok wf_MarkInstalled wf_ForgetDevice wf_Prune)

interpretation ledgers: step_invariant ledger_start "ledger_step ops" ledger_wf
  by unfold_locales (auto simp: ledger_start_def intro: wf_Warm ledger_step_wf)

section \<open>Properties\<close>

text \<open>
  A device that renewed once: the first certificate was recorded and presented, the second recorded
  and not yet presented.
\<close>

definition demo_ledger_ops :: ledger_ops where
  "demo_ledger_ops = \<lparr>op_sha256 = (\<lambda>der. der), op_uuid_parse = (\<lambda>cn. if cn = ''seven'' then Some 7 else None),
     op_stored = (\<lambda>t. t div 1000 * 1000)\<rparr>"

definition demo_leaf :: "8 word \<Rightarrow> instant \<Rightarrow> x509_cert" where
  "demo_leaf n from = \<lparr>x_Raw = [n], x_CN = ''seven'', x_RawSubject = [7], x_NotBefore = from, x_NotAfter = from + 5000, x_SPKI = [n]\<rparr>"

definition demo_ledger :: Ledger where
  "demo_ledger = snd (Record demo_ledger_ops False (demo_leaf 2 4000) [9] SourceRenew 4000
     (snd (MarkSeen [1] (snd (Record demo_ledger_ops False (demo_leaf 1 1000) [9] SourceEnroll 1000 (new_Ledger []))))))"

definition demo_entry :: "8 word \<Rightarrow> instant \<Rightarrow> Source \<Rightarrow> bool \<Rightarrow> Entry" where
  "demo_entry n from src seen = \<lparr>e_Fingerprint = [n], e_DeviceID = 7, e_IssuerHash = [9], e_NotBefore = from,
     e_NotAfter = from + 5000, e_Source = src, e_IssuedAt = from, e_Seen = seen\<rparr>"

lemma demo_ledger_eq:
  "demo_ledger = \<lparr>l_heap = [demo_entry 1 1000 SourceEnroll True, demo_entry 2 4000 SourceRenew False],
     l_byPrint = [([2], 1), ([1], 0)], l_byDevice = [(7, [0, 1])],
     l_table = [\<lparr>row_entry = demo_entry 1 1000 SourceEnroll False, row_firstSeenAt = None\<rparr>,
                \<lparr>row_entry = demo_entry 2 4000 SourceRenew False, row_firstSeenAt = None\<rparr>]\<rparr>"
  by (simp add: demo_ledger_def demo_entry_def demo_ledger_ops_def demo_leaf_def new_Ledger_def Record_def
      entryFor_def has_row_def insert_row_def stored_entry_def ledger_index_def indexLocked_def Let_def
      device_addrs_def MarkSeen_def see_def gomap_put_def gomap_del_def)

lemma demo_ledger_reachable: "reachable ledger_start (ledger_step demo_ledger_ops) demo_ledger"
proof -
  have "ledger_start (new_Ledger [])"
    unfolding ledger_start_def by (rule exI [of _ "[]"], rule exI [of _ None]) (simp add: Warm_def new_Ledger_def)
  then have "reachable ledger_start (ledger_step demo_ledger_ops) (new_Ledger [])" by (rule reachable_start)
  note reachable_step [OF this step_record [of _ _ False "demo_leaf 1 1000" "[9]" SourceEnroll 1000]]
  note reachable_step [OF this step_seen [of _ _ "[1]"]]
  note reachable_step [OF this step_record [of _ _ False "demo_leaf 2 4000" "[9]" SourceRenew 4000]]
  then show ?thesis by (simp only: demo_ledger_def)
qed



text \<open>
  C25. Pruning loses no verdict. Whatever statement of it fails, a certificate keeps its entry and its
  verdict, or it was superseded and past the grace before and is off the ledger after: the ledger
  refuses it either way.
\<close>

theorem Prune_keeps_verdicts:
  assumes "reachable ledger_start (ledger_step ops) s" and "Prune refusedAt now grace s = (n, s')"
  shows "(Lookup s' fp = Lookup s fp \<and> (Superseded s' fp \<longleftrightarrow> Superseded s fp)) \<or>
         (\<exists>e. Lookup s fp = Some e \<and> e_NotAfter e + grace < now \<and> Superseded s fp \<and> Lookup s' fp = None)"
proof -
  have wf: "ledger_wf s" using assms(1) by (rule ledgers.holds)
  let ?D = "set (doomed now grace s)"
  have wf': "ledger_wf s'" using wf_Prune [OF wf] assms(2) by (metis snd_conv)
  show ?thesis
  proof (cases "Lookup s' = Lookup s")
    case True
    then show ?thesis using Superseded_iff [OF wf] Superseded_iff [OF wf'] by simp
  next
    case False
    then have L: "Lookup s' = (\<lambda>fp. if fp \<in> ?D then None else Lookup s fp)"
      using assms(2) wf wf_forget [of "delete_rows (doomed now grace s) s" "doomed now grace s"]
      by (auto simp: Prune_def Let_def split: if_splits option.splits)
    have drop: "superseded_in (Lookup s') e \<longleftrightarrow> superseded_in (Lookup s) e" for e
      unfolding L using doomed_iff [OF wf] by (intro superseded_in_drop finite_Lookup) auto
    show ?thesis
    proof (cases "fp \<in> ?D")
      case True
      then show ?thesis using doomed_iff [OF wf, of fp now grace] Superseded_iff [OF wf, of fp] by (auto simp: L)
    next
      case False
      then have "Lookup s' fp = Lookup s fp" by (simp add: L)
      then show ?thesis using Superseded_iff [OF wf] Superseded_iff [OF wf'] drop by auto
    qed
  qed
qed

theorem Prune_keeps_verdicts_witness:
  "Lookup (snd (MarkSeen [2] demo_ledger)) [1] = Some (demo_entry 1 1000 SourceEnroll True) \<and>
   Prune None 8000 1000 (snd (MarkSeen [2] demo_ledger)) =
     (Some 1, snd (Prune None 8000 1000 (snd (MarkSeen [2] demo_ledger)))) \<and>
   Lookup (snd (Prune None 8000 1000 (snd (MarkSeen [2] demo_ledger)))) [2] =
     Some (demo_entry 2 4000 SourceRenew True) \<and>
   \<not> Superseded (snd (Prune None 8000 1000 (snd (MarkSeen [2] demo_ledger)))) [2]"
proof -
  let ?s = "snd (MarkSeen [2] demo_ledger)"
  have s: "?s = demo_ledger\<lparr>l_heap := [demo_entry 1 1000 SourceEnroll True, demo_entry 2 4000 SourceRenew True]\<rparr>"
    by (simp add: demo_ledger_eq MarkSeen_def see_def Let_def demo_entry_def)
  have r: "reachable ledger_start (ledger_step demo_ledger_ops) ?s"
    by (rule reachable_step [OF demo_ledger_reachable step_seen])
  have p: "Prune None 8000 1000 ?s = (Some 1, snd (Prune None 8000 1000 ?s))"
    unfolding s by (simp add: demo_ledger_eq Prune_def Let_def doomed_def supersededLocked_def device_addrs_def
        demo_entry_def later_def)
  have l: "Lookup ?s [1] = Some (demo_entry 1 1000 SourceEnroll True)"
    "Lookup ?s [2] = Some (demo_entry 2 4000 SourceRenew True)" "\<not> Superseded ?s [2]"
    unfolding s by (simp_all add: demo_ledger_eq Lookup_def Superseded_def supersededLocked_def device_addrs_def
        demo_entry_def later_def)
  show ?thesis using Prune_keeps_verdicts [OF r p, of "[2]"] l p by auto
qed


end
