(* ===== verification/Cert_Trust.thy ===== *)
theory Cert_Trust
  imports Cert_Index
begin

text \<open>
  The master keys the server trusts and what it signs with them, \<open>server/internal/cert\<close>: reading the
  role files (\<open>trust.go\<close>, \<open>trust_files.go\<close>, \<open>cert_ca.go\<close>), issuing (\<open>cert_issue.go\<close>, \<open>issue_device.go\<close>,
  \<open>cert_sign_server.go\<close>), classifying a presented certificate (\<open>classify.go\<close>), and the issuer that
  records every certificate before handing it out (\<open>server/internal/devicecert/issuer.go\<close>). The
  functions of \<open>crypto/x509\<close>, \<open>encoding/pem\<close> and \<open>uuid\<close> are the fields of a record.
\<close>

section \<open>Certificates\<close>

datatype ExtKeyUsage = ClientAuth | ServerAuth
datatype KeyUsage = DigitalSignature | KeyEncipherment | CertSign | CRLSign

text \<open>A key that can sign is known by the public key it belongs to.\<close>

type_synonym public_key = bytes
type_synonym signer = public_key

record cert_template =
  ct_Serial :: nat
  ct_CN :: string
  ct_NotBefore :: instant
  ct_NotAfter :: instant
  ct_KeyUsage :: "KeyUsage list"
  ct_ExtKeyUsage :: "ExtKeyUsage list"
  ct_IsCA :: bool
  ct_MaxPathLen :: nat
  ct_DNSNames :: "string list"
  ct_IPAddresses :: "byte list list"

record x509_request =
  q_CN :: string
  q_SPKI :: public_key
  q_signed :: bool
  q_P256 :: bool

text \<open>
  \<open>pki_create\<close> signs a template for a public key, self-signed when it is given no issuer; \<open>pki_verify\<close>
  gives the chains of a certificate for client use at a time, over roots and no intermediates;
  \<open>pki_pem_blocks\<close> gives the blocks that repeated calls of \<open>pem.Decode\<close> return.
\<close>

record pki_ops =
  pki_ledger :: ledger_ops
  pki_sha384 :: "bytes \<Rightarrow> bytes"
  pki_uuid_string :: "uuid \<Rightarrow> string"
  pki_create :: "cert_template \<Rightarrow> x509_cert option \<Rightarrow> public_key \<Rightarrow> signer \<Rightarrow> bytes option"
  pki_parse :: "bytes \<Rightarrow> x509_cert option"
  pki_parse_request :: "bytes \<Rightarrow> x509_request option"
  pki_verify :: "x509_cert list \<Rightarrow> instant \<Rightarrow> x509_cert \<Rightarrow> x509_cert list list option"
  pki_signed_by :: "x509_cert \<Rightarrow> x509_cert \<Rightarrow> bool"
  pki_pem :: "string \<Rightarrow> bytes \<Rightarrow> bytes"
  pki_pem_blocks :: "bytes \<Rightarrow> bytes list"
  pki_ec_key :: "bytes \<Rightarrow> signer option"
  pki_pkcs8_key :: "bytes \<Rightarrow> signer option option"

definition cert_Equal :: "x509_cert \<Rightarrow> x509_cert \<Rightarrow> bool" where
  "cert_Equal c d \<longleftrightarrow> x_Raw c = x_Raw d"

section \<open>Roles\<close>

datatype Role = RoleIssuer | RoleAccepted | RoleRenewOnly | RoleVouchedOnly

definition Role_String :: "Role \<Rightarrow> string" where
  "Role_String r =
     (case r of RoleIssuer \<Rightarrow> ''issuer'' | RoleAccepted \<Rightarrow> ''accepted'' | RoleRenewOnly \<Rightarrow> ''renew-only''
      | RoleVouchedOnly \<Rightarrow> ''vouched-only'')"

definition IssuerCertFile :: string where "IssuerCertFile = ''ca.crt''"
definition IssuerKeyFile :: string where "IssuerKeyFile = ''ca.key''"
definition AcceptedFile :: string where "AcceptedFile = ''ca-accepted.crt''"
definition RenewOnlyFile :: string where "RenewOnlyFile = ''ca-renew-only.crt''"
definition VouchedOnlyFile :: string where "VouchedOnlyFile = ''ca-vouched-only.crt''"
definition ChainFile :: string where "ChainFile = ''ca-chain.crt''"
definition MPSIssuerCertFile :: string where "MPSIssuerCertFile = ''mps-ca.crt''"
definition MPSIssuerKeyFile :: string where "MPSIssuerKeyFile = ''mps-ca.key''"
definition keyFileForbiddenBit :: nat where "keyFileForbiddenBit = 63"

record Authority =
  au_Cert :: x509_cert
  au_Role :: Role
  au_Hash :: bytes

record TrustSet =
  ts_issuer :: x509_cert
  ts_issuerKey :: signer
  ts_accepted :: "x509_cert list"
  ts_renewOnly :: "x509_cert list"
  ts_vouchedOnly :: "x509_cert list"
  ts_chain :: "bytes list"
  ts_mpsIssuer :: x509_cert
  ts_mpsIssuerKey :: signer

definition authority :: "pki_ops \<Rightarrow> x509_cert \<Rightarrow> Role \<Rightarrow> Authority" where
  "authority ops c role = \<lparr>au_Cert = c, au_Role = role, au_Hash = pki_sha384 ops (x_Raw c)\<rparr>"

definition authorities :: "pki_ops \<Rightarrow> TrustSet \<Rightarrow> Authority list" where
  "authorities ops s =
     authority ops (ts_issuer s) RoleIssuer
     # concat (map (\<lambda>(certs, role). map (\<lambda>c. authority ops c role) certs)
         [(ts_accepted s, RoleAccepted), (ts_renewOnly s, RoleRenewOnly), (ts_vouchedOnly s, RoleVouchedOnly)])"

definition signedByTrusted :: "pki_ops \<Rightarrow> TrustSet \<Rightarrow> x509_cert \<Rightarrow> bool" where
  "signedByTrusted ops s c =
     list_ex (\<lambda>a. au_Role a \<noteq> RoleIssuer \<and> pki_signed_by ops c (au_Cert a)) (authorities ops s)"

datatype trust_error =
    IssuerMissing
  | ReadCert | ParseCert | NoCertificate
  | CertificateCount nat
  | KeyUnreadable | KeyExposed | KeyInvalid | KeyMismatch
  | TwoRoles Role Role
  | ChainNotIssuer | ChainUntrusted
  | GenerateKey | GenerateCert | WriteFile
  | CompromiseUndated

text \<open>The loop of \<open>validate\<close> over the master keys, with the map of the hashes seen so far.\<close>

fun two_roles :: "(bytes, Role) gomap \<Rightarrow> Authority list \<Rightarrow> trust_error option" where
  "two_roles seen [] = None"
| "two_roles seen (a # as) =
     (case map_of seen (au_Hash a) of
        Some role \<Rightarrow> Some (TwoRoles role (au_Role a))
      | None \<Rightarrow> two_roles (gomap_put (au_Hash a) (au_Role a) seen) as)"

fun validate_chain :: "pki_ops \<Rightarrow> TrustSet \<Rightarrow> x509_cert list \<Rightarrow> trust_error option" where
  "validate_chain ops s [] = None"
| "validate_chain ops s (c # cs) =
     (if x_RawSubject c \<noteq> x_RawSubject (ts_issuer s) \<or> x_SPKI c \<noteq> x_SPKI (ts_issuer s) then Some ChainNotIssuer
      else if \<not> signedByTrusted ops s c then Some ChainUntrusted
      else validate_chain ops s cs)"

definition validate :: "pki_ops \<Rightarrow> TrustSet \<Rightarrow> x509_cert list \<Rightarrow> trust_error option" where
  "validate ops s chain =
     (case two_roles [] (authorities ops s) of Some e \<Rightarrow> Some e | None \<Rightarrow> validate_chain ops s chain)"

section \<open>The role files\<close>

text \<open>A file that can be found, with its permission bits; its content when reading it succeeds.\<close>

record role_file =
  f_perm :: nat
  f_data :: "bytes option"

type_synonym role_dir = "(string, role_file) gomap"

definition fileExists :: "role_dir \<Rightarrow> string \<Rightarrow> bool" where
  "fileExists dir name = (map_of dir name \<noteq> None)"

definition read_file :: "role_dir \<Rightarrow> string \<Rightarrow> bytes option" where
  "read_file dir name = Option.bind (map_of dir name) f_data"

fun parse_blocks :: "pki_ops \<Rightarrow> bytes list \<Rightarrow> trust_error + x509_cert list" where
  "parse_blocks ops [] = Inr []"
| "parse_blocks ops (b # bs) =
     (case pki_parse ops b of
        None \<Rightarrow> Inl ParseCert
      | Some c \<Rightarrow> map_sum id ((#) c) (parse_blocks ops bs))"

definition loadCerts :: "pki_ops \<Rightarrow> role_dir \<Rightarrow> string \<Rightarrow> trust_error + x509_cert list" where
  "loadCerts ops dir name =
     (case read_file dir name of
        None \<Rightarrow> Inl ReadCert
      | Some data \<Rightarrow>
          (case parse_blocks ops (pki_pem_blocks ops data) of
             Inl e \<Rightarrow> Inl e
           | Inr [] \<Rightarrow> Inl NoCertificate
           | Inr certs \<Rightarrow> Inr certs))"

definition loadOptionalCerts :: "pki_ops \<Rightarrow> role_dir \<Rightarrow> string \<Rightarrow> trust_error + x509_cert list" where
  "loadOptionalCerts ops dir name = (if \<not> fileExists dir name then Inr [] else loadCerts ops dir name)"

definition ParseKeyPEM :: "pki_ops \<Rightarrow> bytes \<Rightarrow> signer option" where
  "ParseKeyPEM ops data =
     (case pki_pem_blocks ops data of
        [] \<Rightarrow> None
      | b # _ \<Rightarrow>
          (case pki_ec_key ops b of
             Some key \<Rightarrow> Some key
           | None \<Rightarrow> Option.bind (pki_pkcs8_key ops b) id))"

definition loadKey :: "pki_ops \<Rightarrow> role_dir \<Rightarrow> string \<Rightarrow> signer option" where
  "loadKey ops dir name = Option.bind (read_file dir name) (ParseKeyPEM ops)"

definition loadKeyPair ::
  "pki_ops \<Rightarrow> role_dir \<Rightarrow> string \<Rightarrow> string \<Rightarrow> trust_error + (x509_cert \<times> signer)" where
  "loadKeyPair ops dir certPath keyPath =
     (case loadCerts ops dir certPath of
        Inl e \<Rightarrow> Inl e
      | Inr certs \<Rightarrow>
          if length certs \<noteq> 1 then Inl (CertificateCount (length certs))
          else (case map_of dir keyPath of
                  None \<Rightarrow> Inl KeyUnreadable
                | Some info \<Rightarrow>
                    if and (f_perm info) keyFileForbiddenBit \<noteq> 0 then Inl KeyExposed
                    else (case loadKey ops dir keyPath of
                            None \<Rightarrow> Inl KeyInvalid
                          | Some key \<Rightarrow>
                              if x_SPKI (hd certs) \<noteq> key then Inl KeyMismatch else Inr (hd certs, key))))"

definition clockSkewMargin :: duration where "clockSkewMargin = 5 * time_minute"
definition authorityValidity :: duration where "authorityValidity = 10 * 365 * 24 * time_hour"

definition authorityTemplate :: "nat \<Rightarrow> string \<Rightarrow> instant \<Rightarrow> cert_template" where
  "authorityTemplate serial commonName now =
     \<lparr>ct_Serial = serial, ct_CN = commonName, ct_NotBefore = now - clockSkewMargin,
      ct_NotAfter = now + authorityValidity, ct_KeyUsage = [CertSign, CRLSign], ct_ExtKeyUsage = [],
      ct_IsCA = True, ct_MaxPathLen = 1, ct_DNSNames = [], ct_IPAddresses = []\<rparr>"

text \<open>
  What the random source and the key generator give: a key with its encoding, and a serial number;
  \<open>None\<close> is a failure.
\<close>

record entropy =
  en_key :: "(signer \<times> bytes) option"
  en_serial :: "nat option"

definition NewAuthority ::
  "pki_ops \<Rightarrow> entropy \<Rightarrow> string \<Rightarrow> instant \<Rightarrow> trust_error + (bytes \<times> bytes)" where
  "NewAuthority ops en commonName now =
     (case en_key en of
        None \<Rightarrow> Inl GenerateKey
      | Some (key, keyDER) \<Rightarrow>
          (case en_serial en of
             None \<Rightarrow> Inl GenerateKey
           | Some serial \<Rightarrow>
               (case pki_create ops (authorityTemplate serial commonName now) None key key of
                  None \<Rightarrow> Inl GenerateCert
                | Some der \<Rightarrow> Inr (pki_pem ops ''CERTIFICATE'' der, pki_pem ops ''EC PRIVATE KEY'' keyDER))))"

text \<open>\<open>os.WriteFile\<close> truncates a file that is there and keeps its mode; \<open>refused\<close> names the writes that fail.\<close>

definition write_file :: "string \<Rightarrow> bytes \<Rightarrow> role_dir \<Rightarrow> role_dir" where
  "write_file name data dir =
     gomap_put name
       (case map_of dir name of
          Some f \<Rightarrow> f\<lparr>f_data := Some data\<rparr>
        | None \<Rightarrow> \<lparr>f_perm = 384, f_data = Some data\<rparr>) dir"

definition generateAuthorityFiles ::
  "pki_ops \<Rightarrow> entropy \<Rightarrow> (string \<Rightarrow> bool) \<Rightarrow> instant \<Rightarrow> role_dir \<Rightarrow> trust_error option \<times> role_dir" where
  "generateAuthorityFiles ops en refused now dir =
     (case NewAuthority ops en ''OpenGate CA'' now of
        Inl e \<Rightarrow> (Some e, dir)
      | Inr (certPEM, keyPEM) \<Rightarrow>
          if refused IssuerCertFile then (Some WriteFile, dir)
          else (let dir' = write_file IssuerCertFile certPEM dir in
                if refused IssuerKeyFile then (Some WriteFile, dir')
                else (None, write_file IssuerKeyFile keyPEM dir')))"

definition load_roles :: "pki_ops \<Rightarrow> role_dir \<Rightarrow> trust_error + TrustSet" where
  "load_roles ops dir =
     (case loadKeyPair ops dir IssuerCertFile IssuerKeyFile of
        Inl e \<Rightarrow> Inl e
      | Inr (issuer, issuerKey) \<Rightarrow>
     (case (if fileExists dir MPSIssuerCertFile then loadKeyPair ops dir MPSIssuerCertFile MPSIssuerKeyFile
            else Inr (issuer, issuerKey)) of
        Inl e \<Rightarrow> Inl e
      | Inr (mpsIssuer, mpsIssuerKey) \<Rightarrow>
     (case loadOptionalCerts ops dir AcceptedFile of
        Inl e \<Rightarrow> Inl e
      | Inr accepted \<Rightarrow>
     (case loadOptionalCerts ops dir RenewOnlyFile of
        Inl e \<Rightarrow> Inl e
      | Inr renewOnly \<Rightarrow>
     (case loadOptionalCerts ops dir VouchedOnlyFile of
        Inl e \<Rightarrow> Inl e
      | Inr vouchedOnly \<Rightarrow>
     (case loadOptionalCerts ops dir ChainFile of
        Inl e \<Rightarrow> Inl e
      | Inr chain \<Rightarrow>
          (let ts = \<lparr>ts_issuer = issuer, ts_issuerKey = issuerKey, ts_accepted = accepted,
                      ts_renewOnly = renewOnly, ts_vouchedOnly = vouchedOnly, ts_chain = map x_Raw chain,
                      ts_mpsIssuer = mpsIssuer, ts_mpsIssuerKey = mpsIssuerKey\<rparr> in
           case validate ops ts chain of Some e \<Rightarrow> Inl e | None \<Rightarrow> Inr ts)))))))"

definition LoadTrustSet ::
  "pki_ops \<Rightarrow> entropy \<Rightarrow> (string \<Rightarrow> bool) \<Rightarrow> bool \<Rightarrow> instant \<Rightarrow> role_dir \<Rightarrow>
     (trust_error + TrustSet) \<times> role_dir" where
  "LoadTrustSet ops en refused mustExist now dir =
     (if \<not> fileExists dir IssuerCertFile \<or> \<not> fileExists dir IssuerKeyFile
      then if mustExist then (Inl IssuerMissing, dir)
           else (case generateAuthorityFiles ops en refused now dir of
                   (Some e, dir') \<Rightarrow> (Inl e, dir')
                 | (None, dir') \<Rightarrow> (load_roles ops dir', dir'))
      else (load_roles ops dir, dir))"

section \<open>The manager\<close>

definition DefaultExpiredGrace :: duration where "DefaultExpiredGrace = 90 * 24 * time_hour"

record options =
  o_mustExist :: bool
  o_compromisedSince :: instant
  o_expiredGrace :: duration

definition default_options :: options where
  "default_options = \<lparr>o_mustExist = False, o_compromisedSince = 0, o_expiredGrace = DefaultExpiredGrace\<rparr>"

record Manager =
  m_issuer :: x509_cert
  m_issuerKey :: signer
  m_authorities :: "Authority list"
  m_chain :: "bytes list"
  m_bundlePEM :: bytes
  m_mpsIssuer :: x509_cert
  m_mpsIssuerKey :: signer
  m_compromisedSince :: instant
  m_expiredGrace :: duration

definition newManager :: "pki_ops \<Rightarrow> TrustSet \<Rightarrow> options \<Rightarrow> Manager" where
  "newManager ops ts opts =
     \<lparr>m_issuer = ts_issuer ts, m_issuerKey = ts_issuerKey ts, m_authorities = authorities ops ts,
      m_chain = ts_chain ts,
      m_bundlePEM =
        concat (map (\<lambda>a. pki_pem ops ''CERTIFICATE'' (x_Raw (au_Cert a)))
          (filter (\<lambda>a. au_Role a = RoleIssuer \<or> au_Role a = RoleAccepted) (authorities ops ts))),
      m_mpsIssuer = ts_mpsIssuer ts, m_mpsIssuerKey = ts_mpsIssuerKey ts,
      m_compromisedSince = o_compromisedSince opts, m_expiredGrace = o_expiredGrace opts\<rparr>"

definition NewManager ::
  "pki_ops \<Rightarrow> entropy \<Rightarrow> (string \<Rightarrow> bool) \<Rightarrow> options \<Rightarrow> instant \<Rightarrow> role_dir \<Rightarrow>
     (trust_error + Manager) \<times> role_dir" where
  "NewManager ops en refused opts now dir =
     (case LoadTrustSet ops en refused (o_mustExist opts) now dir of
        (Inl e, dir') \<Rightarrow> (Inl e, dir')
      | (Inr ts, dir') \<Rightarrow>
          if ts_vouchedOnly ts \<noteq> [] \<and> o_compromisedSince opts = 0 then (Inl CompromiseUndated, dir')
          else (Inr (newManager ops ts opts), dir'))"

definition IssuerHash :: "pki_ops \<Rightarrow> Manager \<Rightarrow> bytes" where
  "IssuerHash ops m = pki_sha384 ops (x_Raw (m_issuer m))"

definition TrustedHashes :: "Manager \<Rightarrow> bytes list" where
  "TrustedHashes m = map au_Hash (m_authorities m)"

definition pool :: "Manager \<Rightarrow> x509_cert list" where
  "pool m = map au_Cert (m_authorities m)"

definition InChangeover :: "Manager \<Rightarrow> bool" where
  "InChangeover m =
     list_ex (\<lambda>a. au_Role a = RoleAccepted \<or> au_Role a = RoleRenewOnly \<or> au_Role a = RoleVouchedOnly)
       (m_authorities m)"

section \<open>Issuing\<close>

definition leafValidity :: duration where "leafValidity = 90 * 24 * time_hour"

datatype issue_error = ErrAuthorityExpired | KeyUnavailable | SerialUnavailable | SignFailed | ParseFailed

definition leafTemplate ::
  "nat option \<Rightarrow> x509_cert \<Rightarrow> instant \<Rightarrow> string \<Rightarrow> KeyUsage list \<Rightarrow> ExtKeyUsage \<Rightarrow> issue_error + cert_template" where
  "leafTemplate serial issuer now subject keyUsage ext =
     (if now > x_NotAfter issuer then Inl ErrAuthorityExpired
      else (case serial of
              None \<Rightarrow> Inl SerialUnavailable
            | Some serial \<Rightarrow>
                (let notAfter = now + leafValidity in
                 let notAfter = (if notAfter > x_NotAfter issuer then x_NotAfter issuer else notAfter) in
                 Inr \<lparr>ct_Serial = serial, ct_CN = subject, ct_NotBefore = now - clockSkewMargin,
                      ct_NotAfter = notAfter, ct_KeyUsage = keyUsage, ct_ExtKeyUsage = [ext],
                      ct_IsCA = False, ct_MaxPathLen = 0, ct_DNSNames = [], ct_IPAddresses = []\<rparr>)))"

definition issueLeaf ::
  "pki_ops \<Rightarrow> cert_template \<Rightarrow> x509_cert \<Rightarrow> signer \<Rightarrow> public_key \<Rightarrow> issue_error + bytes" where
  "issueLeaf ops template issuer issuerKey pub =
     (case pki_create ops template (Some issuer) pub issuerKey of None \<Rightarrow> Inl SignFailed | Some der \<Rightarrow> Inr der)"

definition IssueDevice ::
  "pki_ops \<Rightarrow> Manager \<Rightarrow> nat option \<Rightarrow> instant \<Rightarrow> x509_request \<Rightarrow> uuid \<Rightarrow> issue_error + bytes" where
  "IssueDevice ops m serial now csr deviceID =
     (case leafTemplate serial (m_issuer m) now (pki_uuid_string ops deviceID) [DigitalSignature] ClientAuth of
        Inl e \<Rightarrow> Inl e
      | Inr template \<Rightarrow> issueLeaf ops template (m_issuer m) (m_issuerKey m) (q_SPKI csr))"

definition NextLeafEnd :: "Manager \<Rightarrow> instant \<Rightarrow> instant" where
  "NextLeafEnd m now =
     (let end' = now + leafValidity in
      if end' > x_NotAfter (m_issuer m) then x_NotAfter (m_issuer m) else end')"

datatype request_error = RequestMalformed | RequestUnsigned | ErrNotP256

definition ParseDeviceRequest :: "pki_ops \<Rightarrow> bytes \<Rightarrow> request_error + x509_request" where
  "ParseDeviceRequest ops csrDER =
     (case pki_parse_request ops csrDER of
        None \<Rightarrow> Inl RequestMalformed
      | Some csr \<Rightarrow>
          if \<not> q_signed csr then Inl RequestUnsigned
          else if \<not> q_P256 csr then Inl ErrNotP256
          else Inr csr)"

subsection \<open>The server's own certificates\<close>

record tls_cert =
  tls_Certificate :: "bytes list"
  tls_PrivateKey :: signer
  tls_Leaf :: x509_cert

definition issueTLS ::
  "pki_ops \<Rightarrow> cert_template \<Rightarrow> x509_cert \<Rightarrow> signer \<Rightarrow> signer \<Rightarrow> bytes list \<Rightarrow> issue_error + tls_cert" where
  "issueTLS ops template issuer issuerKey key chain =
     (case issueLeaf ops template issuer issuerKey key of
        Inl e \<Rightarrow> Inl e
      | Inr der \<Rightarrow>
          (case pki_parse ops der of
             None \<Rightarrow> Inl ParseFailed
           | Some leaf \<Rightarrow> Inr \<lparr>tls_Certificate = der # chain, tls_PrivateKey = key, tls_Leaf = leaf\<rparr>))"

definition localServerTemplate ::
  "nat option \<Rightarrow> x509_cert \<Rightarrow> instant \<Rightarrow> string \<Rightarrow> KeyUsage list \<Rightarrow> string list \<Rightarrow> issue_error + cert_template" where
  "localServerTemplate serial issuer now commonName usage extraDNS =
     map_sum id (\<lambda>t. t\<lparr>ct_DNSNames := ''localhost'' # extraDNS, ct_IPAddresses := [[127, 0, 0, 1]]\<rparr>)
       (leafTemplate serial issuer now commonName usage ServerAuth)"

definition SignServer ::
  "pki_ops \<Rightarrow> Manager \<Rightarrow> entropy \<Rightarrow> instant \<Rightarrow> string list \<Rightarrow> issue_error + tls_cert" where
  "SignServer ops m en now extraDNS =
     (case en_key en of
        None \<Rightarrow> Inl KeyUnavailable
      | Some (key, _) \<Rightarrow>
          (case localServerTemplate (en_serial en) (m_issuer m) now ''OpenGate Server'' [DigitalSignature] extraDNS of
             Inl e \<Rightarrow> Inl e
           | Inr template \<Rightarrow> issueTLS ops template (m_issuer m) (m_issuerKey m) key (m_chain m)))"

definition SignMPS :: "pki_ops \<Rightarrow> Manager \<Rightarrow> entropy \<Rightarrow> instant \<Rightarrow> issue_error + tls_cert" where
  "SignMPS ops m en now =
     (case en_key en of
        None \<Rightarrow> Inl KeyUnavailable
      | Some (key, _) \<Rightarrow>
          (case localServerTemplate (en_serial en) (m_mpsIssuer m) now ''OpenGate MPS''
                  [DigitalSignature, KeyEncipherment] [] of
             Inl e \<Rightarrow> Inl e
           | Inr template \<Rightarrow> issueTLS ops template (m_mpsIssuer m) (m_mpsIssuerKey m) key []))"

definition serverRefreshWindow :: duration where "serverRefreshWindow = 30 * 24 * time_hour"

text \<open>The cache of a certificate, refreshed by \<open>sign\<close> when it is empty or near its expiry.\<close>

definition refresh ::
  "instant \<Rightarrow> (issue_error + tls_cert) \<Rightarrow> tls_cert option \<Rightarrow> (issue_error + tls_cert) \<times> tls_cert option" where
  "refresh now sign cached =
     (case cached of
        Some c \<Rightarrow>
          if now + serverRefreshWindow < x_NotAfter (tls_Leaf c) then (Inr c, cached)
          else (case sign of Inl e \<Rightarrow> (Inl e, cached) | Inr fresh \<Rightarrow> (Inr fresh, Some fresh))
      | None \<Rightarrow> (case sign of Inl e \<Rightarrow> (Inl e, cached) | Inr fresh \<Rightarrow> (Inr fresh, Some fresh)))"

section \<open>Classifying a presented certificate\<close>

datatype Standing = StandingFull | StandingRenewOnly | StandingNeedsVoucher | StandingTooOld

definition Standing_String :: "Standing \<Rightarrow> string" where
  "Standing_String s =
     (case s of StandingFull \<Rightarrow> ''full'' | StandingRenewOnly \<Rightarrow> ''renew-only''
      | StandingNeedsVoucher \<Rightarrow> ''needs-voucher'' | StandingTooOld \<Rightarrow> ''too-old'')"

record Classification =
  cl_DeviceID :: uuid
  cl_Leaf :: x509_cert
  cl_Authority :: Authority
  cl_Standing :: Standing
  cl_Expired :: bool

datatype unacceptable = NonePresented | NoDeviceNumber | NotYetValid | NotVerified | NoTrustedKey

definition verifyAtIssuance :: "pki_ops \<Rightarrow> Manager \<Rightarrow> x509_cert \<Rightarrow> unacceptable + Authority" where
  "verifyAtIssuance ops m leaf =
     (let at' = x_NotBefore leaf + clockSkewMargin in
      let at' = (if at' > x_NotAfter leaf then x_NotAfter leaf else at') in
      case pki_verify ops (pool m) at' leaf of
        None \<Rightarrow> Inl NotVerified
      | Some cs \<Rightarrow>
          (case cs of
             [] \<Rightarrow> Inl NotVerified
           | chain # _ \<Rightarrow>
               if length chain < 2 then Inl NotVerified
               else (case find (\<lambda>a. cert_Equal (au_Cert a) (last chain)) (m_authorities m) of
                       None \<Rightarrow> Inl NoTrustedKey
                     | Some a \<Rightarrow> Inr a)))"

definition cert_expiry :: "x509_cert \<Rightarrow> Authority \<Rightarrow> instant" where
  "cert_expiry leaf signer =
     (if x_NotAfter (au_Cert signer) < x_NotAfter leaf then x_NotAfter (au_Cert signer) else x_NotAfter leaf)"

definition Classify :: "pki_ops \<Rightarrow> Manager \<Rightarrow> instant \<Rightarrow> x509_cert list \<Rightarrow> unacceptable + Classification" where
  "Classify ops m now peer =
     (case peer of
        [] \<Rightarrow> Inl NonePresented
      | leaf # _ \<Rightarrow>
          (case op_uuid_parse (pki_ledger ops) (x_CN leaf) of
             None \<Rightarrow> Inl NoDeviceNumber
           | Some deviceID \<Rightarrow>
               if now < x_NotBefore leaf then Inl NotYetValid
               else (case verifyAtIssuance ops m leaf of
                       Inl e \<Rightarrow> Inl e
                     | Inr signer \<Rightarrow>
                         (let expiry = cert_expiry leaf signer; expired = now > expiry in
                          Inr \<lparr>cl_DeviceID = deviceID, cl_Leaf = leaf, cl_Authority = signer,
                               cl_Standing =
                                 (if expired \<and> time_Sub now expiry > m_expiredGrace m then StandingTooOld
                                  else if au_Role signer = RoleVouchedOnly then StandingNeedsVoucher
                                  else if expired \<or> au_Role signer = RoleRenewOnly then StandingRenewOnly
                                  else StandingFull),
                               cl_Expired = expired\<rparr>))))"

definition ExpiredFor :: "Classification \<Rightarrow> instant \<Rightarrow> duration" where
  "ExpiredFor c now = time_Sub now (cert_expiry (cl_Leaf c) (cl_Authority c))"

section \<open>The issuer\<close>

datatype device_issue_error =
    InvalidRequest request_error
  | IssueFailed issue_error
  | LedgerFailed
  | ErrNoFreeNumber

definition numberAttempts :: nat where "numberAttempts = 8"

definition sign ::
  "pki_ops \<Rightarrow> Manager \<Rightarrow> nat option \<Rightarrow> instant \<Rightarrow> x509_request \<Rightarrow> uuid \<Rightarrow> issue_error + (bytes \<times> x509_cert)" where
  "sign ops m serial now csr deviceID =
     (case IssueDevice ops m serial now csr deviceID of
        Inl e \<Rightarrow> Inl e
      | Inr der \<Rightarrow> (case pki_parse ops der of None \<Rightarrow> Inl ParseFailed | Some leaf \<Rightarrow> Inr (der, leaf)))"

text \<open>
  What one attempt meets: the number and serial it draws, the clock when it signs and when it
  records, and whether the statement fails.
\<close>

record attempt =
  at_number :: uuid
  at_serial :: "nat option"
  at_signed :: instant
  at_recorded :: instant
  at_refused :: bool

text \<open>\<open>held\<close> says which numbers a device or a deleted device holds.\<close>

fun enroll_loop ::
  "pki_ops \<Rightarrow> Manager \<Rightarrow> (uuid \<Rightarrow> bool) \<Rightarrow> x509_request \<Rightarrow> attempt list \<Rightarrow> Ledger \<Rightarrow>
     (device_issue_error + (uuid \<times> bytes)) \<times> Ledger" where
  "enroll_loop ops m held csr [] s = (Inl ErrNoFreeNumber, s)"
| "enroll_loop ops m held csr (t # ts) s =
     (if HasDevice s (at_number t) then enroll_loop ops m held csr ts s
      else (case sign ops m (at_serial t) (at_signed t) csr (at_number t) of
              Inl e \<Rightarrow> (Inl (IssueFailed e), s)
            | Inr (der, leaf) \<Rightarrow>
                (case Claim (pki_ledger ops) (at_refused t) held leaf (IssuerHash ops m) (at_recorded t) s of
                   (Inl _, s') \<Rightarrow> (Inl LedgerFailed, s')
                 | (Inr (Some _), s') \<Rightarrow> (Inr (at_number t, der), s')
                 | (Inr None, s') \<Rightarrow> enroll_loop ops m held csr ts s')))"

definition Enroll ::
  "pki_ops \<Rightarrow> Manager \<Rightarrow> (uuid \<Rightarrow> bool) \<Rightarrow> (nat \<Rightarrow> attempt) \<Rightarrow> bytes \<Rightarrow> Ledger \<Rightarrow>
     (device_issue_error + (uuid \<times> bytes)) \<times> Ledger" where
  "Enroll ops m held attempts csrDER s =
     (case ParseDeviceRequest ops csrDER of
        Inl e \<Rightarrow> (Inl (InvalidRequest e), s)
      | Inr csr \<Rightarrow> enroll_loop ops m held csr (map attempts [0..<numberAttempts]) s)"

definition Issue ::
  "pki_ops \<Rightarrow> Manager \<Rightarrow> attempt \<Rightarrow> x509_request \<Rightarrow> uuid \<Rightarrow> Source \<Rightarrow> Ledger \<Rightarrow>
     (device_issue_error + bytes) \<times> Ledger" where
  "Issue ops m t csr deviceID source s =
     (case sign ops m (at_serial t) (at_signed t) csr deviceID of
        Inl e \<Rightarrow> (Inl (IssueFailed e), s)
      | Inr (der, leaf) \<Rightarrow>
          (case Record (pki_ledger ops) (at_refused t) leaf (IssuerHash ops m) source (at_recorded t) s of
             (None, s') \<Rightarrow> (Inl LedgerFailed, s')
           | (Some _, s') \<Rightarrow> (Inr der, s')))"

end
