(* ===== verification/Cert_Renewal.thy ===== *)
theory Cert_Renewal
  imports Cert_Trust
begin

text \<open>
  Admission by certificate and its renewal, \<open>server/internal/agentapi\<close>: the verdict on a presented
  certificate (\<open>admission.go\<close>), the offer, the request and the install notice of a renewal
  (\<open>renewal.go\<close>), the session of a machine admitted only to renew (\<open>conn_restricted.go\<close>), and the sweep
  that offers renewals (\<open>renewal_sweep.go\<close>).
\<close>

section \<open>Admission\<close>

text \<open>The fields are the zero values when the certificate is unacceptable.\<close>

record admission =
  ad_class :: "Classification option"
  ad_fp :: fingerprint
  ad_refusal :: string

definition restricted :: "admission \<Rightarrow> bool" where
  "restricted a = (case ad_class a of None \<Rightarrow> False | Some c \<Rightarrow> cl_Standing c \<noteq> StandingFull)"

text \<open>\<open>ledger\<close> is \<open>None\<close> on a server without an issuer.\<close>

definition admit :: "pki_ops \<Rightarrow> Manager \<Rightarrow> instant \<Rightarrow> Ledger option \<Rightarrow> x509_cert list \<Rightarrow> admission" where
  "admit ops m now ledger peer =
     (case Classify ops m now peer of
        Inl _ \<Rightarrow> \<lparr>ad_class = None, ad_fp = replicate 32 0, ad_refusal = ''unacceptable''\<rparr>
      | Inr c \<Rightarrow>
          (let fp = op_sha256 (pki_ledger ops) (x_Raw (cl_Leaf c)) in
           \<lparr>ad_class = Some c, ad_fp = fp,
            ad_refusal =
              (if cl_Standing c = StandingTooOld then ''too-old''
               else (case ledger of
                       None \<Rightarrow> ''no-ledger''
                     | Some s \<Rightarrow>
                         (case Lookup s fp of
                            None \<Rightarrow> ''not-on-ledger''
                          | Some entry \<Rightarrow>
                              if Superseded s fp then ''superseded''
                              else if cl_Standing c = StandingNeedsVoucher \<and>
                                      \<not> e_IssuedAt entry < m_compromisedSince m then ''unvouched''
                              else '''')))\<rparr>))"

subsection \<open>The log of refusals\<close>

definition refusalLogPeriod :: duration where "refusalLogPeriod = time_hour"
definition hourlyLogKeys :: nat where "hourlyLogKeys = 4096"

type_synonym 'k hourlyLog = "('k, instant) gomap"

definition due :: "'k \<Rightarrow> instant \<Rightarrow> 'k hourlyLog \<Rightarrow> bool \<times> 'k hourlyLog" where
  "due key now h =
     (let h = (if length h \<ge> hourlyLogKeys
               then filter (\<lambda>p. \<not> time_Sub now (snd p) \<ge> refusalLogPeriod) h else h) in
      case map_of h key of
        Some at' \<Rightarrow> if time_Sub now at' < refusalLogPeriod then (False, h) else (True, gomap_put key now h)
      | None \<Rightarrow> (True, gomap_put key now h))"

text \<open>The key of a refusal: the device when the certificate names one, the fingerprint otherwise.\<close>

definition refusal_key :: "admission \<Rightarrow> (uuid + bytes) \<times> string" where
  "refusal_key a =
     (case ad_class a of
        Some c \<Rightarrow> if cl_DeviceID c \<noteq> 0 then (Inl (cl_DeviceID c), ad_refusal a) else (Inr (take 8 (ad_fp a)), ad_refusal a)
      | None \<Rightarrow> (Inr (take 8 (ad_fp a)), ad_refusal a))"

section \<open>Renewal on a connection\<close>

definition renewalAnswerWait :: duration where "renewalAnswerWait = 60 * time_second"
definition maxCSRBytes :: nat where "maxCSRBytes = 4 * 1024"
definition renewalsPerDay :: nat where "renewalsPerDay = 3"
definition renewalWindow :: duration where "renewalWindow = 24 * time_hour"

definition reasonDue :: string where "reasonDue = ''due''"
definition reasonAuthorityChange :: string where "reasonAuthorityChange = ''authority-change''"
definition refusedUnsolicited :: string where "refusedUnsolicited = ''unsolicited''"
definition refusedInvalid :: string where "refusedInvalid = ''invalid-request''"
definition refusedWrongDevice :: string where "refusedWrongDevice = ''wrong-device''"
definition refusedSuperseded :: string where "refusedSuperseded = ''superseded''"
definition refusedKeyType :: string where "refusedKeyType = ''unsupported-key''"
definition refusedKeyReuse :: string where "refusedKeyReuse = ''key-reuse''"
definition refusedDeleted :: string where "refusedDeleted = ''deleted''"
definition refusedUnknownDevice :: string where "refusedUnknownDevice = ''unknown-device''"
definition refusedRateLimited :: string where "refusedRateLimited = ''rate-limited''"
definition refusedInFlight :: string where "refusedInFlight = ''in-flight''"
definition refusedServerError :: string where "refusedServerError = ''server-error''"

lemmas refused_defs =
  refusedUnsolicited_def refusedInvalid_def refusedWrongDevice_def refusedSuperseded_def refusedKeyType_def
  refusedKeyReuse_def refusedDeleted_def refusedUnknownDevice_def refusedRateLimited_def refusedInFlight_def
  refusedServerError_def

text \<open>The control messages of a renewal, and the part of a connection they concern.\<close>

datatype renewal_msg =
    RenewCertificate string
  | CertificateIssued bytes bytes
  | CertificateRefused string "32 word"

record renewal_conn =
  rc_DeviceID :: uuid
  rc_renewal :: bool
  rc_certFP :: fingerprint
  rc_leaf :: "x509_cert option"
  rc_authority :: Authority
  rc_askedAt :: instant
  rc_issued :: "(fingerprint \<times> x509_cert) option"
  rc_out :: "renewal_msg list"

text \<open>\<open>sent\<close> says whether the frame could be written; a message that could not is lost.\<close>

definition rc_send :: "bool \<Rightarrow> renewal_msg \<Rightarrow> renewal_conn \<Rightarrow> bool \<times> renewal_conn" where
  "rc_send sent msg c = (if sent then (True, c\<lparr>rc_out := rc_out c @ [msg]\<rparr>) else (False, c))"

text \<open>Arithmetic on \<open>time.Duration\<close>: multiplication wraps at 64 bits and division truncates towards 0.\<close>

definition wrap64 :: "int \<Rightarrow> int" where
  "wrap64 i = sint (word_of_int i :: 64 word)"

definition go_quot :: "int \<Rightarrow> int \<Rightarrow> int" where
  "go_quot a b = sgn a * (\<bar>a\<bar> div b)"

text \<open>\<open>now\<close> is the clock at the call and \<open>now'\<close> when \<open>NextLeafEnd\<close> reads it again.\<close>

definition renewalReason :: "Manager \<Rightarrow> instant \<Rightarrow> instant \<Rightarrow> renewal_conn \<Rightarrow> string option" where
  "renewalReason m now now' c =
     (if \<not> rc_renewal c then None
      else (case rc_leaf c of
              None \<Rightarrow> None
            | Some leaf \<Rightarrow>
                if au_Role (rc_authority c) \<noteq> RoleIssuer then Some reasonAuthorityChange
                else (let lifetime = time_Sub (x_NotAfter leaf) (x_NotBefore leaf) in
                      if now < x_NotBefore leaf + go_quot (wrap64 (lifetime * 2)) 3 then None
                      else if \<not> NextLeafEnd m now' > x_NotAfter leaf then None
                      else Some reasonDue)))"

definition offerRenewal :: "Manager \<Rightarrow> instant \<Rightarrow> instant \<Rightarrow> bool \<Rightarrow> renewal_conn \<Rightarrow> renewal_conn" where
  "offerRenewal m now now' sent c =
     (if \<not> rc_renewal c then c
      else (case renewalReason m now now' c of
              None \<Rightarrow> c
            | Some reason \<Rightarrow>
                if rc_askedAt c \<noteq> 0 \<and> time_Sub now (rc_askedAt c) \<le> renewalAnswerWait then c
                else snd (rc_send sent (RenewCertificate reason) (c\<lparr>rc_askedAt := now\<rparr>))))"

definition takeOffer :: "instant \<Rightarrow> renewal_conn \<Rightarrow> bool \<times> renewal_conn" where
  "takeOffer now c =
     (rc_askedAt c \<noteq> 0 \<and> time_Sub now (rc_askedAt c) \<le> renewalAnswerWait, c\<lparr>rc_askedAt := 0\<rparr>)"

text \<open>
  What a request meets besides the ledger: which devices are deleted or known, and whether the two
  reads of the table fail.
\<close>

record renewal_env =
  re_deleted :: "uuid \<Rightarrow> bool"
  re_known :: "uuid \<Rightarrow> bool"
  re_countFails :: bool
  re_oldestFails :: bool

definition requestMismatch :: "pki_ops \<Rightarrow> Ledger \<Rightarrow> x509_request \<Rightarrow> renewal_conn \<Rightarrow> string" where
  "requestMismatch ops s csr c =
     (if op_uuid_parse (pki_ledger ops) (q_CN csr) \<noteq> Some (rc_DeviceID c) then refusedWrongDevice
      else if Superseded s (rc_certFP c) then refusedSuperseded
      else if (\<exists>leaf \<in> set_option (rc_leaf c). q_SPKI csr = x_SPKI leaf) then refusedKeyReuse
      else '''')"

definition deviceRefusal :: "renewal_env \<Rightarrow> Ledger \<Rightarrow> uuid \<Rightarrow> instant \<Rightarrow> string \<times> 32 word" where
  "deviceRefusal env s d now =
     (if re_deleted env d then (refusedDeleted, 0)
      else if \<not> re_known env d then (refusedUnknownDevice, 0)
      else (let since = now - renewalWindow in
            if re_countFails env then (refusedServerError, 0)
            else if RenewalsSince s d since < renewalsPerDay then ('''', 0)
            else if re_oldestFails env then (refusedServerError, 0)
            else (let wait = time_Sub (OldestRenewalSince s d since + renewalWindow) now in
                  (refusedRateLimited, word_of_int (max 1 (go_quot (min wait renewalWindow) time_second))))))"

text \<open>
  The checks of \<open>renewFor\<close> up to the allowance, and the issuance behind the in-flight guard: another
  connection of the same device may run between the two.
\<close>

definition renew_checks ::
  "pki_ops \<Rightarrow> renewal_env \<Rightarrow> instant \<Rightarrow> bytes \<Rightarrow> Ledger \<Rightarrow> renewal_conn \<Rightarrow>
     ((string \<times> 32 word) + x509_request) \<times> renewal_conn" where
  "renew_checks ops env now csrDER s c =
     (case takeOffer now c of
        (False, c') \<Rightarrow> (Inl (refusedUnsolicited, 0), c')
      | (True, c') \<Rightarrow>
          if length csrDER > maxCSRBytes then (Inl (refusedInvalid, 0), c')
          else (case ParseDeviceRequest ops csrDER of
                  Inl ErrNotP256 \<Rightarrow> (Inl (refusedKeyType, 0), c')
                | Inl _ \<Rightarrow> (Inl (refusedInvalid, 0), c')
                | Inr csr \<Rightarrow>
                    (let reason = requestMismatch ops s csr c' in
                     if reason \<noteq> '''' then (Inl (reason, 0), c')
                     else (let refusal = deviceRefusal env s (rc_DeviceID c') now in
                           if fst refusal \<noteq> '''' then (Inl refusal, c') else (Inr csr, c')))))"

record renewals =
  rn_ledger :: Ledger
  rn_inFlight :: "uuid list"

definition renew_enter :: "uuid \<Rightarrow> renewals \<Rightarrow> bool \<times> renewals" where
  "renew_enter d r = (if d \<in> set (rn_inFlight r) then (False, r) else (True, r\<lparr>rn_inFlight := d # rn_inFlight r\<rparr>))"

definition renew_leave :: "uuid \<Rightarrow> renewals \<Rightarrow> renewals" where
  "renew_leave d r = r\<lparr>rn_inFlight := filter (\<lambda>x. x \<noteq> d) (rn_inFlight r)\<rparr>"

definition renew_issue ::
  "pki_ops \<Rightarrow> Manager \<Rightarrow> attempt \<Rightarrow> x509_request \<Rightarrow> uuid \<Rightarrow> renewals \<Rightarrow>
     ((string \<times> 32 word) + (bytes \<times> x509_cert)) \<times> renewals" where
  "renew_issue ops m t csr d r =
     (case renew_enter d r of
        (False, r') \<Rightarrow> (Inl (refusedInFlight, 0), r')
      | (True, r') \<Rightarrow>
          (case Issue ops m t csr d SourceRenew (rn_ledger r') of
             (Inl _, s) \<Rightarrow> (Inl (refusedServerError, 0), renew_leave d (r'\<lparr>rn_ledger := s\<rparr>))
           | (Inr der, s) \<Rightarrow>
               (case pki_parse ops der of
                  None \<Rightarrow> (Inl (refusedServerError, 0), renew_leave d (r'\<lparr>rn_ledger := s\<rparr>))
                | Some leaf \<Rightarrow> (Inr (der, leaf), renew_leave d (r'\<lparr>rn_ledger := s\<rparr>)))))"

definition renewFor ::
  "pki_ops \<Rightarrow> Manager \<Rightarrow> renewal_env \<Rightarrow> instant \<Rightarrow> attempt \<Rightarrow> bytes \<Rightarrow> renewal_conn \<times> renewals \<Rightarrow>
     ((string \<times> 32 word) + (bytes \<times> x509_cert)) \<times> (renewal_conn \<times> renewals)" where
  "renewFor ops m env now t csrDER st =
     (case renew_checks ops env now csrDER (rn_ledger (snd st)) (fst st) of
        (Inl refusal, c) \<Rightarrow> (Inl refusal, (c, snd st))
      | (Inr csr, c) \<Rightarrow>
          (case renew_issue ops m t csr (rc_DeviceID c) (snd st) of (out, r) \<Rightarrow> (out, (c, r))))"

definition handleCertificateRequest ::
  "pki_ops \<Rightarrow> Manager \<Rightarrow> renewal_env \<Rightarrow> instant \<Rightarrow> attempt \<Rightarrow> bool \<Rightarrow> bytes \<Rightarrow> renewal_conn \<times> renewals \<Rightarrow>
     bool \<times> (renewal_conn \<times> renewals)" where
  "handleCertificateRequest ops m env now t sent csr st =
     (if \<not> rc_renewal (fst st) then (True, st)
      else (case renewFor ops m env now t csr st of
              (Inl (reason, retryAfter), (c, r)) \<Rightarrow>
                (case rc_send sent (CertificateRefused reason retryAfter) c of (ok, c') \<Rightarrow> (ok, (c', r)))
            | (Inr (der, leaf), (c, r)) \<Rightarrow>
                (case rc_send sent (CertificateIssued der (m_bundlePEM m))
                        (c\<lparr>rc_issued := Some (op_sha256 (pki_ledger ops) der, leaf)\<rparr>) of
                   (ok, c') \<Rightarrow> (ok, (c', r)))))"

definition no_authority :: Authority where
  "no_authority =
     \<lparr>au_Cert = \<lparr>x_Raw = [], x_CN = '''', x_RawSubject = [], x_NotBefore = 0, x_NotAfter = 0, x_SPKI = []\<rparr>,
      au_Role = RoleIssuer, au_Hash = replicate 48 0\<rparr>"

definition authorityOf :: "pki_ops \<Rightarrow> Manager \<Rightarrow> x509_cert \<Rightarrow> Authority" where
  "authorityOf ops m leaf =
     (case find (\<lambda>a. pki_signed_by ops leaf (au_Cert a)) (m_authorities m) of
        Some a \<Rightarrow> a
      | None \<Rightarrow> no_authority)"

text \<open>The list is the certificates whose connections \<open>closeSuperseded\<close> is to close.\<close>

definition handleCertificateInstalled ::
  "pki_ops \<Rightarrow> Manager \<Rightarrow> bool \<Rightarrow> instant \<Rightarrow> renewal_conn \<times> renewals \<Rightarrow>
     fingerprint list \<times> (renewal_conn \<times> renewals)" where
  "handleCertificateInstalled ops m refused now st =
     (case st of (c, r) \<Rightarrow>
        if \<not> rc_renewal c then ([], st)
        else (case rc_issued c of
                None \<Rightarrow> ([], st)
              | Some (issued, leaf) \<Rightarrow>
                  (case MarkInstalled refused issued now (rn_ledger r) of
                     ((older, _), s) \<Rightarrow>
                       (older, (c\<lparr>rc_issued := None, rc_certFP := issued, rc_leaf := Some leaf,
                                  rc_authority := authorityOf ops m leaf\<rparr>, r\<lparr>rn_ledger := s\<rparr>)))))"

section \<open>A session restricted to renewing\<close>

datatype restricted_msg = RMRegister | RMRequest bytes | RMInstalled | RMOther

text \<open>
  The outcome of a message: whether the read loop goes on, whether the connection is closed as
  renewed, and the connections to close.
\<close>

definition dispatchRestricted ::
  "pki_ops \<Rightarrow> Manager \<Rightarrow> renewal_env \<Rightarrow> instant \<Rightarrow> instant \<Rightarrow> attempt \<Rightarrow> bool \<Rightarrow> restricted_msg \<Rightarrow>
     renewal_conn \<times> renewals \<Rightarrow> (bool \<times> bool \<times> fingerprint list) \<times> (renewal_conn \<times> renewals)" where
  "dispatchRestricted ops m env now now' t sent msg st =
     (case msg of
        RMRegister \<Rightarrow> ((True, False, []), (offerRenewal m now now' sent (fst st), snd st))
      | RMRequest csr \<Rightarrow>
          (case handleCertificateRequest ops m env now t sent csr st of (ok, st') \<Rightarrow> ((ok, False, []), st'))
      | RMInstalled \<Rightarrow>
          (case handleCertificateInstalled ops m (at_refused t) now st of (older, st') \<Rightarrow> ((True, True, older), st'))
      | RMOther \<Rightarrow> ((True, False, []), st))"

section \<open>The sweep\<close>

definition sweepPeriod :: duration where "sweepPeriod = 24 * time_hour"
definition sweepJitter :: duration where "sweepJitter = time_hour"
definition changeoverSweepPeriod :: duration where "changeoverSweepPeriod = 10 * time_minute"

text \<open>\<open>jitter\<close> is the draw below twice the jitter, \<open>None\<close> when the random source fails.\<close>

definition sweepWait :: "Manager \<Rightarrow> duration option \<Rightarrow> duration" where
  "sweepWait m jitter =
     (if InChangeover m then changeoverSweepPeriod
      else (case jitter of None \<Rightarrow> sweepPeriod | Some j \<Rightarrow> sweepPeriod - sweepJitter + j))"

text \<open>
  \<open>SweepRenewals\<close> collects the due connections and offers to them one per tick; \<open>ticks\<close> gives the
  clock at each tick, in order, and runs out when the context is cancelled.
\<close>

fun offer_ticks ::
  "Manager \<Rightarrow> nat list \<Rightarrow> (instant \<times> instant \<times> bool) list \<Rightarrow> renewal_conn list \<Rightarrow> nat \<times> renewal_conn list" where
  "offer_ticks m (i # is) ((now, now', sent) # ts) cs =
     (case offer_ticks m is ts (cs[i := offerRenewal m now now' sent (cs ! i)]) of (n, cs') \<Rightarrow> (Suc n, cs'))"
| "offer_ticks m _ _ cs = (0, cs)"

definition SweepRenewals ::
  "Manager \<Rightarrow> instant \<Rightarrow> instant \<Rightarrow> (instant \<times> instant \<times> bool) list \<Rightarrow> renewal_conn list \<Rightarrow> nat \<times> renewal_conn list" where
  "SweepRenewals m now now' ticks cs =
     offer_ticks m (filter (\<lambda>i. renewalReason m now now' (cs ! i) \<noteq> None) [0..<length cs]) ticks cs"

text \<open>One round of \<open>RunCertificateMaintenance\<close>: the sweep, then the pruning of the ledger.\<close>

definition maintenance_round ::
  "Manager \<Rightarrow> instant \<Rightarrow> instant \<Rightarrow> (instant \<times> instant \<times> bool) list \<Rightarrow> nat option \<Rightarrow> instant \<Rightarrow>
     renewal_conn list \<times> Ledger \<Rightarrow> renewal_conn list \<times> Ledger" where
  "maintenance_round m now now' ticks refusedAt pruneNow st =
     (snd (SweepRenewals m now now' ticks (fst st)),
      snd (Prune refusedAt pruneNow DefaultExpiredGrace (snd st)))"

end
