(* ===== verification/Cert_Properties.thy ===== *)
theory Cert_Properties
  imports Cert_Renewal
begin

text \<open>
  Correctness of admission and renewal: what an admitted certificate is, that an enrolled machine is
  admitted, that a renewal makes progress and hands over from the old certificate to the new one,
  and how far the daily allowance holds.
\<close>

section \<open>Classification\<close>

lemma verifyAtIssuance_trusted:
  "verifyAtIssuance ops m leaf = Inr a \<Longrightarrow> a \<in> set (m_authorities m)"
  by (auto simp: verifyAtIssuance_def Let_def find_Some_iff split: option.splits list.splits if_splits)

lemma ClassifyD:
  assumes "Classify ops m now peer = Inr c"
  obtains rest where "peer = cl_Leaf c # rest"
    "op_uuid_parse (pki_ledger ops) (x_CN (cl_Leaf c)) = Some (cl_DeviceID c)"
    "x_NotBefore (cl_Leaf c) \<le> now" "cl_Authority c \<in> set (m_authorities m)"
    "cl_Expired c = (now > cert_expiry (cl_Leaf c) (cl_Authority c))"
    "cl_Standing c =
       (if cl_Expired c \<and> time_Sub now (cert_expiry (cl_Leaf c) (cl_Authority c)) > m_expiredGrace m then StandingTooOld
        else if au_Role (cl_Authority c) = RoleVouchedOnly then StandingNeedsVoucher
        else if cl_Expired c \<or> au_Role (cl_Authority c) = RoleRenewOnly then StandingRenewOnly
        else StandingFull)"
  using assms verifyAtIssuance_trusted
  by (auto simp: Classify_def Let_def not_less split: list.splits option.splits sum.splits if_split_asm)

lemma admit_class:
  "Classify ops m now peer = Inr c \<Longrightarrow>
     ad_class (admit ops m now ledger peer) = Some c \<and>
     ad_fp (admit ops m now ledger peer) = op_sha256 (pki_ledger ops) (x_Raw (cl_Leaf c))"
  by (simp add: admit_def Let_def)

lemma admit_admits:
  assumes "ad_refusal (admit ops m now ledger peer) = ''''"
  obtains c s e where "Classify ops m now peer = Inr c" "ledger = Some s"
    "Lookup s (op_sha256 (pki_ledger ops) (x_Raw (cl_Leaf c))) = Some e"
    "\<not> Superseded s (op_sha256 (pki_ledger ops) (x_Raw (cl_Leaf c)))"
    "cl_Standing c \<noteq> StandingTooOld"
    "cl_Standing c = StandingNeedsVoucher \<Longrightarrow> e_IssuedAt e < m_compromisedSince m"
proof (cases "Classify ops m now peer")
  case (Inl e)
  then show ?thesis using assms by (simp add: admit_def)
next
  case (Inr c)
  let ?fp = "op_sha256 (pki_ledger ops) (x_Raw (cl_Leaf c))"
  have old: "cl_Standing c \<noteq> StandingTooOld" using assms Inr by (auto simp: admit_def Let_def)
  with assms Inr obtain s where s: "ledger = Some s" by (cases ledger) (auto simp: admit_def Let_def)
  with assms Inr old obtain e where e: "Lookup s ?fp = Some e"
    by (cases "Lookup s ?fp") (auto simp: admit_def Let_def)
  with assms Inr old s have "\<not> Superseded s ?fp"
    by (cases "Superseded s ?fp") (auto simp: admit_def Let_def)
  moreover from this have "e_IssuedAt e < m_compromisedSince m" if "cl_Standing c = StandingNeedsVoucher"
    using assms Inr old s e that by (cases "e_IssuedAt e < m_compromisedSince m") (auto simp: admit_def Let_def)
  ultimately show ?thesis using that Inr s e old by blast
qed


section \<open>Renewal times\<close>

lemma wrap64_small: "- (2 ^ 63) \<le> i \<Longrightarrow> i < 2 ^ 63 \<Longrightarrow> wrap64 i = i"
  by (simp add: wrap64_def int_word_sint mod_pos_pos_trivial)

lemma go_quot_nonneg: "0 \<le> a \<Longrightarrow> 0 < b \<Longrightarrow> go_quot a b = a div b"
  by (cases "a = 0") (simp_all add: go_quot_def)

text \<open>What a certificate keeps of a time: whole seconds.\<close>

definition whole_seconds :: "instant \<Rightarrow> instant" where
  "whole_seconds t = t - t mod time_second"

lemma whole_seconds_bounds: "whole_seconds t \<le> t" "t < whole_seconds t + 1000000000"
  by (simp_all add: whole_seconds_def)

lemma renewalReason_due:
  assumes "renewalReason m now now' c = Some reason" "au_Role (rc_authority c) = RoleIssuer" "rc_leaf c = Some leaf"
  shows "reason = reasonDue" "x_NotAfter leaf < NextLeafEnd m now'"
    "now \<ge> x_NotBefore leaf + go_quot (wrap64 (time_Sub (x_NotAfter leaf) (x_NotBefore leaf) * 2)) 3"
  using assms by (auto simp: renewalReason_def Let_def split: if_split_asm)

lemma leafTemplate_times:
  assumes "leafTemplate serial issuer now cn ku ext = Inr t"
  shows "ct_NotBefore t = now - clockSkewMargin" "ct_NotAfter t = min (now + leafValidity) (x_NotAfter issuer)"
    "now \<le> x_NotAfter issuer" "ct_CN t = cn" "ct_ExtKeyUsage t = [ext]"
  using assms by (auto simp: leafTemplate_def Let_def split: if_split_asm option.splits)

lemma NextLeafEnd_min: "NextLeafEnd m now = min (now + leafValidity) (x_NotAfter (m_issuer m))"
  by (simp add: NextLeafEnd_def Let_def)


section \<open>What is issued is admitted\<close>

text \<open>
  What is documented of the certificate functions for certificates of the issuing master key: a UUID
  is read back from its text; a certificate created from a template parses to its bytes, with the
  template's name and key and with its times in whole seconds; and while both it and the master key
  are valid it verifies by the chain of the two, when no other trusted key has the same name and key.
\<close>

definition documented_pki :: "pki_ops \<Rightarrow> Manager \<Rightarrow> bool" where
  "documented_pki ops m \<longleftrightarrow>
     (\<forall>d. op_uuid_parse (pki_ledger ops) (pki_uuid_string ops d) = Some d) \<and>
     (\<forall>t pub der. pki_create ops t (Some (m_issuer m)) pub (m_issuerKey m) = Some der \<longrightarrow>
        (\<exists>leaf. pki_parse ops der = Some leaf \<and> x_Raw leaf = der \<and> x_CN leaf = ct_CN t \<and> x_SPKI leaf = pub \<and>
           x_NotBefore leaf = whole_seconds (ct_NotBefore t) \<and> x_NotAfter leaf = whole_seconds (ct_NotAfter t) \<and>
           (\<forall>tm. ct_ExtKeyUsage t = [ClientAuth] \<and> x_NotBefore leaf \<le> tm \<and> tm \<le> x_NotAfter leaf \<and>
              x_NotBefore (m_issuer m) \<le> tm \<and> tm \<le> x_NotAfter (m_issuer m) \<longrightarrow>
              pki_verify ops (pool m) tm leaf = Some [[leaf, m_issuer m]])))"

lemma documented_sign:
  assumes doc: "documented_pki ops m" and s: "sign ops m serial now csr d = Inr (der, leaf)"
  obtains "pki_parse ops der = Some leaf" "x_Raw leaf = der" "op_uuid_parse (pki_ledger ops) (x_CN leaf) = Some d"
    "x_SPKI leaf = q_SPKI csr" "x_NotBefore leaf = whole_seconds (now - clockSkewMargin)"
    "x_NotAfter leaf = whole_seconds (min (now + leafValidity) (x_NotAfter (m_issuer m)))"
    "now \<le> x_NotAfter (m_issuer m)"
    "\<And>tm. x_NotBefore leaf \<le> tm \<Longrightarrow> tm \<le> x_NotAfter leaf \<Longrightarrow> x_NotBefore (m_issuer m) \<le> tm \<Longrightarrow>
       tm \<le> x_NotAfter (m_issuer m) \<Longrightarrow> pki_verify ops (pool m) tm leaf = Some [[leaf, m_issuer m]]"
proof -
  from s obtain t where t: "leafTemplate serial (m_issuer m) now (pki_uuid_string ops d) [DigitalSignature] ClientAuth = Inr t"
    and c: "pki_create ops t (Some (m_issuer m)) (q_SPKI csr) (m_issuerKey m) = Some der" and p: "pki_parse ops der = Some leaf"
    by (auto simp: sign_def IssueDevice_def issueLeaf_def split: sum.splits option.splits)
  note tt = leafTemplate_times [OF t]
  have u: "\<And>x. op_uuid_parse (pki_ledger ops) (pki_uuid_string ops x) = Some x"
    using doc unfolding documented_pki_def by blast
  from doc c obtain leaf' where "pki_parse ops der = Some leaf'" and l: "x_Raw leaf' = der" "x_CN leaf' = ct_CN t"
      "x_SPKI leaf' = q_SPKI csr" "x_NotBefore leaf' = whole_seconds (ct_NotBefore t)"
      "x_NotAfter leaf' = whole_seconds (ct_NotAfter t)"
      "\<And>tm. ct_ExtKeyUsage t = [ClientAuth] \<Longrightarrow> x_NotBefore leaf' \<le> tm \<Longrightarrow> tm \<le> x_NotAfter leaf' \<Longrightarrow>
         x_NotBefore (m_issuer m) \<le> tm \<Longrightarrow> tm \<le> x_NotAfter (m_issuer m) \<Longrightarrow>
         pki_verify ops (pool m) tm leaf' = Some [[leaf', m_issuer m]]"
    unfolding documented_pki_def by blast
  moreover from this p have [simp]: "leaf' = leaf" by simp
  ultimately show ?thesis using that p tt u l(6) by simp
qed

text \<open>The issuing master key comes first among the trusted ones.\<close>

lemma find_issuer:
  "find (\<lambda>a. cert_Equal (au_Cert a) (m_issuer (newManager ops ts opts))) (m_authorities (newManager ops ts opts)) =
     Some (authority ops (ts_issuer ts) RoleIssuer)"
  by (simp add: newManager_def authorities_def authority_def cert_Equal_def)

lemma issued_verifies:
  assumes doc: "documented_pki ops m" and m: "m = newManager ops ts opts"
    and s: "sign ops m serial signedAt csr d = Inr (der, leaf)"
    and young: "x_NotBefore (m_issuer m) + time_second \<le> signedAt"
  shows "verifyAtIssuance ops m leaf = Inr (authority ops (ts_issuer ts) RoleIssuer)"
proof -
  let ?at = "if x_NotBefore leaf + clockSkewMargin > x_NotAfter leaf then x_NotAfter leaf
    else x_NotBefore leaf + clockSkewMargin"
  from documented_sign [OF doc s] have NB: "x_NotBefore leaf = whole_seconds (signedAt - clockSkewMargin)"
    and NA: "x_NotAfter leaf = whole_seconds (min (signedAt + leafValidity) (x_NotAfter (m_issuer m)))"
    and cap: "signedAt \<le> x_NotAfter (m_issuer m)"
    and v: "\<And>tm. x_NotBefore leaf \<le> tm \<Longrightarrow> tm \<le> x_NotAfter leaf \<Longrightarrow> x_NotBefore (m_issuer m) \<le> tm \<Longrightarrow>
       tm \<le> x_NotAfter (m_issuer m) \<Longrightarrow> pki_verify ops (pool m) tm leaf = Some [[leaf, m_issuer m]]"
    by blast+
  have b: "signedAt - clockSkewMargin - time_second < x_NotBefore leaf" "x_NotBefore leaf \<le> signedAt - clockSkewMargin"
    "signedAt - time_second < x_NotAfter leaf" "x_NotAfter leaf \<le> x_NotAfter (m_issuer m)"
    using whole_seconds_bounds [of "signedAt - clockSkewMargin"] cap
      whole_seconds_bounds [of "min (signedAt + leafValidity) (x_NotAfter (m_issuer m))"]
    unfolding NB NA leafValidity_def by simp_all
  have "pki_verify ops (pool m) ?at leaf = Some [[leaf, m_issuer m]]"
    by (rule v) (use b young in \<open>simp_all add: clockSkewMargin_def\<close>)
  then show ?thesis using find_issuer [of ops ts opts] unfolding verifyAtIssuance_def Let_def by (simp add: m)
qed

lemma issued_classified:
  assumes doc: "documented_pki ops m" and m: "m = newManager ops ts opts"
    and s: "sign ops m serial signedAt csr d = Inr (der, leaf)"
    and young: "x_NotBefore (m_issuer m) + time_second \<le> signedAt"
    and valid: "x_NotBefore leaf \<le> now" "now \<le> x_NotAfter leaf"
  shows "Classify ops m now (leaf # rest) = Inr \<lparr>cl_DeviceID = d, cl_Leaf = leaf,
    cl_Authority = authority ops (ts_issuer ts) RoleIssuer, cl_Standing = StandingFull, cl_Expired = False\<rparr>"
proof -
  have NA: "x_NotAfter leaf \<le> x_NotAfter (ts_issuer ts)"
  proof (rule documented_sign [OF doc s])
    assume "x_NotAfter leaf = whole_seconds (min (signedAt + leafValidity) (x_NotAfter (m_issuer m)))"
    then show ?thesis
      using whole_seconds_bounds(1) [of "min (signedAt + leafValidity) (x_NotAfter (m_issuer m))"]
      by (simp add: m newManager_def)
  qed
  have id: "op_uuid_parse (pki_ledger ops) (x_CN leaf) = Some d" using documented_sign [OF doc s] by blast
  have "\<not> cert_expiry leaf (authority ops (ts_issuer ts) RoleIssuer) < now"
    using valid NA by (simp add: cert_expiry_def authority_def)
  then show ?thesis
    using valid id issued_verifies [OF doc m s young] by (simp add: Classify_def authority_def Let_def)
qed

section \<open>Enrolment\<close>

lemma enroll_loop_issued:
  assumes "enroll_loop ops m held csr ts s = (Inr (d, der), s')"
  obtains t leaf e where "t \<in> set ts" "d = at_number t" "\<not> HasDevice s d"
    "sign ops m (at_serial t) (at_signed t) csr d = Inr (der, leaf)"
    "Claim (pki_ledger ops) (at_refused t) held leaf (IssuerHash ops m) (at_recorded t) s = (Inr (Some e), s')"
proof -
  have "\<exists>t leaf e. t \<in> set ts \<and> d = at_number t \<and> \<not> HasDevice s d \<and>
      sign ops m (at_serial t) (at_signed t) csr d = Inr (der, leaf) \<and>
      Claim (pki_ledger ops) (at_refused t) held leaf (IssuerHash ops m) (at_recorded t) s = (Inr (Some e), s')"
    using assms
  proof (induction ts)
    case (Cons t ts)
    show ?case
    proof (cases "HasDevice s (at_number t)")
      case True
      then show ?thesis using Cons by auto
    next
      case False
      with Cons.prems obtain der' leaf where sg: "sign ops m (at_serial t) (at_signed t) csr (at_number t) = Inr (der', leaf)"
        by (auto split: sum.splits)
      obtain o' s1 where cl: "Claim (pki_ledger ops) (at_refused t) held leaf (IssuerHash ops m) (at_recorded t) s = (o', s1)"
        by (cases "Claim (pki_ledger ops) (at_refused t) held leaf (IssuerHash ops m) (at_recorded t) s")
      show ?thesis
      proof (cases "o' = Inr None")
        case True
        then have "s1 = s" using cl by (auto simp: Claim_def case_prod_unfold split: option.splits if_split_asm)
        then show ?thesis using Cons False sg cl True by auto
      next
        case no: False
        then show ?thesis using Cons.prems False sg cl by (auto split: sum.splits option.splits)
      qed
    qed
  qed simp
  then show ?thesis using that by blast
qed

lemma Claim_fresh:
  assumes wf: "ledger_wf s" and new: "\<not> HasDevice s d" and fresh: "Lookup s (op_sha256 ops (x_Raw leaf)) = None"
    and id: "op_uuid_parse ops (x_CN leaf) = Some d"
    and c: "Claim ops refused held leaf h t s = (Inr (Some e), s')"
  shows "\<not> held d" "\<exists>e'. Lookup s' (op_sha256 ops (x_Raw leaf)) = Some e'" "\<not> Superseded s' (op_sha256 ops (x_Raw leaf))"
    "ledger_wf s'"
proof -
  let ?e = "\<lparr>e_Fingerprint = op_sha256 ops (x_Raw leaf), e_DeviceID = d, e_IssuerHash = h,
    e_NotBefore = x_NotBefore leaf, e_NotAfter = x_NotAfter leaf, e_Source = SourceEnroll, e_IssuedAt = t, e_Seen = False\<rparr>"
  have ent: "entryFor ops leaf h SourceEnroll t = Some ?e" using id by (simp add: entryFor_def)
  have e: "e_DeviceID ?e = d" "e_Fingerprint ?e = op_sha256 ops (x_Raw leaf)" by simp_all
  from c show "\<not> held d" by (simp only: Claim_def ent option.case e split: if_split_asm) simp_all
  from c have s': "s' = snd (ledger_index ?e (insert_row ops ?e s))"
    by (simp only: Claim_def ent option.case case_prod_unfold split: if_split_asm) simp_all
  then show wf': "ledger_wf s'" using wf wf_ledger_index by simp
  have ls: "Lookup (insert_row ops ?e s) = Lookup s" by (simp add: insert_row_def)
  then have L: "Lookup s' = (Lookup s)(op_sha256 ops (x_Raw leaf) \<mapsto> ?e)"
    using wf_indexLocked(2) [of "insert_row ops ?e s" ?e] wf fresh
    by (simp add: s' ledger_index_def) (simp add: Lookup_def insert_row_def)
  then show "\<exists>e'. Lookup s' (op_sha256 ops (x_Raw leaf)) = Some e'" by simp
  have "e_DeviceID x \<noteq> d" if "Lookup s fp = Some x" for fp x
  proof (rule LookupD [OF wf that])
    fix a
    assume "a \<in> set (device_addrs s (e_DeviceID x))"
    then show ?thesis using new by (auto simp: HasDevice_def)
  qed
  then have "\<not> superseded_in (Lookup s') ?e"
    unfolding superseded_in_def L by (auto split: if_splits)
  then show "\<not> Superseded s' (op_sha256 ops (x_Raw leaf))"
    using Superseded_iff [OF wf'] by (simp add: L)
qed

text \<open>
  C28. An enrolled machine gets in. The number \<open>Enroll\<close> hands out was held by no device and no
  certificate, and the certificate that goes with it admits exactly that machine, without
  restriction, for as long as it is valid.
\<close>

theorem enrolled_machine_is_admitted:
  assumes "reachable ledger_start (ledger_step lops) s" "m = newManager ops ts opts" "documented_pki ops m"
    and "Enroll ops m held attempts csrDER s = (Inr (d, der), s')"
    and "Lookup s (op_sha256 (pki_ledger ops) der) = None"
    and "\<forall>i. x_NotBefore (m_issuer m) + time_second \<le> at_signed (attempts i)"
  shows "\<not> held d \<and> \<not> HasDevice s d \<and>
    (\<exists>leaf. pki_parse ops der = Some leaf \<and>
       (\<forall>now. x_NotBefore leaf \<le> now \<and> now \<le> x_NotAfter leaf \<longrightarrow>
          (\<exists>a. admit ops m now (Some s') [leaf] = a \<and> ad_refusal a = '''' \<and> \<not> restricted a \<and>
               map_option cl_DeviceID (ad_class a) = Some d)))"
proof -
  have wf: "ledger_wf s" using assms(1) by (rule ledgers.holds)
  from assms(4) obtain csr where "enroll_loop ops m held csr (map attempts [0..<numberAttempts]) s = (Inr (d, der), s')"
    by (auto simp: Enroll_def split: sum.splits)
  then obtain t leaf e where t: "t \<in> set (map attempts [0..<numberAttempts])" and new: "\<not> HasDevice s d"
    and sg: "sign ops m (at_serial t) (at_signed t) csr d = Inr (der, leaf)"
    and cl: "Claim (pki_ledger ops) (at_refused t) held leaf (IssuerHash ops m) (at_recorded t) s = (Inr (Some e), s')"
    by (rule enroll_loop_issued) blast
  have raw: "x_Raw leaf = der" and p: "pki_parse ops der = Some leaf"
    and id: "op_uuid_parse (pki_ledger ops) (x_CN leaf) = Some d"
    using documented_sign [OF assms(3) sg] by blast+
  have young: "x_NotBefore (m_issuer m) + time_second \<le> at_signed t" using t assms(6) by auto
  note cf = Claim_fresh [OF wf new _ id cl, unfolded raw, OF assms(5)]
  have "\<exists>a. admit ops m now (Some s') [leaf] = a \<and> ad_refusal a = '''' \<and> \<not> restricted a \<and>
      map_option cl_DeviceID (ad_class a) = Some d" if "x_NotBefore leaf \<le> now \<and> now \<le> x_NotAfter leaf" for now
  proof -
    have "Classify ops m now [leaf] = Inr \<lparr>cl_DeviceID = d, cl_Leaf = leaf,
        cl_Authority = authority ops (ts_issuer ts) RoleIssuer, cl_Standing = StandingFull, cl_Expired = False\<rparr>"
      using issued_classified [OF assms(3,2) sg young, of now "[]"] that by blast
    then show ?thesis using cf(2,3) by (auto simp: admit_def restricted_def Let_def raw)
  qed
  then show ?thesis using cf(1) new p by blast
qed

section \<open>Handing over to the renewed certificate\<close>

lemma Record_fresh:
  assumes wf: "ledger_wf s" and fresh: "Lookup s (op_sha256 ops (x_Raw leaf)) = None"
    and ok: "Record ops refused leaf h src t s = (Some e, s')"
  shows "ledger_wf s'" "Lookup s' = (Lookup s)(op_sha256 ops (x_Raw leaf) \<mapsto> e)"
    "entryFor ops leaf h src t = Some e"
proof -
  obtain e0 where ent: "entryFor ops leaf h src t = Some e0"
    using ok by (cases "entryFor ops leaf h src t") (simp_all add: Record_def)
  have fp: "e_Fingerprint e0 = op_sha256 ops (x_Raw leaf)" using ent by (auto simp: entryFor_def)
  define s0 where "s0 = (if has_row s (e_Fingerprint e0) then s else insert_row ops e0 s)"
  have L: "Lookup s0 = Lookup s" "ledger_wf s0" using wf by (simp_all add: s0_def insert_row_def)
  have ref: "\<not> refused" using ok ent by (auto simp: Record_def)
  have out: "(Some e, s') = (Some (fst (ledger_index e0 s0)), snd (ledger_index e0 s0))"
    using ok ref by (simp add: Record_def ent case_prod_unfold s0_def)
  have "Lookup s0 (e_Fingerprint e0) = None" using fresh L(1) fp by simp
  then have "map_of (l_byPrint s0) (e_Fingerprint e0) = None" by (simp add: Lookup_def)
  then have "ledger_index e0 s0 = (e0, indexLocked e0 s0)" by (simp add: ledger_index_def)
  then have eq: "e = e0" "s' = indexLocked e0 s0" using out by simp_all
  show "ledger_wf s'" "Lookup s' = (Lookup s)(op_sha256 ops (x_Raw leaf) \<mapsto> e)"
    using wf_indexLocked [OF L(2), of e0] fresh L(1) fp eq by simp_all
  show "entryFor ops leaf h src t = Some e" using ent eq by simp
qed

lemma renew_issue_issued:
  assumes "renew_issue ops m t csr d r = (Inr (der, leaf), r')"
  obtains e where "sign ops m (at_serial t) (at_signed t) csr d = Inr (der, leaf)"
    "pki_parse ops der = Some leaf"
    "Record (pki_ledger ops) (at_refused t) leaf (IssuerHash ops m) SourceRenew (at_recorded t) (rn_ledger r) =
       (Some e, rn_ledger r')"
  using assms
  by (auto simp: renew_issue_def renew_enter_def renew_leave_def Issue_def sign_def
      split: if_split_asm sum.splits option.splits prod.splits)

lemma renew_checks_passed:
  assumes "renew_checks ops env now csrDER s c = (Inr csr, c')"
  shows "c' = c\<lparr>rc_askedAt := 0\<rparr>" "\<not> Superseded s (rc_certFP c)"
    "op_uuid_parse (pki_ledger ops) (q_CN csr) = Some (rc_DeviceID c)"
    "\<not> re_deleted env (rc_DeviceID c)" "re_known env (rc_DeviceID c)"
    "RenewalsSince s (rc_DeviceID c) (now - renewalWindow) < renewalsPerDay"
proof -
  have c': "c' = c\<lparr>rc_askedAt := 0\<rparr>"
    using assms by (auto simp: renew_checks_def takeOffer_def Let_def split: bool.splits sum.splits request_error.splits if_split_asm)
  moreover have mm: "requestMismatch ops s csr c' = ''''" and dr: "fst (deviceRefusal env s (rc_DeviceID c') now) = ''''"
    using assms by (auto simp: renew_checks_def takeOffer_def Let_def split: bool.splits sum.splits request_error.splits if_split_asm)
  ultimately show "c' = c\<lparr>rc_askedAt := 0\<rparr>" "\<not> Superseded s (rc_certFP c)"
    "op_uuid_parse (pki_ledger ops) (q_CN csr) = Some (rc_DeviceID c)"
    by (auto simp: requestMismatch_def refused_defs split: if_split_asm)
  show "\<not> re_deleted env (rc_DeviceID c)" "re_known env (rc_DeviceID c)"
    "RenewalsSince s (rc_DeviceID c) (now - renewalWindow) < renewalsPerDay"
    using dr c' by (auto simp: deviceRefusal_def refused_defs Let_def split: if_split_asm)
qed

lemma MarkInstalled_marks:
  assumes wf: "ledger_wf s" and i: "MarkInstalled refused fp t s = ((older, ok), s')"
  shows "older = fst (MarkSeen fp s)" "Superseded s' x = Superseded (snd (MarkSeen fp s)) x"
    "Lookup s' = Lookup (snd (MarkSeen fp s))" "ledger_wf s'"
proof -
  obtain o' b s1 where see: "see fp s = ((o', b), s1)" by (metis prod.exhaust)
  have m: "MarkSeen fp s = (o', s1)" using see by (simp add: MarkSeen_def)
  have s': "s' = s1 \<or> s' = writeSeen fp t s1" and o': "older = o'"
    using i see by (auto simp: MarkInstalled_def split: bool.splits if_split_asm)
  then show L: "Lookup s' = Lookup (snd (MarkSeen fp s))" using m by (auto simp: writeSeen_def)
  have wf1: "ledger_wf s1" using idx.mark_ok [OF wf, of fp] m by simp
  then show wf': "ledger_wf s'" using s' by auto
  show "older = fst (MarkSeen fp s)" using o' m by simp
  show "Superseded s' x = Superseded (snd (MarkSeen fp s)) x"
    using Superseded_iff [OF wf'] Superseded_iff [OF wf1] L m by simp
qed

lemma handleCertificateRequest_issued:
  assumes "handleCertificateRequest ops m env now t sent csrDER (c, r) = (ok, (c1, r1))"
    and "rc_issued c = None" "rc_issued c1 = Some (fp, leaf)"
  obtains der csr e where "renew_checks ops env now csrDER (rn_ledger r) c = (Inr csr, c\<lparr>rc_askedAt := 0\<rparr>)"
    "renew_issue ops m t csr (rc_DeviceID c) r = (Inr (der, leaf), r1)"
    "fp = op_sha256 (pki_ledger ops) der" "rc_renewal c" "rc_DeviceID c1 = rc_DeviceID c" "rc_renewal c1"
proof -
  have ren: "rc_renewal c" using assms by (cases "rc_renewal c") (auto simp: handleCertificateRequest_def)
  obtain out c' where ch: "renew_checks ops env now csrDER (rn_ledger r) c = (out, c')" by (metis prod.exhaust)
  show ?thesis
  proof (cases out)
    case (Inl refusal)
    have "rc_issued c' = rc_issued c"
      using ch by (auto simp: renew_checks_def takeOffer_def Let_def split: bool.splits sum.splits request_error.splits if_split_asm)
    then show ?thesis using assms ren ch Inl
      by (auto simp: handleCertificateRequest_def renewFor_def rc_send_def split: prod.splits if_split_asm)
  next
    case (Inr csr)
    have c': "c' = c\<lparr>rc_askedAt := 0\<rparr>" using renew_checks_passed(1) ch Inr by blast
    obtain res r2 where i: "renew_issue ops m t csr (rc_DeviceID c) r = (res, r2)" by (metis prod.exhaust)
    show ?thesis
    proof (cases res)
      case (Inl refusal)
      then show ?thesis using assms ren ch Inr i c'
        by (auto simp: handleCertificateRequest_def renewFor_def rc_send_def split: prod.splits if_split_asm)
    next
      case (Inr p)
      obtain der leaf' where p: "p = (der, leaf')" by (cases p)
      have "r2 = r1" "leaf' = leaf" "fp = op_sha256 (pki_ledger ops) der" "rc_DeviceID c1 = rc_DeviceID c" "rc_renewal c1"
        using assms ren ch \<open>out = Inr csr\<close> i c' Inr p
        by (auto simp: handleCertificateRequest_def renewFor_def rc_send_def split: if_split_asm)
      then show ?thesis using that ch \<open>out = Inr csr\<close> i c' Inr p ren by simp
    qed
  qed
qed


section \<open>An example\<close>

text \<open>
  A server with one master key, and the device whose number is 3: it enrols on day 1000 and renews 61
  days later. A certificate is known by one byte, a UUID is written in unary, and the digest is the
  identity.
\<close>

abbreviation (input) demo_day :: duration where "demo_day \<equiv> 24 * time_hour"

definition demo_issuer :: x509_cert where
  "demo_issuer = \<lparr>x_Raw = [200], x_CN = ''OpenGate CA'', x_RawSubject = [200], x_NotBefore = 0,
     x_NotAfter = 4000 * demo_day, x_SPKI = [201]\<rparr>"

definition demo_template :: "nat \<Rightarrow> instant \<Rightarrow> cert_template" where
  "demo_template n t = \<lparr>ct_Serial = n, ct_CN = ''xxx'', ct_NotBefore = t - 5 * time_minute,
     ct_NotAfter = t + 90 * demo_day, ct_KeyUsage = [DigitalSignature], ct_ExtKeyUsage = [ClientAuth],
     ct_IsCA = False, ct_MaxPathLen = 0, ct_DNSNames = [], ct_IPAddresses = []\<rparr>"

definition demo_device_leaf :: "byte \<Rightarrow> instant \<Rightarrow> x509_cert" where
  "demo_device_leaf n t = \<lparr>x_Raw = [n], x_CN = ''xxx'', x_RawSubject = [3], x_NotBefore = t - 5 * time_minute,
     x_NotAfter = t + 90 * demo_day, x_SPKI = [50 + n]\<rparr>"

definition demo_pki :: pki_ops where
  "demo_pki =
     \<lparr>pki_ledger = \<lparr>op_sha256 = (\<lambda>der. der), op_uuid_parse = (\<lambda>cn. Some (word_of_nat (length cn))), op_stored = (\<lambda>t. t)\<rparr>,
      pki_sha384 = (\<lambda>der. der), pki_uuid_string = (\<lambda>d. replicate (unat d) CHR ''x''),
      pki_create = (\<lambda>t iss pub key.
        if t = demo_template 1 (1000 * demo_day) \<and> pub = [51] then Some [1]
        else if t = demo_template 2 (1061 * demo_day) \<and> pub = [52] then Some [2] else None),
      pki_parse = (\<lambda>der. if der = [1] then Some (demo_device_leaf 1 (1000 * demo_day))
                         else if der = [2] then Some (demo_device_leaf 2 (1061 * demo_day)) else None),
      pki_parse_request = (\<lambda>der. if der = [] then None
                                 else Some \<lparr>q_CN = ''xxx'', q_SPKI = der, q_signed = True, q_P256 = True\<rparr>),
      pki_verify = (\<lambda>roots tm leaf. Some [[leaf, demo_issuer]]),
      pki_signed_by = (\<lambda>leaf c. x_Raw c = [200]),
      pki_pem = (\<lambda>kind der. der), pki_pem_blocks = (\<lambda>data. [data]),
      pki_ec_key = (\<lambda>der. Some der), pki_pkcs8_key = (\<lambda>der. None)\<rparr>"

definition demo_trust :: TrustSet where
  "demo_trust = \<lparr>ts_issuer = demo_issuer, ts_issuerKey = [201], ts_accepted = [], ts_renewOnly = [],
     ts_vouchedOnly = [], ts_chain = [], ts_mpsIssuer = demo_issuer, ts_mpsIssuerKey = [201]\<rparr>"

definition demo_manager :: Manager where
  "demo_manager = newManager demo_pki demo_trust default_options"

lemma demo_manager_simps [simp]:
  "m_issuer demo_manager = demo_issuer" "m_issuerKey demo_manager = [201]"
  by (simp_all add: demo_manager_def newManager_def demo_trust_def)

lemma demo_documented: "documented_pki demo_pki demo_manager"
proof -
  have "whole_seconds (k * demo_day - 5 * time_minute) = k * demo_day - 5 * time_minute"
    "whole_seconds (k * demo_day + 90 * demo_day) = k * demo_day + 90 * demo_day" for k
    by (simp_all add: whole_seconds_def)
  from this [of 1000] this [of 1061] show ?thesis
    by (auto simp: documented_pki_def demo_pki_def demo_template_def demo_device_leaf_def split: if_split_asm)
qed

definition demo_attempt :: "nat \<Rightarrow> instant \<Rightarrow> attempt" where
  "demo_attempt n t = \<lparr>at_number = 3, at_serial = Some n, at_signed = t, at_recorded = t, at_refused = False\<rparr>"

definition demo_cert_entry :: "byte \<Rightarrow> instant \<Rightarrow> Source \<Rightarrow> Entry" where
  "demo_cert_entry n t src = \<lparr>e_Fingerprint = [n], e_DeviceID = 3, e_IssuerHash = [200], e_NotBefore = t - 5 * time_minute,
     e_NotAfter = t + 90 * demo_day, e_Source = src, e_IssuedAt = t, e_Seen = False\<rparr>"

definition demo_enrolled :: Ledger where
  "demo_enrolled = snd (ledger_index (demo_cert_entry 1 (1000 * demo_day) SourceEnroll)
     (insert_row (pki_ledger demo_pki) (demo_cert_entry 1 (1000 * demo_day) SourceEnroll) (new_Ledger [])))"

lemma demo_name: "pki_uuid_string demo_pki 3 = ''xxx''"
  by (simp add: demo_pki_def) (simp add: numeral_3_eq_3)

lemma demo_template_eq:
  "serial = Some n \<Longrightarrow> t \<le> 3900 * demo_day \<Longrightarrow>
   leafTemplate serial demo_issuer t (pki_uuid_string demo_pki 3) [DigitalSignature] ClientAuth = Inr (demo_template n t)"
  by (simp add: leafTemplate_def demo_name demo_issuer_def demo_template_def leafValidity_def clockSkewMargin_def Let_def)

abbreviation demo_request :: "byte \<Rightarrow> x509_request" where
  "demo_request n \<equiv> \<lparr>q_CN = ''xxx'', q_SPKI = [50 + n], q_signed = True, q_P256 = True\<rparr>"

lemma demo_sign:
  "sign demo_pki demo_manager (Some 1) (1000 * demo_day) (demo_request 1) 3 = Inr ([1], demo_device_leaf 1 (1000 * demo_day))"
  "sign demo_pki demo_manager (Some 2) (1061 * demo_day) (demo_request 2) 3 = Inr ([2], demo_device_leaf 2 (1061 * demo_day))"
proof -
  have "demo_template 2 (1061 * demo_day) \<noteq> demo_template 1 (1000 * demo_day)" by (simp add: demo_template_def)
  then show
    "sign demo_pki demo_manager (Some 1) (1000 * demo_day) (demo_request 1) 3 = Inr ([1], demo_device_leaf 1 (1000 * demo_day))"
    "sign demo_pki demo_manager (Some 2) (1061 * demo_day) (demo_request 2) 3 = Inr ([2], demo_device_leaf 2 (1061 * demo_day))"
    unfolding sign_def IssueDevice_def issueLeaf_def demo_manager_simps
    by (simp_all only: demo_template_eq) (simp_all add: demo_pki_def)
qed

lemma demo_entryFor:
  "entryFor (pki_ledger demo_pki) (demo_device_leaf n t) [200] src u = Some ((demo_cert_entry n t src)\<lparr>e_IssuedAt := u\<rparr>)"
  by (simp add: entryFor_def demo_pki_def demo_device_leaf_def demo_cert_entry_def)

lemma demo_request_parses: "ParseDeviceRequest demo_pki [50 + n] = Inr (demo_request n)"
  by (simp add: ParseDeviceRequest_def demo_pki_def)

lemma demo_hash: "IssuerHash demo_pki demo_manager = [200]"
  by (simp add: IssuerHash_def demo_pki_def demo_issuer_def)

lemma demo_Claim:
  "Claim (pki_ledger demo_pki) False (\<lambda>d. d = 5) (demo_device_leaf 1 (1000 * demo_day)) [200] (1000 * demo_day)
     (new_Ledger []) = (Inr (Some (demo_cert_entry 1 (1000 * demo_day) SourceEnroll)), demo_enrolled)"
proof -
  let ?e = "demo_cert_entry 1 (1000 * demo_day) SourceEnroll"
  have e: "?e\<lparr>e_IssuedAt := 1000 * demo_day\<rparr> = ?e" by (simp add: demo_cert_entry_def)
  show ?thesis
    unfolding Claim_def demo_entryFor e option.case
    by (simp add: demo_enrolled_def case_prod_unfold new_Ledger_def has_row_def)
      (simp add: demo_cert_entry_def ledger_index_def insert_row_def)
qed

lemma demo_Enroll:
  "Enroll demo_pki demo_manager (\<lambda>d. d = 5) (\<lambda>i. demo_attempt 1 (1000 * demo_day)) [50 + 1] (new_Ledger []) =
     (Inr (3, [1]), demo_enrolled)"
proof -
  note demo_Claim
  moreover have "map (\<lambda>i. t) [0..<numberAttempts] = t # map (\<lambda>i. t) [1..<numberAttempts]" for t :: attempt
    by (simp add: numberAttempts_def upt_rec [of 0])
  moreover have "\<not> HasDevice (new_Ledger []) d" for d by (simp add: HasDevice_def device_addrs_def new_Ledger_def)
  moreover have "at_number (demo_attempt 1 (1000 * demo_day)) = 3" "at_serial (demo_attempt 1 (1000 * demo_day)) = Some 1"
    "at_signed (demo_attempt 1 (1000 * demo_day)) = 1000 * demo_day" "\<not> at_refused (demo_attempt 1 (1000 * demo_day))"
    "at_recorded (demo_attempt 1 (1000 * demo_day)) = 1000 * demo_day" by (simp_all add: demo_attempt_def)
  ultimately show ?thesis
    by (simp only: Enroll_def demo_request_parses sum.case enroll_loop.simps if_False demo_sign demo_hash prod.case option.case)
qed

lemma demo_new_reachable: "reachable ledger_start (ledger_step lops) (new_Ledger [])"
proof (rule reachable_start)
  show "ledger_start (new_Ledger [])"
    unfolding ledger_start_def by (rule exI [of _ "[]"], rule exI [of _ None]) (simp add: Warm_def new_Ledger_def)
qed

theorem enrolled_machine_is_admitted_witness:
  "\<exists>leaf a. pki_parse demo_pki [1] = Some leaf \<and>
     admit demo_pki demo_manager (1000 * demo_day) (Some demo_enrolled) [leaf] = a \<and> ad_refusal a = '''' \<and>
     map_option cl_DeviceID (ad_class a) = Some 3"
proof -
  have "Lookup (new_Ledger []) (op_sha256 (pki_ledger demo_pki) [1]) = None" by (simp add: wf_new)
  moreover have "\<forall>i::nat. x_NotBefore (m_issuer demo_manager) + time_second \<le> at_signed (demo_attempt 1 (1000 * demo_day))"
    by (simp add: demo_issuer_def demo_attempt_def)
  ultimately obtain leaf where p: "pki_parse demo_pki [1] = Some leaf"
    and "\<forall>now. x_NotBefore leaf \<le> now \<and> now \<le> x_NotAfter leaf \<longrightarrow>
       (\<exists>a. admit demo_pki demo_manager now (Some demo_enrolled) [leaf] = a \<and> ad_refusal a = '''' \<and> \<not> restricted a \<and>
            map_option cl_DeviceID (ad_class a) = Some 3)"
    using enrolled_machine_is_admitted [OF demo_new_reachable demo_manager_def demo_documented demo_Enroll] by blast
  moreover have "leaf = demo_device_leaf 1 (1000 * demo_day)" using p by (simp add: demo_pki_def)
  ultimately show ?thesis by (auto simp: demo_device_leaf_def)
qed

definition demo_conn :: renewal_conn where
  "demo_conn = \<lparr>rc_DeviceID = 3, rc_renewal = True, rc_certFP = [1], rc_leaf = Some (demo_device_leaf 1 (1000 * demo_day)),
     rc_authority = authority demo_pki demo_issuer RoleIssuer, rc_askedAt = 1061 * demo_day, rc_issued = None, rc_out = []\<rparr>"

definition demo_conn_renewed :: renewal_conn where
  "demo_conn_renewed = demo_conn\<lparr>rc_certFP := [2], rc_leaf := Some (demo_device_leaf 2 (1061 * demo_day)), rc_askedAt := 0,
     rc_out := [CertificateIssued [2] (m_bundlePEM demo_manager)]\<rparr>"

lemma demo_due: "renewalReason demo_manager (1061 * demo_day) (1061 * demo_day) demo_conn = Some reasonDue"
  by (simp add: renewalReason_def demo_conn_def authority_def demo_device_leaf_def Let_def time_Sub_def wrap64_small
      go_quot_nonneg NextLeafEnd_min leafValidity_def demo_issuer_def)


definition demo_renewals :: renewals where
  "demo_renewals = \<lparr>rn_ledger = snd (MarkSeen [1] demo_enrolled), rn_inFlight = []\<rparr>"

definition demo_env :: renewal_env where
  "demo_env = \<lparr>re_deleted = (\<lambda>d. False), re_known = (\<lambda>d. d = 3), re_countFails = False, re_oldestFails = False\<rparr>"

definition demo_ledger_of :: "bool \<Rightarrow> Ledger" where
  "demo_ledger_of seen =
     \<lparr>l_heap = [(demo_cert_entry 1 (1000 * demo_day) SourceEnroll)\<lparr>e_Seen := seen\<rparr>], l_byPrint = [([1], 0)],
      l_byDevice = [(3, [0])],
      l_table = [\<lparr>row_entry = demo_cert_entry 1 (1000 * demo_day) SourceEnroll, row_firstSeenAt = None\<rparr>]\<rparr>"

lemma demo_ledgers: "demo_enrolled = demo_ledger_of False" "rn_ledger demo_renewals = demo_ledger_of True"
proof -
  show 1: "demo_enrolled = demo_ledger_of False"
    by (simp add: demo_enrolled_def demo_ledger_of_def demo_cert_entry_def ledger_index_def indexLocked_def insert_row_def
        new_Ledger_def device_addrs_def gomap_put_def gomap_del_def stored_entry_def demo_pki_def Let_def)
  show "rn_ledger demo_renewals = demo_ledger_of True"
    by (simp add: demo_renewals_def 1) (simp add: demo_ledger_of_def MarkSeen_def see_def demo_cert_entry_def Let_def)
qed

lemma demo_checks:
  "renew_checks demo_pki demo_env (1061 * demo_day) [50 + 2] (rn_ledger demo_renewals) demo_conn =
     (Inr (demo_request 2), demo_conn\<lparr>rc_askedAt := 0\<rparr>)"
proof -
  have "takeOffer (1061 * demo_day) demo_conn = (True, demo_conn\<lparr>rc_askedAt := 0\<rparr>)"
    by (simp add: takeOffer_def demo_conn_def time_Sub_def renewalAnswerWait_def)
  moreover have "requestMismatch demo_pki (rn_ledger demo_renewals) (demo_request 2) (demo_conn\<lparr>rc_askedAt := 0\<rparr>) = ''''"
    by (simp add: requestMismatch_def demo_conn_def demo_pki_def demo_ledgers)
      (simp add: demo_ledger_of_def Superseded_def supersededLocked_def device_addrs_def demo_cert_entry_def
        later_def demo_device_leaf_def)
  moreover have "fst (deviceRefusal demo_env (rn_ledger demo_renewals) 3 (1061 * demo_day)) = ''''"
    by (simp add: deviceRefusal_def demo_env_def demo_ledgers RenewalsSince_def demo_ledger_of_def demo_cert_entry_def
        renewalsPerDay_def)
  moreover have "rc_DeviceID (demo_conn\<lparr>rc_askedAt := 0\<rparr>) = 3" by (simp add: demo_conn_def)
  ultimately show ?thesis
    unfolding renew_checks_def demo_request_parses by (simp add: maxCSRBytes_def)
qed

lemma demo_enrolled_reachable: "reachable ledger_start (ledger_step (pki_ledger demo_pki)) demo_enrolled"
proof -
  have "ledger_step (pki_ledger demo_pki) (new_Ledger []) (snd (Claim (pki_ledger demo_pki) False (\<lambda>d. d = 5)
      (demo_device_leaf 1 (1000 * demo_day)) [200] (1000 * demo_day) (new_Ledger [])))" by (rule step_claim)
  then have "ledger_step (pki_ledger demo_pki) (new_Ledger []) demo_enrolled" unfolding demo_Claim snd_conv .
  then show ?thesis by (rule reachable_step [OF demo_new_reachable])
qed

lemma demo_renewals_reachable: "reachable ledger_start (ledger_step (pki_ledger demo_pki)) (rn_ledger demo_renewals)"
  unfolding demo_renewals_def renewals.simps by (rule reachable_step [OF demo_enrolled_reachable step_seen])

lemma demo_request_handled:
  "handleCertificateRequest demo_pki demo_manager demo_env (1061 * demo_day) (demo_attempt 2 (1061 * demo_day)) True [50 + 2]
     (demo_conn, demo_renewals) =
   (True, (demo_conn\<lparr>rc_askedAt := 0, rc_issued := Some ([2], demo_device_leaf 2 (1061 * demo_day)),
             rc_out := [CertificateIssued [2] (m_bundlePEM demo_manager)]\<rparr>,
           demo_renewals\<lparr>rn_ledger := snd (Record (pki_ledger demo_pki) False (demo_device_leaf 2 (1061 * demo_day)) [200]
             SourceRenew (1061 * demo_day) (rn_ledger demo_renewals))\<rparr>))"
proof -
  let ?rec = "Record (pki_ledger demo_pki) False (demo_device_leaf 2 (1061 * demo_day)) [200] SourceRenew (1061 * demo_day)"
  have at: "at_serial (demo_attempt 2 (1061 * demo_day)) = Some 2" "at_signed (demo_attempt 2 (1061 * demo_day)) = 1061 * demo_day"
    "at_recorded (demo_attempt 2 (1061 * demo_day)) = 1061 * demo_day" "at_refused (demo_attempt 2 (1061 * demo_day)) = False"
    by (simp_all add: demo_attempt_def)
  have p: "pki_parse demo_pki [2] = Some (demo_device_leaf 2 (1061 * demo_day))"
    "op_sha256 (pki_ledger demo_pki) [2] = [2]" by (simp_all add: demo_pki_def)
  have ne: "fst (?rec s) \<noteq> None" for s
    unfolding Record_def demo_entryFor option.case by (simp add: case_prod_unfold)
  have "(case ?rec s of (None, s') \<Rightarrow> (Inl LedgerFailed, s') | (Some _, s') \<Rightarrow> (Inr [2], s')) = (Inr [2], snd (?rec s))"
    for s
  proof (cases "?rec s")
    case (Pair a b)
    then show ?thesis using ne [of s] by (cases a) simp_all
  qed
  then have "Issue demo_pki demo_manager (demo_attempt 2 (1061 * demo_day)) (demo_request 2) 3 SourceRenew (rn_ledger demo_renewals) =
      (Inr [2], snd (?rec (rn_ledger demo_renewals)))"
    unfolding Issue_def at demo_sign demo_hash sum.case prod.case .
  then have "renew_issue demo_pki demo_manager (demo_attempt 2 (1061 * demo_day)) (demo_request 2) 3 demo_renewals =
      (Inr ([2], demo_device_leaf 2 (1061 * demo_day)), demo_renewals\<lparr>rn_ledger := snd (?rec (rn_ledger demo_renewals))\<rparr>)"
    using p by (simp add: renew_issue_def renew_enter_def renew_leave_def demo_renewals_def)
  moreover have "rc_DeviceID (demo_conn\<lparr>rc_askedAt := 0\<rparr>) = 3" "rc_renewal demo_conn" by (simp_all add: demo_conn_def)
  ultimately show ?thesis
    unfolding handleCertificateRequest_def renewFor_def fst_conv snd_conv demo_checks
    by (simp add: p rc_send_def) (simp add: demo_conn_def)
qed



section \<open>The daily allowance\<close>

lemma ledger_index_table: "l_table (snd (ledger_index e s)) = l_table s"
  by (simp add: ledger_index_def indexLocked_def Let_def split: option.split)

lemma Record_table:
  assumes "entryFor ops leaf h src t = Some e" "Record ops refused leaf h src t s = (Some x, s')"
  shows "l_table s' = (if has_row s (e_Fingerprint e) then l_table s
                       else l_table s @ [\<lparr>row_entry = stored_entry ops e, row_firstSeenAt = None\<rparr>])"
proof -
  have "\<not> refused" using assms by (auto simp: Record_def)
  then have "s' = snd (ledger_index e (if has_row s (e_Fingerprint e) then s else insert_row ops e s))"
    using assms by (auto simp: Record_def case_prod_unfold)
  then show ?thesis by (simp add: ledger_index_table insert_row_def)
qed

lemma RenewalsSince_Record:
  assumes "Record ops refused leaf h SourceRenew t s = (Some x, s')"
  shows "RenewalsSince s' d since \<le> Suc (RenewalsSince s d since)"
proof -
  obtain e where e: "entryFor ops leaf h SourceRenew t = Some e"
    using assms by (cases "entryFor ops leaf h SourceRenew t") (auto simp: Record_def)
  show ?thesis unfolding RenewalsSince_def Record_table [OF e assms] by simp
qed

text \<open>Run one after another, the checks and the issuance keep to the allowance.\<close>

lemma renewFor_within_allowance:
  assumes "renewFor ops m env now t csrDER (c, r) = (Inr (der, leaf), (c', r'))"
  shows "RenewalsSince (rn_ledger r') (rc_DeviceID c) (now - renewalWindow) \<le> renewalsPerDay"
proof -
  obtain csr where ch: "renew_checks ops env now csrDER (rn_ledger r) c = (Inr csr, c')"
    and i: "renew_issue ops m t csr (rc_DeviceID c') r = (Inr (der, leaf), r')"
    using assms by (auto simp: renewFor_def split: prod.splits sum.splits)
  note ok = renew_checks_passed [OF ch]
  from renew_issue_issued [OF i] obtain e where
    "Record (pki_ledger ops) (at_refused t) leaf (IssuerHash ops m) SourceRenew (at_recorded t) (rn_ledger r) = (Some e, rn_ledger r')"
    by metis
  from RenewalsSince_Record [OF this] ok(6) show ?thesis
    by (metis Suc_leI le_trans not_less_eq_eq)
qed

text \<open>
  Two connections of one device on a day that has seen two renewals. A certificate is known by its
  serial number here.
\<close>

definition burst_pki :: pki_ops where
  "burst_pki = demo_pki\<lparr>pki_create := (\<lambda>t iss pub key. Some [word_of_nat (ct_Serial t)]),
     pki_parse := (\<lambda>der. Some (demo_device_leaf (hd der) (1061 * demo_day)))\<rparr>"

definition burst_renewals :: renewals where
  "burst_renewals =
     \<lparr>rn_ledger =
        \<lparr>l_heap = [(demo_cert_entry 1 (1000 * demo_day) SourceEnroll)\<lparr>e_Seen := True\<rparr>,
                   demo_cert_entry 11 (1061 * demo_day) SourceRenew, demo_cert_entry 12 (1061 * demo_day) SourceRenew],
         l_byPrint = [([12], 2), ([11], 1), ([1], 0)], l_byDevice = [(3, [0, 1, 2])],
         l_table = [\<lparr>row_entry = demo_cert_entry 1 (1000 * demo_day) SourceEnroll, row_firstSeenAt = None\<rparr>,
                    \<lparr>row_entry = demo_cert_entry 11 (1061 * demo_day) SourceRenew, row_firstSeenAt = None\<rparr>,
                    \<lparr>row_entry = demo_cert_entry 12 (1061 * demo_day) SourceRenew, row_firstSeenAt = None\<rparr>]\<rparr>,
      rn_inFlight = []\<rparr>"

lemma burst_record:
  "Record (pki_ledger demo_pki) False (demo_device_leaf 11 (1061 * demo_day)) [200] SourceRenew (1061 * demo_day)
     (demo_ledger_of True) =
   (Some (demo_cert_entry 11 (1061 * demo_day) SourceRenew),
    \<lparr>l_heap = [(demo_cert_entry 1 (1000 * demo_day) SourceEnroll)\<lparr>e_Seen := True\<rparr>, demo_cert_entry 11 (1061 * demo_day) SourceRenew],
     l_byPrint = [([11], 1), ([1], 0)], l_byDevice = [(3, [0, 1])],
     l_table = [\<lparr>row_entry = demo_cert_entry 1 (1000 * demo_day) SourceEnroll, row_firstSeenAt = None\<rparr>,
                \<lparr>row_entry = demo_cert_entry 11 (1061 * demo_day) SourceRenew, row_firstSeenAt = None\<rparr>]\<rparr>)"
  unfolding Record_def demo_entryFor option.case
  by (simp add: demo_cert_entry_def demo_pki_def demo_ledger_of_def has_row_def insert_row_def stored_entry_def ledger_index_def
      indexLocked_def Let_def device_addrs_def gomap_put_def gomap_del_def)

lemma burst_reachable: "reachable ledger_start (ledger_step (pki_ledger demo_pki)) (rn_ledger burst_renewals)"
proof -
  let ?s1 = "snd (Record (pki_ledger demo_pki) False (demo_device_leaf 11 (1061 * demo_day)) [200] SourceRenew (1061 * demo_day)
     (demo_ledger_of True))"
  have "reachable ledger_start (ledger_step (pki_ledger demo_pki)) (demo_ledger_of True)"
    using demo_renewals_reachable unfolding demo_ledgers .
  then have "reachable ledger_start (ledger_step (pki_ledger demo_pki)) ?s1" by (rule reachable_step) (rule step_record)
  then have "reachable ledger_start (ledger_step (pki_ledger demo_pki))
      (snd (Record (pki_ledger demo_pki) False (demo_device_leaf 12 (1061 * demo_day)) [200] SourceRenew (1061 * demo_day) ?s1))"
    by (rule reachable_step) (rule step_record)
  moreover have "snd (Record (pki_ledger demo_pki) False (demo_device_leaf 12 (1061 * demo_day)) [200] SourceRenew (1061 * demo_day) ?s1) =
      rn_ledger burst_renewals"
    unfolding burst_record snd_conv unfolding Record_def demo_entryFor option.case
    by (simp add: demo_cert_entry_def demo_pki_def burst_renewals_def has_row_def insert_row_def stored_entry_def ledger_index_def
        indexLocked_def Let_def device_addrs_def gomap_put_def gomap_del_def)
  ultimately show ?thesis by simp
qed

lemma burst_ledger_ops: "pki_ledger burst_pki = pki_ledger demo_pki"
  by (simp add: burst_pki_def)

lemma burst_checks:
  assumes "n = 2 \<or> n = 3"
  shows "renew_checks burst_pki demo_env (1061 * demo_day) [50 + n] (rn_ledger burst_renewals) demo_conn =
     (Inr (demo_request n), demo_conn\<lparr>rc_askedAt := 0\<rparr>)"
proof -
  have "takeOffer (1061 * demo_day) demo_conn = (True, demo_conn\<lparr>rc_askedAt := 0\<rparr>)"
    by (simp add: takeOffer_def demo_conn_def time_Sub_def renewalAnswerWait_def)
  moreover have "ParseDeviceRequest burst_pki [50 + n] = Inr (demo_request n)"
    by (simp add: ParseDeviceRequest_def burst_pki_def demo_pki_def)
  moreover have "requestMismatch burst_pki (rn_ledger burst_renewals) (demo_request n) (demo_conn\<lparr>rc_askedAt := 0\<rparr>) = ''''"
    using assms unfolding requestMismatch_def burst_ledger_ops
    by (auto simp: demo_conn_def demo_pki_def burst_renewals_def Superseded_def supersededLocked_def device_addrs_def
        demo_cert_entry_def later_def demo_device_leaf_def)
  moreover have "fst (deviceRefusal demo_env (rn_ledger burst_renewals) 3 (1061 * demo_day)) = ''''"
    by (simp add: deviceRefusal_def demo_env_def burst_renewals_def RenewalsSince_def demo_cert_entry_def renewalsPerDay_def
        renewalWindow_def)
  moreover have "rc_DeviceID (demo_conn\<lparr>rc_askedAt := 0\<rparr>) = 3" by (simp add: demo_conn_def)
  ultimately show ?thesis unfolding renew_checks_def by (simp add: maxCSRBytes_def)
qed

lemma burst_issue:
  assumes "rn_inFlight r = []" "at_serial t = Some k" "at_signed t = 1061 * demo_day" "at_recorded t = 1061 * demo_day" "\<not> at_refused t"
    and "\<not> has_row (rn_ledger r) [word_of_nat k]"
  obtains r' x where "renew_issue burst_pki demo_manager t csr 3 r = (Inr x, r')" "rn_inFlight r' = []"
    "l_table (rn_ledger r') = l_table (rn_ledger r) @
       [\<lparr>row_entry = demo_cert_entry (word_of_nat k) (1061 * demo_day) SourceRenew, row_firstSeenAt = None\<rparr>]"
proof -
  let ?leaf = "demo_device_leaf (word_of_nat k) (1061 * demo_day)" and ?e = "demo_cert_entry (word_of_nat k) (1061 * demo_day) SourceRenew"
  have tmpl: "leafTemplate (Some k) demo_issuer (1061 * demo_day) (pki_uuid_string burst_pki 3) [DigitalSignature] ClientAuth =
      Inr (demo_template k (1061 * demo_day))"
    using demo_template_eq [of "Some k" k "1061 * demo_day"] by (simp add: burst_pki_def)
  have sg: "sign burst_pki demo_manager (at_serial t) (at_signed t) csr 3 = Inr ([word_of_nat k], ?leaf)"
    unfolding sign_def IssueDevice_def issueLeaf_def demo_manager_simps assms tmpl sum.case
    by (simp add: burst_pki_def demo_template_def)
  have h: "IssuerHash burst_pki demo_manager = [200]" using demo_hash by (simp add: IssuerHash_def burst_pki_def)
  have e: "?e\<lparr>e_IssuedAt := 1061 * demo_day\<rparr> = ?e" by (simp add: demo_cert_entry_def)
  have st: "stored_entry (pki_ledger demo_pki) ?e = ?e" "e_Fingerprint ?e = [word_of_nat k]"
    by (simp_all add: stored_entry_def demo_pki_def demo_cert_entry_def)
  let ?rec = "Record (pki_ledger demo_pki) False ?leaf [200] SourceRenew (1061 * demo_day) (rn_ledger r)"
  obtain x s' where rec: "?rec = (Some x, s')"
    unfolding Record_def demo_entryFor option.case by (simp add: case_prod_unfold)
  have tab: "l_table s' = l_table (rn_ledger r) @ [\<lparr>row_entry = ?e, row_firstSeenAt = None\<rparr>]"
    using Record_table [OF demo_entryFor rec] assms(6) unfolding e st by simp
  have "Issue burst_pki demo_manager t csr 3 SourceRenew (rn_ledger r) = (Inr [word_of_nat k], s')"
    using rec assms(4,5) unfolding Issue_def sg h burst_ledger_ops by simp
  then have "renew_issue burst_pki demo_manager t csr 3 r =
      (Inr ([word_of_nat k], the (pki_parse burst_pki [word_of_nat k])), r\<lparr>rn_ledger := s'\<rparr>)"
    using assms(1) by (simp add: renew_issue_def renew_enter_def renew_leave_def burst_pki_def)
  then show ?thesis using that [of _ "r\<lparr>rn_ledger := s'\<rparr>"] assms(1) tab by simp
qed

text \<open>
  C31. The allowance does not hold across connections: it is read before the in-flight guard is taken,
  so two connections of a device that both pass the check are both served, one after the other, and
  the device gets a fourth certificate within a day.
\<close>

theorem daily_allowance_can_be_exceeded:
  "\<exists>ops m env now csr1 csr2 c1 c2 q1 q2 c1' c2' t1 t2 r r1 r2 x1 x2.
     reachable ledger_start (ledger_step (pki_ledger ops)) (rn_ledger r) \<and> rc_DeviceID c1 = rc_DeviceID c2 \<and>
     renew_checks ops env now csr1 (rn_ledger r) c1 = (Inr q1, c1') \<and>
     renew_checks ops env now csr2 (rn_ledger r) c2 = (Inr q2, c2') \<and>
     renew_issue ops m t1 q1 (rc_DeviceID c1) r = (Inr x1, r1) \<and>
     renew_issue ops m t2 q2 (rc_DeviceID c2) r1 = (Inr x2, r2) \<and>
     RenewalsSince (rn_ledger r2) (rc_DeviceID c1) (now - renewalWindow) > renewalsPerDay"
proof -
  have at: "at_serial (demo_attempt k (1061 * demo_day)) = Some k" "at_signed (demo_attempt k (1061 * demo_day)) = 1061 * demo_day"
    "at_recorded (demo_attempt k (1061 * demo_day)) = 1061 * demo_day" "\<not> at_refused (demo_attempt k (1061 * demo_day))" for k
    by (simp_all add: demo_attempt_def)
  have "\<not> has_row (rn_ledger burst_renewals) [word_of_nat 13]" "rn_inFlight burst_renewals = []"
    by (simp_all add: has_row_def burst_renewals_def demo_cert_entry_def)
  from burst_issue [OF this(2) at this(1)] obtain x1 r1 where
    r1: "renew_issue burst_pki demo_manager (demo_attempt 13 (1061 * demo_day)) (demo_request 2) 3 burst_renewals = (Inr x1, r1)"
    "rn_inFlight r1 = []" "l_table (rn_ledger r1) = l_table (rn_ledger burst_renewals) @
       [\<lparr>row_entry = demo_cert_entry (word_of_nat 13) (1061 * demo_day) SourceRenew, row_firstSeenAt = None\<rparr>]" by metis
  have "\<not> has_row (rn_ledger r1) [word_of_nat 14]"
    by (simp add: has_row_def r1(3) burst_renewals_def demo_cert_entry_def)
  from burst_issue [OF r1(2) at this] obtain x2 r2 where
    r2: "renew_issue burst_pki demo_manager (demo_attempt 14 (1061 * demo_day)) (demo_request 3) 3 r1 = (Inr x2, r2)"
    "l_table (rn_ledger r2) = l_table (rn_ledger r1) @
       [\<lparr>row_entry = demo_cert_entry (word_of_nat 14) (1061 * demo_day) SourceRenew, row_firstSeenAt = None\<rparr>]" by metis
  have "RenewalsSince (rn_ledger r2) 3 (1061 * demo_day - renewalWindow) > renewalsPerDay"
    by (simp add: RenewalsSince_def r2(2) r1(3) burst_renewals_def demo_cert_entry_def renewalWindow_def renewalsPerDay_def)
  moreover have "rc_DeviceID demo_conn = 3" by (simp add: demo_conn_def)
  ultimately show ?thesis
    using burst_reachable burst_checks [of 2] burst_checks [of 3] r1(1) r2(1) unfolding burst_ledger_ops [symmetric] by metis
qed

end
