(* ===== verification/Backfill_Scheduler.thy ===== *)
theory Backfill_Scheduler
  imports OG_Prelude
begin

text \<open>
  Admission control for reconnect backfill, \<open>server/internal/agentapi/backfill_scheduler.go\<close>: grants
  under a global and a per-tenant cap that expire, a rate from a load-adaptive budget, and a backoff
  for the agents that are deferred. The headroom signal is a rational number in place of a \<open>float64\<close>.
\<close>

section \<open>State\<close>

record BackfillSchedulerConfig =
  MaxConcurrent :: int
  PerTenantMax :: int
  BaseBudgetSamplesPerSec :: int
  MinGrantRate :: "32 word"
  MaxGrantRate :: "32 word"
  GrantTTL :: duration
  DeferBackoff :: duration

record backfillGrant =
  bg_tenant :: uuid
  bg_deadline :: instant

record BackfillScheduler =
  bs_grants :: "(uuid, backfillGrant) gomap"
  bs_tenantCount :: "(uuid, int) gomap"
  bs_firstReq :: "(uuid, instant) gomap"

record BackfillDecision =
  bd_Grant :: bool
  bd_Rate :: "32 word"
  bd_Deadline :: int
  bd_RetryAfter :: "32 word"

definition minRetryAfter :: duration where "minRetryAfter = time_second"

definition DefaultBackfillSchedulerConfig :: BackfillSchedulerConfig where
  "DefaultBackfillSchedulerConfig =
     \<lparr>MaxConcurrent = 8, PerTenantMax = 4, BaseBudgetSamplesPerSec = 20000, MinGrantRate = 500,
      MaxGrantRate = 5000, GrantTTL = 60 * time_second, DeferBackoff = 30 * time_second\<rparr>"

definition NewBackfillScheduler :: BackfillScheduler where
  "NewBackfillScheduler = \<lparr>bs_grants = [], bs_tenantCount = [], bs_firstReq = []\<rparr>"

definition tenant_count :: "BackfillScheduler \<Rightarrow> uuid \<Rightarrow> int" where
  "tenant_count s t = (case map_of (bs_tenantCount s) t of None \<Rightarrow> 0 | Some n \<Rightarrow> n)"

section \<open>Operations\<close>

definition bs_release :: "uuid \<Rightarrow> BackfillScheduler \<Rightarrow> BackfillScheduler" where
  "bs_release agentID s =
     (case map_of (bs_grants s) agentID of
        None \<Rightarrow> s
      | Some g \<Rightarrow>
          s\<lparr>bs_grants := gomap_del agentID (bs_grants s),
            bs_tenantCount :=
              (if tenant_count s (bg_tenant g) \<le> 1 then gomap_del (bg_tenant g) (bs_tenantCount s)
               else gomap_put (bg_tenant g) (tenant_count s (bg_tenant g) - 1) (bs_tenantCount s))\<rparr>)"

text \<open>Deleting from a map while ranging over it visits the entries that were there at the start.\<close>

definition reap :: "instant \<Rightarrow> BackfillScheduler \<Rightarrow> BackfillScheduler" where
  "reap now s =
     fold (\<lambda>p. if \<not> bg_deadline (snd p) > now then bs_release (fst p) else id) (bs_grants s) s"

text \<open>The conversion of the share to \<open>uint32\<close> drops its fraction.\<close>

definition bs_rate :: "BackfillSchedulerConfig \<Rightarrow> rat \<Rightarrow> 32 word" where
  "bs_rate cfg headroom =
     (let h = min 1 (max 0 headroom);
          slots = max 1 (MaxConcurrent cfg);
          per = rat_of_int (BaseBudgetSamplesPerSec cfg) * h / rat_of_int slots in
      min (max (word_of_int \<lfloor>per\<rfloor>) (MinGrantRate cfg)) (MaxGrantRate cfg))"

definition unix_seconds :: "instant \<Rightarrow> int" where
  "unix_seconds t = t div time_second - 62135596800"

definition bs_grant :: "BackfillSchedulerConfig \<Rightarrow> rat \<Rightarrow> instant \<Rightarrow> BackfillDecision" where
  "bs_grant cfg headroom now =
     \<lparr>bd_Grant = True, bd_Rate = bs_rate cfg headroom, bd_Deadline = unix_seconds (now + GrantTTL cfg),
      bd_RetryAfter = 0\<rparr>"

definition deferSlot ::
  "BackfillSchedulerConfig \<Rightarrow> uuid \<Rightarrow> instant \<Rightarrow> BackfillScheduler \<Rightarrow> BackfillDecision \<times> BackfillScheduler" where
  "deferSlot cfg agentID now s =
     (let (first, s') = (case map_of (bs_firstReq s) agentID of
                           Some t \<Rightarrow> (t, s)
                         | None \<Rightarrow> (now, s\<lparr>bs_firstReq := gomap_put agentID now (bs_firstReq s)\<rparr>));
          retry = max (DeferBackoff cfg - time_Sub now first) minRetryAfter in
      (\<lparr>bd_Grant = False, bd_Rate = 0, bd_Deadline = 0,
        bd_RetryAfter = word_of_int (- ((- retry) div time_second))\<rparr>, s'))"

definition RequestSlot ::
  "BackfillSchedulerConfig \<Rightarrow> rat \<Rightarrow> instant \<Rightarrow> uuid \<Rightarrow> uuid \<Rightarrow> BackfillScheduler \<Rightarrow>
     BackfillDecision \<times> BackfillScheduler" where
  "RequestSlot cfg headroom now agentID tenant s0 =
     (let s = reap now s0 in
      case map_of (bs_grants s) agentID of
        Some g \<Rightarrow>
          (bs_grant cfg headroom now,
           s\<lparr>bs_grants := gomap_put agentID (g\<lparr>bg_deadline := now + GrantTTL cfg\<rparr>) (bs_grants s),
             bs_firstReq := gomap_del agentID (bs_firstReq s)\<rparr>)
      | None \<Rightarrow>
          if int (length (bs_grants s)) \<ge> MaxConcurrent cfg \<or> tenant_count s tenant \<ge> PerTenantMax cfg
          then deferSlot cfg agentID now s
          else (bs_grant cfg headroom now,
                s\<lparr>bs_grants := gomap_put agentID \<lparr>bg_tenant = tenant, bg_deadline = now + GrantTTL cfg\<rparr> (bs_grants s),
                  bs_tenantCount := gomap_put tenant (tenant_count s tenant + 1) (bs_tenantCount s),
                  bs_firstReq := gomap_del agentID (bs_firstReq s)\<rparr>))"

definition Release :: "uuid \<Rightarrow> BackfillScheduler \<Rightarrow> BackfillScheduler" where
  "Release agentID s =
     (let s' = bs_release agentID s in s'\<lparr>bs_firstReq := gomap_del agentID (bs_firstReq s')\<rparr>)"

definition ActiveCount :: "instant \<Rightarrow> BackfillScheduler \<Rightarrow> nat \<times> BackfillScheduler" where
  "ActiveCount now s = (let s' = reap now s in (length (bs_grants s'), s'))"

section \<open>The invariant\<close>

text \<open>
  The counters agree with the grants, the caps hold, and an agent that waits holds no grant.
\<close>

definition granted_to :: "BackfillScheduler \<Rightarrow> uuid \<Rightarrow> nat" where
  "granted_to s t = length (filter (\<lambda>p. bg_tenant (snd p) = t) (bs_grants s))"

definition bs_counts :: "BackfillScheduler \<Rightarrow> bool" where
  "bs_counts s \<longleftrightarrow> gomap_wf (bs_grants s) \<and> (\<forall>t. tenant_count s t = int (granted_to s t))"

definition bs_inv :: "BackfillSchedulerConfig \<Rightarrow> BackfillScheduler \<Rightarrow> bool" where
  "bs_inv cfg s \<longleftrightarrow>
     bs_counts s \<and> int (length (bs_grants s)) \<le> max 0 (MaxConcurrent cfg) \<and>
     (\<forall>t. int (granted_to s t) \<le> max 0 (PerTenantMax cfg)) \<and>
     (\<forall>a. map_of (bs_firstReq s) a \<noteq> None \<longrightarrow> map_of (bs_grants s) a = None)"

lemma gomap_del_none: "map_of m k = None \<Longrightarrow> gomap_del k m = m"
  by (auto simp: gomap_del_def map_of_eq_None_iff image_iff intro!: filter_True)

lemma length_gomap_del:
  "gomap_wf m \<Longrightarrow> map_of m k = Some v \<Longrightarrow> Suc (length (filter P (gomap_del k m))) =
     length (filter P m) + (if P (k, v) then 0 else 1)"
proof (induction m)
  case (Cons e m)
  obtain k' v' where e: "e = (k', v')" by (cases e)
  show ?case
  proof (cases "k' = k")
    case True
    then have "map_of m k = None" using Cons.prems e by (auto simp: gomap_wf_def map_of_eq_None_iff)
    then have "gomap_del k m = m" by (rule gomap_del_none)
    then show ?thesis using True Cons.prems e by (simp add: gomap_del_def)
  next
    case False
    then have "Suc (length (filter P (gomap_del k m))) = length (filter P m) + (if P (k, v) then 0 else 1)"
      using Cons e by (simp add: gomap_wf_def)
    then show ?thesis using False e by (simp add: gomap_del_def split: if_splits)
  qed
qed simp

lemma bs_release_grants [simp]: "bs_grants (bs_release k s) = gomap_del k (bs_grants s)"
  by (simp add: bs_release_def gomap_del_none split: option.split)

lemma bs_release_firstReq [simp]: "bs_firstReq (bs_release k s) = bs_firstReq s"
  by (simp add: bs_release_def split: option.split)

lemma bs_release_counts:
  assumes "bs_counts s" shows "bs_counts (bs_release k s)"
proof (cases "map_of (bs_grants s) k")
  case None
  then show ?thesis using assms by (simp add: bs_release_def)
next
  case (Some g)
  have wf: "gomap_wf (bs_grants s)" and c: "\<And>t. tenant_count s t = int (granted_to s t)"
    using assms by (auto simp: bs_counts_def)
  have del: "Suc (granted_to (bs_release k s) t) = granted_to s t + (if bg_tenant g = t then 0 else 1)" for t
    using length_gomap_del [OF wf Some, of "\<lambda>p. bg_tenant (snd p) = t"] by (simp add: granted_to_def)
  have "tenant_count (bs_release k s) t = (if t = bg_tenant g then tenant_count s t - 1 else tenant_count s t)" for t
  proof -
    have "tenant_count s (bg_tenant g) \<ge> 1" using del [of "bg_tenant g"] by (simp add: c)
    then show ?thesis using Some by (auto simp: bs_release_def tenant_count_def split: option.splits)
  qed
  then have "tenant_count (bs_release k s) t = int (granted_to (bs_release k s) t)" for t
    using del [of t] by (auto simp: c split: if_splits)
  then show ?thesis using wf by (simp add: bs_counts_def)
qed

lemma reap_fold:
  "bs_grants (fold (\<lambda>p. if \<not> bg_deadline (snd p) > now then bs_release (fst p) else id) ps s) =
     filter (\<lambda>p. \<forall>q \<in> set ps. fst q = fst p \<longrightarrow> bg_deadline (snd q) > now) (bs_grants s)"
proof (induction ps arbitrary: s)
  case (Cons q ps)
  have "gomap_del k m = filter (\<lambda>p. k \<noteq> fst p) m" for k and m :: "(uuid, backfillGrant) gomap"
    unfolding gomap_del_def by (rule filter_cong) auto
  then show ?case using Cons by (auto intro!: filter_cong)
qed simp

definition live :: "instant \<Rightarrow> BackfillScheduler \<Rightarrow> (uuid \<times> backfillGrant) list" where
  "live now s = filter (\<lambda>p. bg_deadline (snd p) > now) (bs_grants s)"

lemma reap_grants: "gomap_wf (bs_grants s) \<Longrightarrow> bs_grants (reap now s) = live now s"
proof -
  assume wf: "gomap_wf (bs_grants s)"
  have "(\<forall>q \<in> set (bs_grants s). fst q = fst p \<longrightarrow> bg_deadline (snd q) > now) \<longleftrightarrow> bg_deadline (snd p) > now"
    if "p \<in> set (bs_grants s)" for p
    using wf that unfolding gomap_wf_def by (metis distinct_map inj_onD)
  then show ?thesis unfolding reap_def reap_fold live_def by (intro filter_cong) auto
qed

lemma reap_keeps: "bs_counts s \<Longrightarrow> bs_counts (reap now s) \<and> bs_firstReq (reap now s) = bs_firstReq s"
proof -
  assume "bs_counts s"
  then have "bs_counts (fold (\<lambda>p. if \<not> bg_deadline (snd p) > now then bs_release (fst p) else id) ps s) \<and>
      bs_firstReq (fold (\<lambda>p. if \<not> bg_deadline (snd p) > now then bs_release (fst p) else id) ps s) = bs_firstReq s" for ps
    by (induction ps arbitrary: s) (auto simp: bs_release_counts)
  then show ?thesis by (simp add: reap_def)
qed

lemma length_filter_filter: "length (filter P (filter Q xs)) \<le> length (filter P xs)"
  by (induction xs) auto

lemma granted_reap: "bs_counts s \<Longrightarrow> granted_to (reap now s) t \<le> granted_to s t"
  unfolding granted_to_def bs_counts_def by (simp only: reap_grants live_def length_filter_filter)

lemma live_None: "map_of (bs_grants s) a = None \<Longrightarrow> map_of (live now s) a = None"
  by (auto simp: live_def map_of_eq_None_iff)

lemma reap_inv: assumes "bs_inv cfg s" shows "bs_inv cfg (reap now s)"
proof -
  have c: "bs_counts s" "gomap_wf (bs_grants s)" using assms by (auto simp: bs_inv_def bs_counts_def)
  have "length (bs_grants (reap now s)) \<le> length (bs_grants s)" by (simp add: reap_grants c live_def)
  moreover have "int (granted_to (reap now s) t) \<le> max 0 (PerTenantMax cfg)" for t
    using granted_reap [OF c(1), of now t] assms unfolding bs_inv_def by (meson of_nat_mono order_trans)
  ultimately show ?thesis using assms reap_keeps [OF c(1), of now] live_None
    unfolding bs_inv_def by (auto simp: reap_grants c)
qed

lemma granted_put:
  assumes "map_of (bs_grants s) a = None"
  shows "length (filter (\<lambda>p. bg_tenant (snd p) = t) (gomap_put a g (bs_grants s))) =
     granted_to s t + (if bg_tenant g = t then 1 else 0)" "length (gomap_put a g (bs_grants s)) = Suc (length (bs_grants s))"
  using gomap_del_none [OF assms] by (auto simp: gomap_put_def granted_to_def gomap_del_def)

lemma renew_put:
  assumes "gomap_wf m" "map_of m a = Some g" "bg_tenant g' = bg_tenant g"
  shows "length (filter (\<lambda>p. bg_tenant (snd p) = t) (gomap_put a g' m)) = length (filter (\<lambda>p. bg_tenant (snd p) = t) m)"
    "length (gomap_put a g' m) = length m"
  using length_gomap_del [OF assms(1,2), of "\<lambda>p. bg_tenant (snd p) = t"] length_gomap_del [OF assms(1,2), of "\<lambda>p. True"] assms(3)
  by (auto simp: gomap_put_def gomap_del_def split: if_splits)

lemma RequestSlot_inv: assumes "bs_inv cfg s" shows "bs_inv cfg (snd (RequestSlot cfg h now a t s))"
proof -
  define s1 where "s1 = reap now s"
  have inv: "bs_inv cfg s1" using reap_inv [OF assms] by (simp add: s1_def)
  then have wf: "gomap_wf (bs_grants s1)" and c: "\<And>t. tenant_count s1 t = int (granted_to s1 t)"
    by (auto simp: bs_inv_def bs_counts_def)
  show ?thesis
  proof (cases "map_of (bs_grants s1) a")
    case (Some g)
    let ?s = "s1\<lparr>bs_grants := gomap_put a (g\<lparr>bg_deadline := now + GrantTTL cfg\<rparr>) (bs_grants s1),
      bs_firstReq := gomap_del a (bs_firstReq s1)\<rparr>"
    have "granted_to ?s x = granted_to s1 x" for x
      using renew_put(1) [OF wf Some] by (simp add: granted_to_def)
    moreover have "tenant_count ?s x = tenant_count s1 x" for x by (simp add: tenant_count_def)
    moreover have "length (bs_grants ?s) = length (bs_grants s1)" using renew_put(2) [OF wf Some] by simp
    ultimately have "bs_inv cfg ?s" using inv unfolding bs_inv_def bs_counts_def by auto
    then show ?thesis using Some by (simp add: RequestSlot_def Let_def s1_def [symmetric])
  next
    case None
    show ?thesis
    proof (cases "int (length (bs_grants s1)) \<ge> MaxConcurrent cfg \<or> tenant_count s1 t \<ge> PerTenantMax cfg")
      case True
      have "bs_inv cfg (s1\<lparr>bs_firstReq := gomap_put a now (bs_firstReq s1)\<rparr>)"
        using inv None by (auto simp: bs_inv_def bs_counts_def granted_to_def tenant_count_def)
      then show ?thesis using inv None True
        by (auto simp: RequestSlot_def Let_def s1_def [symmetric] deferSlot_def split: option.split)
    next
      case False
      let ?g = "\<lparr>bg_tenant = t, bg_deadline = now + GrantTTL cfg\<rparr>"
      let ?s = "s1\<lparr>bs_grants := gomap_put a ?g (bs_grants s1), bs_tenantCount := gomap_put t (tenant_count s1 t + 1) (bs_tenantCount s1),
        bs_firstReq := gomap_del a (bs_firstReq s1)\<rparr>"
      have "granted_to ?s x = granted_to s1 x + (if t = x then 1 else 0)" for x
        using granted_put(1) [OF None, of x ?g] by (simp add: granted_to_def)
      moreover have "tenant_count ?s x = (if x = t then tenant_count s1 t + 1 else tenant_count s1 x)" for x
        by (simp add: tenant_count_def)
      moreover have "length (bs_grants ?s) = Suc (length (bs_grants s1))" using granted_put(2) [OF None] by simp
      ultimately have "bs_inv cfg ?s" using inv False c [of t] unfolding bs_inv_def bs_counts_def by auto
      then show ?thesis using None False by (simp add: RequestSlot_def Let_def s1_def [symmetric])
    qed
  qed
qed

lemma Release_inv: assumes "bs_inv cfg s" shows "bs_inv cfg (Release a s)"
proof -
  let ?s = "bs_release a s"
  have c: "bs_counts ?s" using assms by (simp add: bs_inv_def bs_release_counts)
  have "granted_to ?s t \<le> granted_to s t" "length (bs_grants ?s) \<le> length (bs_grants s)" for t
    unfolding granted_to_def bs_release_grants gomap_del_def by (rule length_filter_filter length_filter_le)+
  then have "bs_inv cfg ?s" using assms c unfolding bs_inv_def
    by (auto intro: order_trans [OF of_nat_mono])
  then show ?thesis by (auto simp: Release_def Let_def bs_inv_def bs_counts_def granted_to_def tenant_count_def)
qed

section \<open>Every schedule\<close>

text \<open>Requests, releases and counts in any order, at any clock and headroom.\<close>

inductive bs_step :: "BackfillSchedulerConfig \<Rightarrow> BackfillScheduler \<Rightarrow> BackfillScheduler \<Rightarrow> bool" for cfg where
  bs_request: "bs_step cfg s (snd (RequestSlot cfg headroom now agentID tenant s))"
| bs_freed: "bs_step cfg s (Release agentID s)"
| bs_counted: "bs_step cfg s (snd (ActiveCount now s))"

lemma bs_inv_new: "bs_inv cfg NewBackfillScheduler"
  by (simp add: NewBackfillScheduler_def bs_inv_def bs_counts_def granted_to_def tenant_count_def)

lemma bs_step_inv: "bs_step cfg s s' \<Longrightarrow> bs_inv cfg s \<Longrightarrow> bs_inv cfg s'"
  by (cases rule: bs_step.cases) (auto simp: ActiveCount_def Let_def intro: RequestSlot_inv Release_inv reap_inv)

interpretation schedules: step_invariant "\<lambda>s. s = NewBackfillScheduler" "bs_step cfg" "bs_inv cfg"
  by unfold_locales (auto intro: bs_inv_new bs_step_inv)

section \<open>Properties\<close>

text \<open>
  C32. A slot request is decided by the live grants alone: it is granted exactly when the agent holds one,
  or both its tenant and the server have room for one more, counting no grant whose deadline has
  passed. The agent holds a grant afterwards exactly when it was granted one, and the caps hold.
\<close>

theorem RequestSlot_decides:
  assumes "reachable (\<lambda>s. s = NewBackfillScheduler) (bs_step cfg) s"
    and "RequestSlot cfg headroom now agentID tenant s = (d, s')"
  shows "(bd_Grant d \<longleftrightarrow>
            (\<exists>g. (agentID, g) \<in> set (live now s)) \<or>
            int (length (live now s)) < MaxConcurrent cfg \<and>
            int (length (filter (\<lambda>p. bg_tenant (snd p) = tenant) (live now s))) < PerTenantMax cfg) \<and>
         (bd_Grant d \<longleftrightarrow> map_of (bs_grants s') agentID \<noteq> None) \<and>
         int (length (bs_grants s')) \<le> max 0 (MaxConcurrent cfg) \<and>
         (\<forall>t. int (granted_to s' t) \<le> max 0 (PerTenantMax cfg))"
proof -
  have inv: "bs_inv cfg s" using assms(1) by (rule schedules.holds)
  then have wf: "gomap_wf (bs_grants s)" and c: "bs_counts s" by (auto simp: bs_inv_def bs_counts_def)
  have g: "bs_grants (reap now s) = live now s" by (rule reap_grants [OF wf])
  have tc: "tenant_count (reap now s) tenant = int (length (filter (\<lambda>p. bg_tenant (snd p) = tenant) (live now s)))"
    using reap_keeps [OF c, of now] by (simp add: bs_counts_def granted_to_def g)
  have "gomap_wf (live now s)" using wf by (simp add: live_def gomap_wf_def distinct_map_filter)
  then have mem: "(\<exists>g. (agentID, g) \<in> set (live now s)) \<longleftrightarrow> map_of (live now s) agentID \<noteq> None"
    by (auto simp: gomap_mem_map_of)
  have "bs_inv cfg s'" using RequestSlot_inv [OF inv] assms(2) by (metis snd_conv)
  moreover have "(bd_Grant d \<longleftrightarrow> map_of (live now s) agentID \<noteq> None \<or>
      int (length (live now s)) < MaxConcurrent cfg \<and>
      int (length (filter (\<lambda>p. bg_tenant (snd p) = tenant) (live now s))) < PerTenantMax cfg) \<and>
      (bd_Grant d \<longleftrightarrow> map_of (bs_grants s') agentID \<noteq> None)"
  proof (cases "map_of (live now s) agentID")
    case (Some x)
    then show ?thesis using assms(2) by (auto simp: RequestSlot_def Let_def g bs_grant_def)
  next
    case None
    show ?thesis
    proof (cases "int (length (live now s)) \<ge> MaxConcurrent cfg \<or> tenant_count (reap now s) tenant \<ge> PerTenantMax cfg")
      case True
      then have "bd_Grant d = False" "bs_grants s' = live now s"
        using assms(2) None by (auto simp: RequestSlot_def Let_def g deferSlot_def split: option.splits)
      then show ?thesis using None True by (auto simp: tc)
    next
      case False
      then have "bd_Grant d" "map_of (bs_grants s') agentID \<noteq> None"
        using assms(2) None by (auto simp: RequestSlot_def Let_def g bs_grant_def)
      then show ?thesis using None False by (auto simp: tc)
    qed
  qed
  ultimately show ?thesis unfolding mem bs_inv_def by blast
qed

theorem RequestSlot_decides_witness:
  "bd_Grant (fst (RequestSlot DefaultBackfillSchedulerConfig 1 5 7 9 NewBackfillScheduler)) \<and>
   length (bs_grants (snd (RequestSlot DefaultBackfillSchedulerConfig 1 5 7 9 NewBackfillScheduler))) \<le> 8"
  using RequestSlot_decides [OF reachable_start, OF refl surjective_pairing, of DefaultBackfillSchedulerConfig 1 5 7 9]
  by (simp add: live_def NewBackfillScheduler_def DefaultBackfillSchedulerConfig_def)

text \<open>
  The comment on \<open>rate\<close> says that dividing by the global cap keeps the summed grants within the budget.
  With a rate floor it does not: a server without headroom still grants every slot the floor.
\<close>

lemma rate_floor_exceeds_budget:
  "bs_rate DefaultBackfillSchedulerConfig 0 = 500 \<and>
   rat_of_int (BaseBudgetSamplesPerSec DefaultBackfillSchedulerConfig) * 0 <
     rat_of_int (MaxConcurrent DefaultBackfillSchedulerConfig) * 500"
  by (simp add: bs_rate_def DefaultBackfillSchedulerConfig_def Let_def)

text \<open>Above the floor the sum of all slots stays within the budget.\<close>

lemma rate_within_budget:
  assumes "0 \<le> BaseBudgetSamplesPerSec cfg" "BaseBudgetSamplesPerSec cfg < 2 ^ 32" "0 < MaxConcurrent cfg" "0 \<le> h" "h \<le> 1"
    and "MinGrantRate cfg = 0"
  shows "rat_of_int (MaxConcurrent cfg * uint (bs_rate cfg h)) \<le> rat_of_int (BaseBudgetSamplesPerSec cfg) * h"
proof -
  let ?per = "rat_of_int (BaseBudgetSamplesPerSec cfg) * h / rat_of_int (MaxConcurrent cfg)"
  have per: "0 \<le> ?per" "?per \<le> rat_of_int (BaseBudgetSamplesPerSec cfg)"
    using assms by (auto simp: divide_le_eq intro: mult_mono order_trans [OF mult_left_le])
  have "uint (bs_rate cfg h) \<le> uint (word_of_int \<lfloor>?per\<rfloor> :: 32 word)"
    using assms by (simp add: bs_rate_def Let_def min_def max_def word_le_def)
  also have "\<dots> = \<lfloor>?per\<rfloor>" using per assms(2)
    by (simp add: uint_word_of_int mod_pos_pos_trivial floor_less_iff)
  finally have "rat_of_int (uint (bs_rate cfg h)) \<le> ?per" by (simp add: le_floor_iff)
  then show ?thesis using assms(3) by (simp add: le_divide_eq mult.commute)
qed

end
