(* ===== verification/Status_Gate.thy ===== *)
theory Status_Gate
  imports OG_Prelude
begin

text \<open>
  The gate that serialises the status transitions of one device, \<open>deviceStatusGate\<close> of
  \<open>server/internal/agentapi/server_connection.go\<close>: a lock per device that exists only while somebody
  holds it or waits for it. A thread that enters runs \<open>gate_enter\<close> under the gate's own mutex and then
  \<open>gate_acquire\<close>; the function it is given to leave runs \<open>gate_unlock\<close> and then \<open>gate_leave\<close>.
\<close>

section \<open>Operations\<close>

text \<open>The mutex of a lock is known by the thread that holds it.\<close>

record deviceStatusLock =
  dl_holder :: "nat option"
  dl_waiting :: nat

datatype gate_pc = GateOutside | GateWaiting uuid nat | GateInside uuid nat | GateLeaving uuid nat

record deviceStatusGate =
  g_locks :: "(uuid, nat) gomap"
  g_heap :: "deviceStatusLock list"
  g_threads :: "gate_pc list"

definition gate_enter :: "nat \<Rightarrow> uuid \<Rightarrow> deviceStatusGate \<Rightarrow> deviceStatusGate" where
  "gate_enter t d g =
     (let (a, g') = (case map_of (g_locks g) d of
                       Some a \<Rightarrow> (a, g)
                     | None \<Rightarrow>
                         (length (g_heap g),
                          g\<lparr>g_heap := g_heap g @ [\<lparr>dl_holder = None, dl_waiting = 0\<rparr>],
                            g_locks := gomap_put d (length (g_heap g)) (g_locks g)\<rparr>)) in
      g'\<lparr>g_heap := (g_heap g')[a := (g_heap g' ! a)\<lparr>dl_waiting := dl_waiting (g_heap g' ! a) + 1\<rparr>],
         g_threads := (g_threads g')[t := GateWaiting d a]\<rparr>)"

definition gate_acquire :: "nat \<Rightarrow> deviceStatusGate \<Rightarrow> deviceStatusGate option" where
  "gate_acquire t g =
     (case g_threads g ! t of
        GateWaiting d a \<Rightarrow>
          if dl_holder (g_heap g ! a) = None
          then Some (g\<lparr>g_heap := (g_heap g)[a := (g_heap g ! a)\<lparr>dl_holder := Some t\<rparr>],
                       g_threads := (g_threads g)[t := GateInside d a]\<rparr>)
          else None
      | _ \<Rightarrow> None)"

definition gate_unlock :: "nat \<Rightarrow> deviceStatusGate \<Rightarrow> deviceStatusGate option" where
  "gate_unlock t g =
     (case g_threads g ! t of
        GateInside d a \<Rightarrow>
          Some (g\<lparr>g_heap := (g_heap g)[a := (g_heap g ! a)\<lparr>dl_holder := None\<rparr>],
                  g_threads := (g_threads g)[t := GateLeaving d a]\<rparr>)
      | _ \<Rightarrow> None)"

definition gate_leave :: "nat \<Rightarrow> deviceStatusGate \<Rightarrow> deviceStatusGate option" where
  "gate_leave t g =
     (case g_threads g ! t of
        GateLeaving d a \<Rightarrow>
          (let w = dl_waiting (g_heap g ! a) - 1 in
           Some (g\<lparr>g_heap := (g_heap g)[a := (g_heap g ! a)\<lparr>dl_waiting := w\<rparr>],
                   g_locks := (if w = 0 then gomap_del d (g_locks g) else g_locks g),
                   g_threads := (g_threads g)[t := GateOutside]\<rparr>))
      | _ \<Rightarrow> None)"

definition gate_inFlight :: "deviceStatusGate \<Rightarrow> uuid list" where
  "gate_inFlight g = map fst (g_locks g)"

section \<open>Every interleaving\<close>

inductive gate_step :: "deviceStatusGate \<Rightarrow> deviceStatusGate \<Rightarrow> bool" where
  step_enter: "t < length (g_threads g) \<Longrightarrow> g_threads g ! t = GateOutside \<Longrightarrow> gate_step g (gate_enter t d g)"
| step_acquire: "t < length (g_threads g) \<Longrightarrow> gate_acquire t g = Some g' \<Longrightarrow> gate_step g g'"
| step_unlock: "t < length (g_threads g) \<Longrightarrow> gate_unlock t g = Some g' \<Longrightarrow> gate_step g g'"
| step_leave: "t < length (g_threads g) \<Longrightarrow> gate_leave t g = Some g' \<Longrightarrow> gate_step g g'"

definition gate_start :: "deviceStatusGate \<Rightarrow> bool" where
  "gate_start g \<longleftrightarrow> (\<exists>n. g = \<lparr>g_locks = [], g_heap = [], g_threads = replicate n GateOutside\<rparr>)"

text \<open>The lock a thread is at, and the threads at a lock.\<close>

fun gate_at :: "gate_pc \<Rightarrow> (uuid \<times> nat) option" where
  "gate_at GateOutside = None"
| "gate_at (GateWaiting d a) = Some (d, a)"
| "gate_at (GateInside d a) = Some (d, a)"
| "gate_at (GateLeaving d a) = Some (d, a)"

fun gate_inside :: "gate_pc \<Rightarrow> nat option" where
  "gate_inside (GateInside d a) = Some a"
| "gate_inside _ = None"

definition gate_users :: "deviceStatusGate \<Rightarrow> nat \<Rightarrow> nat" where
  "gate_users g a = length (filter (\<lambda>p. map_option snd (gate_at p) = Some a) (g_threads g))"

definition gate_inv :: "deviceStatusGate \<Rightarrow> bool" where
  "gate_inv g \<longleftrightarrow>
     gomap_wf (g_locks g) \<and>
     (\<forall>d a. map_of (g_locks g) d = Some a \<longrightarrow> a < length (g_heap g) \<and> 0 < gate_users g a) \<and>
     (\<forall>d d' a. map_of (g_locks g) d = Some a \<longrightarrow> map_of (g_locks g) d' = Some a \<longrightarrow> d' = d) \<and>
     (\<forall>t d a. t < length (g_threads g) \<longrightarrow> gate_at (g_threads g ! t) = Some (d, a) \<longrightarrow> map_of (g_locks g) d = Some a) \<and>
     (\<forall>a < length (g_heap g). dl_waiting (g_heap g ! a) = gate_users g a) \<and>
     (\<forall>t a. t < length (g_threads g) \<longrightarrow> gate_inside (g_threads g ! t) = Some a \<longrightarrow> dl_holder (g_heap g ! a) = Some t) \<and>
     (\<forall>a t. a < length (g_heap g) \<longrightarrow> dl_holder (g_heap g ! a) = Some t \<longrightarrow>
        t < length (g_threads g) \<and> gate_inside (g_threads g ! t) = Some a)"

lemma gate_invD:
  assumes "gate_inv g"
  shows "gomap_wf (g_locks g)"
    "map_of (g_locks g) d = Some a \<Longrightarrow> a < length (g_heap g) \<and> 0 < gate_users g a"
    "map_of (g_locks g) d = Some a \<Longrightarrow> map_of (g_locks g) d' = Some a \<Longrightarrow> d' = d"
    "t < length (g_threads g) \<Longrightarrow> gate_at (g_threads g ! t) = Some (d, a) \<Longrightarrow> map_of (g_locks g) d = Some a"
    "a < length (g_heap g) \<Longrightarrow> dl_waiting (g_heap g ! a) = gate_users g a"
    "t < length (g_threads g) \<Longrightarrow> gate_inside (g_threads g ! t) = Some a \<Longrightarrow> dl_holder (g_heap g ! a) = Some t"
    "a < length (g_heap g) \<Longrightarrow> dl_holder (g_heap g ! a) = Some t \<Longrightarrow>
       t < length (g_threads g) \<and> gate_inside (g_threads g ! t) = Some a"
  using assms unfolding gate_inv_def by blast+

lemma gate_users_thread:
  assumes "t < length (g_threads g)"
  shows "length (filter (\<lambda>p. map_option snd (gate_at p) = Some a) ((g_threads g)[t := p])) +
      (if map_option snd (gate_at (g_threads g ! t)) = Some a then 1 else 0) =
    gate_users g a + (if map_option snd (gate_at p) = Some a then 1 else 0)"
  using length_filter_update [OF assms, of "\<lambda>p. map_option snd (gate_at p) = Some a" p]
  by (simp add: gate_users_def)

text \<open>A step of a thread that stays at its lock, and changes the holder of that lock only.\<close>

lemma gate_inv_stays:
  assumes inv: "gate_inv g" and t: "t < length (g_threads g)" and at': "gate_at (g_threads g ! t) = Some (d, a)" "gate_at p = Some (d, a)"
    and h: "(\<exists>u. dl_holder (g_heap g ! a) = Some u \<and> u \<noteq> t) \<longrightarrow> False" "gate_inside p = (if h = None then None else Some a)"
    "h = None \<or> h = Some t"
  shows "gate_inv (g\<lparr>g_heap := (g_heap g)[a := (g_heap g ! a)\<lparr>dl_holder := h\<rparr>], g_threads := (g_threads g)[t := p]\<rparr>)"
proof -
  let ?g = "g\<lparr>g_heap := (g_heap g)[a := (g_heap g ! a)\<lparr>dl_holder := h\<rparr>], g_threads := (g_threads g)[t := p]\<rparr>"
  have a: "a < length (g_heap g)" using gate_invD(2,4) [OF inv] t at' by blast
  have users: "gate_users ?g x = gate_users g x" for x
    using gate_users_thread [OF t, of x p] at' by (auto simp: gate_users_def)
  have ats: "gate_at (g_threads ?g ! u) = gate_at (g_threads g ! u)" for u
    using at' t by (cases "u = t") auto
  have ins: "gate_inside (g_threads ?g ! u) = (if u = t then gate_inside p else gate_inside (g_threads g ! u))" if "u < length (g_threads g)" for u
    using t by auto
  have hold: "dl_holder (g_heap ?g ! x) = (if x = a then h else dl_holder (g_heap g ! x))" for x
    using a by auto
  have wait: "dl_waiting (g_heap ?g ! x) = dl_waiting (g_heap g ! x)" for x
    using a by (cases "x = a") auto
  have inside_t: "gate_inside (g_threads g ! t) = Some x \<Longrightarrow> x = a" for x
    using at' by (cases "g_threads g ! t") auto
  have "dl_holder (g_heap ?g ! x) = Some u" if u: "u < length (g_threads g)" and i: "gate_inside (g_threads ?g ! u) = Some x" for u x
  proof (cases "u = t")
    case True
    then show ?thesis using i ins [OF u] h(2,3) hold [of x] by (auto split: if_splits)
  next
    case False
    then have "gate_inside (g_threads g ! u) = Some x" using i ins [OF u] by simp
    then have "dl_holder (g_heap g ! x) = Some u" using gate_invD(6) [OF inv u] by blast
    then show ?thesis using hold [of x] h(1) False by auto
  qed
  moreover have "u < length (g_threads g) \<and> gate_inside (g_threads ?g ! u) = Some x"
    if x: "x < length (g_heap g)" and i: "dl_holder (g_heap ?g ! x) = Some u" for u x
  proof (cases "x = a")
    case True
    then show ?thesis using i hold [of x] h(2,3) t ins by auto
  next
    case False
    then have "u < length (g_threads g)" "gate_inside (g_threads g ! u) = Some x"
      using i hold [of x] gate_invD(7) [OF inv x] by auto
    then show ?thesis using ins False inside_t by (cases "u = t") auto
  qed
  moreover have rest: "g_locks ?g = g_locks g" "length (g_heap ?g) = length (g_heap g)" "length (g_threads ?g) = length (g_threads g)"
    by simp_all
  ultimately show ?thesis
    using inv unfolding gate_inv_def users wait ats rest by (intro conjI) blast+
qed

lemma gate_acquire_inv: assumes "gate_inv g" "t < length (g_threads g)" "gate_acquire t g = Some g'" shows "gate_inv g'"
proof -
  obtain d a where "g_threads g ! t = GateWaiting d a" "dl_holder (g_heap g ! a) = None"
    "g' = g\<lparr>g_heap := (g_heap g)[a := (g_heap g ! a)\<lparr>dl_holder := Some t\<rparr>], g_threads := (g_threads g)[t := GateInside d a]\<rparr>"
    using assms(3) by (auto simp: gate_acquire_def split: gate_pc.splits if_splits)
  then show ?thesis using gate_inv_stays [OF assms(1,2), of d a "GateInside d a" "Some t"] by simp
qed

lemma gate_unlock_inv: assumes "gate_inv g" "t < length (g_threads g)" "gate_unlock t g = Some g'" shows "gate_inv g'"
proof -
  obtain d a where p: "g_threads g ! t = GateInside d a"
    and g': "g' = g\<lparr>g_heap := (g_heap g)[a := (g_heap g ! a)\<lparr>dl_holder := None\<rparr>], g_threads := (g_threads g)[t := GateLeaving d a]\<rparr>"
    using assms(3) by (auto simp: gate_unlock_def split: gate_pc.splits)
  have "dl_holder (g_heap g ! a) = Some t" using gate_invD(6) [OF assms(1,2)] p by simp
  then show ?thesis using gate_inv_stays [OF assms(1,2), of d a "GateLeaving d a" None] p g' by simp
qed

lemma gate_inside_at: "gate_inside p = Some a \<Longrightarrow> \<exists>d. gate_at p = Some (d, a)"
  by (cases p) auto

lemma gate_users_pos:
  assumes "u < length (g_threads g)" "gate_at (g_threads g ! u) = Some (d, a)"
  shows "0 < gate_users g a"
  unfolding gate_users_def length_greater_0_conv filter_empty_conv using assms nth_mem by fastforce

text \<open>
  A thread joins a lock, which is either the one the device has or a new one at the end of the heap.
\<close>

lemma gate_inv_joins:
  assumes inv: "gate_inv g" and t: "t < length (g_threads g)" and out: "g_threads g ! t = GateOutside"
    and a: "map_of (g_locks g) d = Some a \<and> H = g_heap g \<and> K = g_locks g \<or>
      map_of (g_locks g) d = None \<and> a = length (g_heap g) \<and> H = g_heap g @ [\<lparr>dl_holder = None, dl_waiting = 0\<rparr>] \<and>
      K = gomap_put d a (g_locks g)"
  shows "gate_inv (g\<lparr>g_heap := H[a := (H ! a)\<lparr>dl_waiting := dl_waiting (H ! a) + 1\<rparr>], g_locks := K,
           g_threads := (g_threads g)[t := GateWaiting d a]\<rparr>)"
proof -
  define G where "G = g\<lparr>g_heap := H[a := (H ! a)\<lparr>dl_waiting := dl_waiting (H ! a) + 1\<rparr>], g_locks := K,
           g_threads := (g_threads g)[t := GateWaiting d a]\<rparr>"
  have K: "map_of K d' = (if d' = d then Some a else map_of (g_locks g) d')" for d' using a by auto
  have wfK: "gomap_wf K" using a gate_invD(1) [OF inv] by auto
  have aH: "a < length H" using a gate_invD(2) [OF inv] by auto
  have old: "x < length (g_heap g) \<Longrightarrow> H ! x = g_heap g ! x \<and> x < length H" for x using a by (auto simp: nth_append)
  have new: "x < length H \<Longrightarrow> \<not> x < length (g_heap g) \<Longrightarrow> x = a \<and> H ! x = \<lparr>dl_holder = None, dl_waiting = 0\<rparr>" for x
    using a by (auto simp: nth_append)
  have fresh: "map_of (g_locks g) d' = Some a \<Longrightarrow> d' = d" for d'
    using a gate_invD(2,3) [OF inv] by blast
  have users: "gate_users G x = gate_users g x + (if x = a then 1 else 0)" for x
    using gate_users_thread [OF t, of x "GateWaiting d a"] out by (auto simp: gate_users_def G_def)
  have none: "gate_users g a = 0" if "\<not> a < length (g_heap g)"
  proof (rule ccontr)
    assume "gate_users g a \<noteq> 0"
    then obtain u where "u < length (g_threads g)" "map_option snd (gate_at (g_threads g ! u)) = Some a"
      by (auto simp: gate_users_def filter_empty_conv in_set_conv_nth)
    then obtain d' where "gate_at (g_threads g ! u) = Some (d', a)" "u < length (g_threads g)" by auto
    then have "a < length (g_heap g)" using gate_invD(2,4) [OF inv] by blast
    then show False using that by blast
  qed
  have wait: "dl_waiting (g_heap G ! x) = dl_waiting (H ! x) + (if x = a then 1 else 0)" and
    hold: "dl_holder (g_heap G ! x) = dl_holder (H ! x)" if "x < length H" for x
    using aH that by (cases "x = a", auto simp: G_def)+
  have thr: "g_threads G ! u = (if u = t then GateWaiting d a else g_threads g ! u)" for u using t by (auto simp: G_def)
  have len: "length (g_heap G) = length H" "length (g_threads G) = length (g_threads g)" "g_locks G = K" by (simp_all add: G_def)
  have "x < length H \<and> 0 < gate_users G x" if "map_of K d' = Some x" for d' x
    using that aH old [of x] gate_invD(2) [OF inv, of d' x] by (auto simp: users K split: if_splits)
  moreover have "d2 = d1" if "map_of K d1 = Some x" "map_of K d2 = Some x" for d1 d2 x
    using that fresh [of d1] fresh [of d2] gate_invD(3) [OF inv, of d1 x d2] by (auto simp: K split: if_splits)
  moreover have "map_of K d' = Some x" if "u < length (g_threads g)" "gate_at (g_threads G ! u) = Some (d', x)" for u d' x
  proof (cases "u = t")
    case True
    then show ?thesis using that by (simp add: thr K)
  next
    case False
    then have o: "map_of (g_locks g) d' = Some x" using that gate_invD(4) [OF inv, of u d' x] by (simp add: thr)
    then show ?thesis using a by (auto simp: K)
  qed
  moreover have "dl_waiting (g_heap G ! x) = gate_users G x" if "x < length H" for x
  proof (cases "x < length (g_heap g)")
    case True
    then show ?thesis using wait [OF that] old [of x] gate_invD(5) [OF inv True] by (simp add: users)
  next
    case False
    then show ?thesis using wait [OF that] new [OF that] none by (simp add: users)
  qed
  moreover have "dl_holder (g_heap G ! x) = Some u" if "u < length (g_threads g)" "gate_inside (g_threads G ! u) = Some x" for u x
  proof -
    have u: "gate_inside (g_threads g ! u) = Some x" using that by (auto simp: thr split: if_splits)
    then have "x < length (g_heap g)" using gate_inside_at gate_invD(2,4) [OF inv] that(1) by meson
    then show ?thesis using gate_invD(6) [OF inv that(1) u] old [of x] hold [of x] by simp
  qed
  moreover have "u < length (g_threads g) \<and> gate_inside (g_threads G ! u) = Some x"
    if "x < length H" "dl_holder (g_heap G ! x) = Some u" for x u
  proof -
    have "x < length (g_heap g)"
      using that new [OF that(1)] hold [OF that(1)] by (cases "x < length (g_heap g)") auto
    then show ?thesis using that hold [OF that(1)] old [of x] gate_invD(7) [OF inv, of x u] out by (auto simp: thr)
  qed
  ultimately have "gate_inv G" unfolding gate_inv_def len using wfK by (intro conjI) blast+
  then show ?thesis by (simp only: G_def)
qed

lemma gate_enter_inv: assumes "gate_inv g" "t < length (g_threads g)" "g_threads g ! t = GateOutside" shows "gate_inv (gate_enter t d g)"
proof (cases "map_of (g_locks g) d")
  case None
  then show ?thesis
    using gate_inv_joins [OF assms, of d "length (g_heap g)" "g_heap g @ [\<lparr>dl_holder = None, dl_waiting = 0\<rparr>]"
        "gomap_put d (length (g_heap g)) (g_locks g)"]
    by (cases g) (simp add: gate_enter_def)
next
  case (Some a)
  then show ?thesis using gate_inv_joins [OF assms, of d a "g_heap g" "g_locks g"] by (cases g) (simp add: gate_enter_def)
qed

lemma gate_leave_inv: assumes inv: "gate_inv g" and t: "t < length (g_threads g)" and l: "gate_leave t g = Some g'" shows "gate_inv g'"
proof -
  obtain d a where p: "g_threads g ! t = GateLeaving d a"
    using l by (auto simp: gate_leave_def split: gate_pc.splits)
  let ?w = "dl_waiting (g_heap g ! a) - 1"
  have g': "g' = g\<lparr>g_heap := (g_heap g)[a := (g_heap g ! a)\<lparr>dl_waiting := ?w\<rparr>],
      g_locks := (if ?w = 0 then gomap_del d (g_locks g) else g_locks g), g_threads := (g_threads g)[t := GateOutside]\<rparr>"
    using l p by (simp add: gate_leave_def Let_def)
  have d: "map_of (g_locks g) d = Some a" using gate_invD(4) [OF inv t] p by simp
  then have a: "a < length (g_heap g)" using gate_invD(2) [OF inv] by blast
  have users: "gate_users g' x + (if x = a then 1 else 0) = gate_users g x" for x
    using gate_users_thread [OF t, of x GateOutside] p by (auto simp: gate_users_def g')
  have w: "?w = gate_users g' a" using users [of a] gate_invD(5) [OF inv a] by simp
  have K: "map_of (g_locks g') x = (if x = d \<and> ?w = 0 then None else map_of (g_locks g) x)" for x by (simp add: g')
  have wait: "dl_waiting (g_heap g' ! x) = (if x = a then ?w else dl_waiting (g_heap g ! x))" and
    hold: "dl_holder (g_heap g' ! x) = dl_holder (g_heap g ! x)" for x
    using a by (cases "x = a", auto simp: g')+
  have thr: "g_threads g' ! u = (if u = t then GateOutside else g_threads g ! u)" for u using t by (auto simp: g')
  have len: "length (g_heap g') = length (g_heap g)" "length (g_threads g') = length (g_threads g)" by (simp_all add: g')
  have "x < length (g_heap g) \<and> 0 < gate_users g' x" if "map_of (g_locks g') d' = Some x" for d' x
  proof -
    have o: "map_of (g_locks g) d' = Some x" "\<not> (d' = d \<and> ?w = 0)" using that K by (auto split: if_splits)
    then have "x < length (g_heap g)" "0 < gate_users g x" using gate_invD(2) [OF inv] by blast+
    moreover have "x = a \<Longrightarrow> d' = d" using o(1) d gate_invD(3) [OF inv] by blast
    ultimately show ?thesis using users [of x] o(2) w by (cases "x = a") auto
  qed
  moreover have "d2 = d1" if "map_of (g_locks g') d1 = Some x" "map_of (g_locks g') d2 = Some x" for d1 d2 x
    using that K gate_invD(3) [OF inv, of d1 x d2] by (auto split: if_splits)
  moreover have "map_of (g_locks g') d' = Some x" if u: "u < length (g_threads g)" "gate_at (g_threads g' ! u) = Some (d', x)" for u d' x
  proof -
    have o: "map_of (g_locks g) d' = Some x" using u gate_invD(4) [OF inv, of u d' x] by (auto simp: thr split: if_splits)
    moreover have "0 < gate_users g' x" using gate_users_pos [of u g' d' x] u len by simp
    ultimately show ?thesis using K [of d'] d w by auto
  qed
  moreover have "dl_waiting (g_heap g' ! x) = gate_users g' x" if "x < length (g_heap g)" for x
    using wait [of x] w users [of x] gate_invD(5) [OF inv that] by auto
  moreover have "dl_holder (g_heap g' ! x) = Some u" if "u < length (g_threads g)" "gate_inside (g_threads g' ! u) = Some x" for u x
    using that gate_invD(6) [OF inv that(1), of x] by (auto simp: thr hold split: if_splits)
  moreover have "u < length (g_threads g) \<and> gate_inside (g_threads g' ! u) = Some x"
    if "x < length (g_heap g)" "dl_holder (g_heap g' ! x) = Some u" for x u
    using that gate_invD(7) [OF inv that(1), of u] p by (auto simp: thr hold)
  moreover have "gomap_wf (g_locks g')" using gate_invD(1) [OF inv] by (simp add: g')
  ultimately show ?thesis unfolding gate_inv_def len by (intro conjI) blast+
qed

lemma gate_step_inv: "gate_step g g' \<Longrightarrow> gate_inv g \<Longrightarrow> gate_inv g'"
  by (cases rule: gate_step.cases) (auto intro: gate_enter_inv gate_acquire_inv gate_unlock_inv gate_leave_inv)

lemma gate_inv_start: "gate_start g \<Longrightarrow> gate_inv g"
  by (auto simp: gate_start_def gate_inv_def)

interpretation gates: step_invariant gate_start gate_step gate_inv
  by unfold_locales (auto intro: gate_inv_start gate_step_inv)

section \<open>Properties\<close>

text \<open>
  C33. Creating and deleting a device's lock on demand keeps the gate a gate: two threads are never inside
  it for the same device, whatever the interleaving, and no lock is left behind once nobody holds or
  waits for one.
\<close>

theorem gate_excludes:
  assumes "reachable gate_start gate_step g"
  shows "(\<forall>t u d a b. t < length (g_threads g) \<and> u < length (g_threads g) \<and>
            g_threads g ! t = GateInside d a \<and> g_threads g ! u = GateInside d b \<longrightarrow> t = u) \<and>
         (list_all (\<lambda>p. p = GateOutside) (g_threads g) \<longrightarrow> gate_inFlight g = [])"
proof (intro conjI allI impI)
  have inv: "gate_inv g" using assms by (rule gates.holds)
  fix t u d a b
  assume "t < length (g_threads g) \<and> u < length (g_threads g) \<and>
    g_threads g ! t = GateInside d a \<and> g_threads g ! u = GateInside d b"
  then have "map_of (g_locks g) d = Some a" "map_of (g_locks g) d = Some b"
    "dl_holder (g_heap g ! a) = Some t" "dl_holder (g_heap g ! b) = Some u"
    using gate_invD(4) [OF inv, of t d a] gate_invD(4) [OF inv, of u d b] gate_invD(6) [OF inv, of t a]
      gate_invD(6) [OF inv, of u b] by simp_all
  then show "t = u" by simp
next
  have inv: "gate_inv g" using assms by (rule gates.holds)
  assume out: "list_all (\<lambda>p. p = GateOutside) (g_threads g)"
  have "gate_users g a = 0" for a
    unfolding gate_users_def length_0_conv filter_empty_conv using out by (auto simp: list_all_iff)
  then have "map_of (g_locks g) d = None" for d using gate_invD(2) [OF inv] by (cases "map_of (g_locks g) d") fastforce+
  then have "map_of (g_locks g) = Map.empty" by (rule ext)
  then show "gate_inFlight g = []" by (simp add: gate_inFlight_def)
qed

text \<open>One thread goes through the gate while another waits for it.\<close>

definition gate_demo :: deviceStatusGate where
  "gate_demo = \<lparr>g_locks = [(5, 0)], g_heap = [\<lparr>dl_holder = Some 0, dl_waiting = 2\<rparr>],
     g_threads = [GateInside 5 0, GateWaiting 5 0]\<rparr>"

lemma gate_demo_reachable: "reachable gate_start gate_step gate_demo"
proof -
  let ?g0 = "\<lparr>g_locks = [], g_heap = [], g_threads = [GateOutside, GateOutside]\<rparr>"
  have "?g0 = \<lparr>g_locks = [], g_heap = [], g_threads = replicate 2 GateOutside\<rparr>" by (simp add: numeral_2_eq_2)
  then have "reachable gate_start gate_step ?g0" by (intro reachable_start) (auto simp: gate_start_def)
  moreover have "gate_step ?g0 (gate_enter 0 5 ?g0)" by (rule step_enter) simp_all
  moreover have "gate_step (gate_enter 0 5 ?g0) (gate_enter 1 5 (gate_enter 0 5 ?g0))"
    by (rule step_enter) (simp_all add: gate_enter_def)
  moreover have "gate_acquire 0 (gate_enter 1 5 (gate_enter 0 5 ?g0)) = Some gate_demo"
    by (simp add: gate_acquire_def gate_enter_def gate_demo_def gomap_put_def)
  then have "gate_step (gate_enter 1 5 (gate_enter 0 5 ?g0)) gate_demo"
    by (rule step_acquire [of 0, rotated]) (simp add: gate_enter_def)
  ultimately show ?thesis by (blast intro: reachable_step)
qed

theorem gate_excludes_witness:
  "g_threads gate_demo ! 0 = GateInside 5 0 \<and> g_threads gate_demo ! 1 \<noteq> GateInside 5 0"
proof -
  have "0 = (1::nat)" if "g_threads gate_demo ! 1 = GateInside 5 0"
    using gate_excludes [OF gate_demo_reachable] that by (auto simp: gate_demo_def)
  then show ?thesis by (auto simp: gate_demo_def)
qed

end
