(* ===== verification/Go_Text.thy ===== *)
theory Go_Text
  imports OG_Prelude
begin

text \<open>
  What the code uses of Go's text library: a string is a list of bytes, read as UTF-8 rune by rune
  the way \<open>unicode/utf8\<close> does, an invalid byte counting as one replacement character.
\<close>

section \<open>UTF-8\<close>

type_synonym rune = nat

definition RuneError :: rune where
  "RuneError = 65533"

definition byte_of :: "char \<Rightarrow> nat" where
  "byte_of c = of_char c"

definition cont_byte :: "nat \<Rightarrow> bool" where
  "cont_byte b \<longleftrightarrow> 128 \<le> b \<and> b \<le> 191"

text \<open>\<open>utf8.DecodeRune\<close>: the rune and the number of bytes it takes; the second byte is bounded by the first.\<close>

fun decode_rune :: "nat list \<Rightarrow> rune \<times> nat" where
  "decode_rune [] = (RuneError, 0)"
| "decode_rune (b # bs) =
     (if b < 128 then (b, 1)
      else if 194 \<le> b \<and> b \<le> 223 then
        (case bs of
           b1 # _ \<Rightarrow> if cont_byte b1 then ((b - 192) * 64 + (b1 - 128), 2) else (RuneError, 1)
         | _ \<Rightarrow> (RuneError, 1))
      else if 224 \<le> b \<and> b \<le> 239 then
        (case bs of
           b1 # b2 # _ \<Rightarrow>
             if (if b = 224 then 160 else 128) \<le> b1 \<and> b1 \<le> (if b = 237 then 159 else 191) \<and> cont_byte b2
             then ((b - 224) * 4096 + (b1 - 128) * 64 + (b2 - 128), 3) else (RuneError, 1)
         | _ \<Rightarrow> (RuneError, 1))
      else if 240 \<le> b \<and> b \<le> 244 then
        (case bs of
           b1 # b2 # b3 # _ \<Rightarrow>
             if (if b = 240 then 144 else 128) \<le> b1 \<and> b1 \<le> (if b = 244 then 143 else 191) \<and> cont_byte b2 \<and> cont_byte b3
             then ((b - 240) * 262144 + (b1 - 128) * 4096 + (b2 - 128) * 64 + (b3 - 128), 4) else (RuneError, 1)
         | _ \<Rightarrow> (RuneError, 1))
      else (RuneError, 1))"

definition valid_rune :: "rune \<Rightarrow> bool" where
  "valid_rune r \<longleftrightarrow> r < 55296 \<or> 57344 \<le> r \<and> r < 1114112"

text \<open>\<open>utf8.AppendRune\<close>: a value that is no code point is written as the replacement character.\<close>

definition encode_rune :: "rune \<Rightarrow> nat list" where
  "encode_rune v =
     (let r = (if valid_rune v then v else RuneError) in
      if r < 128 then [r]
      else if r < 2048 then [192 + r div 64, 128 + r mod 64]
      else if r < 65536 then [224 + r div 4096, 128 + r div 64 mod 64, 128 + r mod 64]
      else [240 + r div 262144, 128 + r div 4096 mod 64, 128 + r div 64 mod 64, 128 + r mod 64])"

lemma decode_rune_width: "b \<noteq> [] \<Longrightarrow> 1 \<le> snd (decode_rune b) \<and> snd (decode_rune b) \<le> length b"
  by (cases b) (auto split: list.split)

text \<open>The runes of a string with the bytes of each.\<close>

function chunks :: "nat list \<Rightarrow> (rune \<times> nat list) list" where
  "chunks b = (if b = [] then []
               else (case decode_rune b of (r, n) \<Rightarrow> (r, take n b) # chunks (drop n b)))"
  by pat_completeness auto
termination
proof (relation "measure length")
  fix b :: "nat list" and r n assume "b \<noteq> []" "(r, n) = decode_rune b"
  then show "(drop n b, b) \<in> measure length" using decode_rune_width [of b] by (metis (no_types, lifting) diff_less in_measure length_drop length_greater_0_conv less_le_trans snd_conv zero_less_one)
qed simp

declare chunks.simps [simp del]

lemma chunks_Nil [simp]: "chunks [] = []"
  by (simp add: chunks.simps)

lemma chunks_step: "b \<noteq> [] \<Longrightarrow> chunks b = (fst (decode_rune b), take (snd (decode_rune b)) b) # chunks (drop (snd (decode_rune b)) b)"
  by (subst chunks.simps) (simp add: case_prod_beta)

lemma chunks_cover: "concat (map snd (chunks b)) = b"
proof (induction b rule: chunks.induct)
  case (1 b)
  then show ?case
    using 1 [of "fst (decode_rune b)" "snd (decode_rune b)"] by (cases "b = []") (simp_all add: chunks_step)
qed

section \<open>Strings\<close>

definition string_bytes :: "string \<Rightarrow> nat list" where
  "string_bytes s = map byte_of s"

definition bytes_string :: "nat list \<Rightarrow> string" where
  "bytes_string b = map char_of b"

lemma bytes_string_bytes [simp]: "bytes_string (string_bytes s) = s"
  by (simp add: bytes_string_def string_bytes_def byte_of_def comp_def)

text \<open>\<open>[]rune(s)\<close>, its length \<open>utf8.RuneCountInString\<close>, and \<open>string(rs)\<close>.\<close>

definition runes :: "string \<Rightarrow> rune list" where
  "runes s = map fst (chunks (string_bytes s))"

definition rune_string :: "rune list \<Rightarrow> string" where
  "rune_string rs = bytes_string (concat (map encode_rune rs))"

text \<open>\<open>unicode.IsSpace\<close>.\<close>

definition IsSpace :: "rune \<Rightarrow> bool" where
  "IsSpace r \<longleftrightarrow> 9 \<le> r \<and> r \<le> 13 \<or> r = 32 \<or> r = 133 \<or> r = 160 \<or> r = 5760 \<or> 8192 \<le> r \<and> r \<le> 8202 \<or>
     r = 8232 \<or> r = 8233 \<or> r = 8239 \<or> r = 8287 \<or> r = 12288"

text \<open>\<open>strings.TrimSpace\<close>. A rune ends where the next one begins whichever end the string is read from.\<close>

definition TrimSpace :: "string \<Rightarrow> string" where
  "TrimSpace s =
     bytes_string (concat (map snd
       (rev (dropWhile (\<lambda>c. IsSpace (fst c)) (rev (dropWhile (\<lambda>c. IsSpace (fst c)) (chunks (string_bytes s))))))))"

text \<open>\<open>strings.ContainsAny\<close> for characters that are single bytes.\<close>

definition ContainsAny :: "string \<Rightarrow> string \<Rightarrow> bool" where
  "ContainsAny s cs \<longleftrightarrow> list_ex (\<lambda>c. c \<in> set cs) s"

section \<open>Round trips\<close>

lemma encode_valid: "valid_rune v \<Longrightarrow> encode_rune v =
     (if v < 128 then [v]
      else if v < 2048 then [192 + v div 64, 128 + v mod 64]
      else if v < 65536 then [224 + v div 4096, 128 + v div 64 mod 64, 128 + v mod 64]
      else [240 + v div 262144, 128 + v div 4096 mod 64, 128 + v div 64 mod 64, 128 + v mod 64])"
  by (simp add: encode_rune_def)

lemma cont_mod [simp]: "cont_byte (128 + v mod 64)"
  using mod_less_divisor [of 64 v] by (simp add: cont_byte_def)

lemma decode_encode2:
  assumes "128 \<le> v" "v < 2048"
  shows "decode_rune ([192 + v div 64, 128 + v mod 64] @ rest) = (v, 2)"
proof -
  have "2 \<le> v div 64" "v div 64 < 32" using assms by auto
  then show ?thesis by simp
qed

lemma decode3:
  assumes "a < 16" "b < 64" "c < 64" "a = 0 \<Longrightarrow> 32 \<le> b" "a = 13 \<Longrightarrow> b < 32"
  shows "decode_rune ([224 + a, 128 + b, 128 + c] @ rest) = (a * 4096 + b * 64 + c, 3)"
  using assms by (auto simp: cont_byte_def)

lemma decode4:
  assumes "z < 5" "a < 64" "b < 64" "c < 64" "z = 0 \<Longrightarrow> 16 \<le> a" "z = 4 \<Longrightarrow> a < 16"
  shows "decode_rune ([240 + z, 128 + a, 128 + b, 128 + c] @ rest) = (z * 262144 + a * 4096 + b * 64 + c, 4)"
  using assms by (auto simp: cont_byte_def)

lemma decode_encode3:
  assumes "2048 \<le> v" "v < 65536" "valid_rune v"
  shows "decode_rune ([224 + v div 4096, 128 + v div 64 mod 64, 128 + v mod 64] @ rest) = (v, 3)"
proof -
  let ?a = "v div 4096" and ?b = "v div 64 mod 64" and ?c = "v mod 64"
  have v: "v = ?a * 4096 + ?b * 64 + ?c"
    using mult_div_mod_eq [of 64 v] mult_div_mod_eq [of 64 "v div 64"] div_mult2_eq [of v 64 64, simplified] by linarith
  have a: "?a < 16" "?b < 64" "?c < 64" using assms by auto
  have lo: "?a = 0 \<Longrightarrow> 32 \<le> ?b" using v a assms(1) by arith
  have hi: "?a = 13 \<Longrightarrow> ?b < 32" using v a assms(3) unfolding valid_rune_def by arith
  show ?thesis using decode3 [OF a lo hi] v by metis
qed

lemma decode_encode4:
  assumes "65536 \<le> v" "v < 1114112"
  shows "decode_rune ([240 + v div 262144, 128 + v div 4096 mod 64, 128 + v div 64 mod 64, 128 + v mod 64] @ rest) = (v, 4)"
proof -
  let ?z = "v div 262144" and ?a = "v div 4096 mod 64" and ?b = "v div 64 mod 64" and ?c = "v mod 64"
  have v: "v = ?z * 262144 + ?a * 4096 + ?b * 64 + ?c"
    using mult_div_mod_eq [of 64 v] mult_div_mod_eq [of 64 "v div 64"] mult_div_mod_eq [of 64 "v div 4096"]
      div_mult2_eq [of v 64 64, simplified] div_mult2_eq [of v 4096 64, simplified] by linarith
  have a: "?z < 5" "?a < 64" "?b < 64" "?c < 64" using assms by auto
  have lo: "?z = 0 \<Longrightarrow> 16 \<le> ?a" using v a assms(1) by arith
  have hi: "?z = 4 \<Longrightarrow> ?a < 16" using v a assms(2) by arith
  show ?thesis using decode4 [OF a lo hi] v by metis
qed

lemma decode_encode:
  assumes "valid_rune v"
  shows "decode_rune (encode_rune v @ rest) = (v, length (encode_rune v))"
proof -
  consider "v < 128" | "128 \<le> v" "v < 2048" | "2048 \<le> v" "v < 65536" | "65536 \<le> v" "v < 1114112"
    using assms by (fastforce simp: valid_rune_def)
  then show ?thesis
  proof cases
    case 1
    then show ?thesis using assms by (simp add: encode_valid)
  next
    case 2
    then show ?thesis using assms decode_encode2 [OF 2] by (simp add: encode_valid del: decode_rune.simps)
  next
    case 3
    then show ?thesis using assms decode_encode3 [OF 3 assms] by (simp add: encode_valid del: decode_rune.simps)
  next
    case 4
    then show ?thesis using assms decode_encode4 [OF 4] by (simp add: encode_valid del: decode_rune.simps)
  qed
qed

lemma encode_not_Nil [simp]: "encode_rune v \<noteq> []"
  by (simp add: encode_rune_def Let_def)

lemma chunks_encode:
  assumes "\<forall>r \<in> set rs. valid_rune r"
  shows "map fst (chunks (concat (map encode_rune rs))) = rs"
  using assms
proof (induction rs)
  case (Cons r rs)
  have "decode_rune (encode_rune r @ concat (map encode_rune rs)) = (r, length (encode_rune r))"
    using Cons.prems by (simp add: decode_encode del: decode_rune.simps)
  then show ?case using Cons by (simp add: chunks_step del: decode_rune.simps)
qed simp

lemma encode_bytes:
  assumes "b \<in> set (encode_rune v)"
  shows "b < 256"
proof -
  define r where "r = (if valid_rune v then v else RuneError)"
  have "r < 1114112" by (simp add: r_def valid_rune_def RuneError_def)
  then have d: "r div 262144 < 5" by auto
  have m: "x mod 64 < 64" for x :: nat by simp
  show ?thesis
  proof (cases "r < 2048")
    case True
    then have "r div 64 < 32" by auto
    then show ?thesis using assms True m [of r] by (auto simp: encode_rune_def r_def [symmetric] Let_def split: if_splits)
  next
    case False
    then have "b = 224 + r div 4096 \<and> r < 65536 \<or> b = 240 + r div 262144 \<or>
        b = 128 + r mod 64 \<or> b = 128 + r div 64 mod 64 \<or> b = 128 + r div 4096 mod 64"
      using assms by (auto simp: encode_rune_def r_def [symmetric] Let_def split: if_splits)
    moreover have "r div 4096 < 16" if "r < 65536" using that by auto
    ultimately show ?thesis using d m [of r] m [of "r div 64"] m [of "r div 4096"] by linarith
  qed
qed

lemma string_bytes_string: "(\<And>b. b \<in> set bs \<Longrightarrow> b < 256) \<Longrightarrow> string_bytes (bytes_string bs) = bs"
  by (induction bs) (auto simp: string_bytes_def bytes_string_def byte_of_def)

text \<open>Writing runes and reading them back gives the same runes.\<close>

lemma runes_rune_string:
  assumes "\<forall>r \<in> set rs. valid_rune r"
  shows "runes (rune_string rs) = rs"
proof -
  have "string_bytes (bytes_string (concat (map encode_rune rs))) = concat (map encode_rune rs)"
    by (rule string_bytes_string) (auto dest: encode_bytes)
  then show ?thesis using chunks_encode [OF assms] by (simp add: runes_def rune_string_def)
qed

section \<open>What a string decodes to\<close>

lemma two_byte_rune: "194 \<le> b \<Longrightarrow> b \<le> 223 \<Longrightarrow> cont_byte c \<Longrightarrow> 128 \<le> (b - 192) * 64 + (c - 128) \<and> valid_rune ((b - 192) * 64 + (c - 128))"
  unfolding cont_byte_def valid_rune_def by arith

lemma three_byte_rune:
  assumes "224 \<le> b" "b \<le> 239" "(if b = 224 then 160 else 128) \<le> c" "c \<le> (if b = 237 then 159 else 191)" "cont_byte d"
  shows "128 \<le> (b - 224) * 4096 + (c - 128) * 64 + (d - 128) \<and> valid_rune ((b - 224) * 4096 + (c - 128) * 64 + (d - 128))"
proof -
  define b' c' d' where n: "b' = b - 224" "c' = c - 128" "d' = d - 128"
  have h: "b' < 16" "d' < 64" "b' = 0 \<Longrightarrow> 32 \<le> c'" "b' = 13 \<Longrightarrow> c' < 32" "c' < 64"
    using assms by (auto simp: n cont_byte_def split: if_splits)
  consider "b' = 0" | "0 < b'" "b' < 13" | "b' = 13" | "13 < b'" by linarith
  then show ?thesis unfolding n [symmetric] valid_rune_def
  proof cases
    case 1
    then show "128 \<le> b' * 4096 + c' * 64 + d' \<and> (b' * 4096 + c' * 64 + d' < 55296 \<or> 57344 \<le> b' * 4096 + c' * 64 + d' \<and> b' * 4096 + c' * 64 + d' < 1114112)"
      using h(2,5) h(3) [OF 1] by simp
  next
    case 3
    then show "128 \<le> b' * 4096 + c' * 64 + d' \<and> (b' * 4096 + c' * 64 + d' < 55296 \<or> 57344 \<le> b' * 4096 + c' * 64 + d' \<and> b' * 4096 + c' * 64 + d' < 1114112)"
      using h(2,5) h(4) [OF 3] by simp
  qed (use h(1,2,5) in linarith)+
qed

lemma four_byte_rune:
  assumes "240 \<le> b" "b \<le> 244" "(if b = 240 then 144 else 128) \<le> c" "c \<le> (if b = 244 then 143 else 191)" "cont_byte d" "cont_byte e"
  shows "128 \<le> (b - 240) * 262144 + (c - 128) * 4096 + (d - 128) * 64 + (e - 128) \<and>
         valid_rune ((b - 240) * 262144 + (c - 128) * 4096 + (d - 128) * 64 + (e - 128))"
proof -
  define b' c' d' e' where n: "b' = b - 240" "c' = c - 128" "d' = d - 128" "e' = e - 128"
  have "b' < 5" "d' < 64" "e' < 64" "b' = 0 \<Longrightarrow> 16 \<le> c'" "b' = 4 \<Longrightarrow> c' < 16" "c' < 64"
    using assms by (auto simp: n cont_byte_def split: if_splits)
  then show ?thesis unfolding n [symmetric] valid_rune_def by arith
qed

lemma decode_rune_range:
  "fst (decode_rune b) = RuneError \<or> b \<noteq> [] \<and> fst (decode_rune b) = hd b \<and> hd b < 128 \<or>
   128 \<le> fst (decode_rune b) \<and> valid_rune (fst (decode_rune b))"
proof (cases b)
  case (Cons a bs)
  consider "a < 128" | "128 \<le> a" "a < 194 \<or> 244 < a" | "194 \<le> a" "a \<le> 223" | "224 \<le> a" "a \<le> 239" | "240 \<le> a" "a \<le> 244"
    by linarith
  then show ?thesis
  proof cases
    case 3
    then show ?thesis using two_byte_rune [OF 3, of "hd bs"] by (auto simp: Cons split: list.split)
  next
    case 4
    have "decode_rune b = (RuneError, 1) \<or>
      (\<exists>c d r. bs = c # d # r \<and> (if a = 224 then 160 else 128) \<le> c \<and> c \<le> (if a = 237 then 159 else 191) \<and> cont_byte d \<and>
         fst (decode_rune b) = (a - 224) * 4096 + (c - 128) * 64 + (d - 128))"
      using 4 by (simp add: Cons split: list.split)
    then show ?thesis using three_byte_rune [OF 4] by (metis fst_conv)
  next
    case 5
    have "decode_rune b = (RuneError, 1) \<or>
      (\<exists>c d e r. bs = c # d # e # r \<and> (if a = 240 then 144 else 128) \<le> c \<and> c \<le> (if a = 244 then 143 else 191) \<and> cont_byte d \<and> cont_byte e \<and>
         fst (decode_rune b) = (a - 240) * 262144 + (c - 128) * 4096 + (d - 128) * 64 + (e - 128))"
      using 5 by (simp add: Cons split: list.split)
    then show ?thesis using four_byte_rune [OF 5] by (metis fst_conv)
  next
    case 2
    from 2(2) show ?thesis by (rule disjE) (use 2(1) in \<open>simp_all add: Cons\<close>)
  qed (simp add: Cons)
qed simp

lemma decode_valid: "valid_rune (fst (decode_rune b))"
  using decode_rune_range [of b] by (auto simp: valid_rune_def RuneError_def)

lemma decode_small: "fst (decode_rune b) < 128 \<Longrightarrow> b \<noteq> [] \<and> fst (decode_rune b) = hd b"
  using decode_rune_range [of b] by (auto simp: RuneError_def)

lemma chunks_runes:
  "r \<in> fst ` set (chunks b) \<Longrightarrow> valid_rune r \<and> (r < 128 \<longrightarrow> r \<in> set b)"
proof (induction b rule: chunks.induct)
  case (1 b)
  show ?case
  proof (cases "b = []")
    case False
    then have "r = fst (decode_rune b) \<or> r \<in> fst ` set (chunks (drop (snd (decode_rune b)) b))"
      using 1 by (auto simp: chunks_step)
    then show ?thesis
    proof
      assume "r = fst (decode_rune b)"
      then show ?thesis using decode_valid [of b] decode_small [of b] by (metis list.set_sel(1))
    next
      assume "r \<in> fst ` set (chunks (drop (snd (decode_rune b)) b))"
      then show ?thesis using 1(1) [of "fst (decode_rune b)" "snd (decode_rune b)"] False
        by (metis in_set_dropD prod.collapse)
    qed
  qed (use 1 in simp)
qed

lemma runes_valid: "r \<in> set (runes s) \<Longrightarrow> valid_rune r"
  using chunks_runes [of r "string_bytes s"] by (auto simp: runes_def)

lemma runes_small: "r \<in> set (runes s) \<Longrightarrow> r < 128 \<Longrightarrow> char_of r \<in> set s"
  using chunks_runes [of r "string_bytes s"] by (auto simp: runes_def string_bytes_def byte_of_def)

lemma encode_small: "valid_rune v \<Longrightarrow> b \<in> set (encode_rune v) \<Longrightarrow> b < 128 \<Longrightarrow> b = v"
  by (auto simp: encode_valid split: if_splits)

lemma rune_string_small:
  assumes "c \<in> set (rune_string rs)" "byte_of c < 128" "\<forall>r \<in> set rs. valid_rune r"
  shows "byte_of c \<in> set rs"
proof -
  obtain r b where r: "r \<in> set rs" "b \<in> set (encode_rune r)" "c = char_of b"
    using assms(1) by (auto simp: rune_string_def bytes_string_def)
  then have "byte_of c = b" using encode_bytes [OF r(2)] by (simp add: byte_of_def)
  then show ?thesis using encode_small [of r b] r assms by auto
qed

end
