(* ===== verification/Rule_Coverage.thy ===== *)
theory Rule_Coverage
  imports Go_Text
begin

text \<open>
  What the connected machines report about the rules, \<open>server/internal/agentapi/conn_coverage.go\<close>
  (with the sanitizing of rule names in \<open>alert_breach.go\<close>), and the rows kept for the rules a
  machine cannot evaluate, \<open>server/internal/rules/postgres_coverage.go\<close>. A statement the database
  refuses is an argument; log lines and metrics are left out.
\<close>

section \<open>Rule names\<close>

definition maxAlertRuleIDLen :: nat where
  "maxAlertRuleIDLen = 64"

definition sanitizeAlertRuleID :: "string \<Rightarrow> string" where
  "sanitizeAlertRuleID name =
     (let s = TrimSpace name in
      if s = '''' then ''''
      else if ContainsAny s [CHR '' '', CHR 0x09, CHR 0x0D, CHR 0x0A] then ''[redacted]''
      else if maxAlertRuleIDLen < length (runes s) then rune_string (take maxAlertRuleIDLen (runes s))
      else s)"

section \<open>The reports\<close>

text \<open>The states are strings on the wire; any other one is kept apart.\<close>

datatype RuleCoverageState = RuleCoverageActive | RuleCoverageUnsupported | RuleCoverageThrottled | RuleCoverageUnrecognised string

record coverage_entry =
  ce_RuleID :: string
  ce_State :: RuleCoverageState

definition maxRuleCoverageEntries :: nat where
  "maxRuleCoverageEntries = 64"

type_synonym device_coverage = "(string, RuleCoverageState) gomap"
type_synonym RuleCoverageStore = "(uuid, device_coverage) gomap"

record RuleCoverageDelta =
  dl_Recorded :: nat
  dl_NowUnsupported :: "string list"
  dl_NowActive :: "string list"

definition no_delta :: RuleCoverageDelta where
  "no_delta = \<lparr>dl_Recorded = 0, dl_NowUnsupported = [], dl_NowActive = []\<rparr>"

definition NewRuleCoverageStore :: RuleCoverageStore where
  "NewRuleCoverageStore = []"

fun recognised :: "RuleCoverageState \<Rightarrow> bool" where
  "recognised (RuleCoverageUnrecognised s) = False"
| "recognised _ = True"

fun report_states :: "coverage_entry list \<Rightarrow> device_coverage \<Rightarrow> device_coverage" where
  "report_states [] states = states"
| "report_states (e # es) states =
     (if maxRuleCoverageEntries \<le> length states then states
      else (let ruleID = sanitizeAlertRuleID (ce_RuleID e) in
            if ruleID = '''' \<or> \<not> recognised (ce_State e) then report_states es states
            else report_states es (gomap_put ruleID (ce_State e) states)))"

definition diffCoverage :: "device_coverage \<Rightarrow> device_coverage \<Rightarrow> RuleCoverageDelta" where
  "diffCoverage before now =
     \<lparr>dl_Recorded = length now,
      dl_NowUnsupported =
        sort (map fst (filter (\<lambda>(r, st). st = RuleCoverageUnsupported \<and> map_of before r \<noteq> Some RuleCoverageUnsupported) now)),
      dl_NowActive =
        sort (map fst (filter (\<lambda>(r, st). st \<noteq> RuleCoverageUnsupported \<and> map_of before r = Some RuleCoverageUnsupported) now) @
              map fst (filter (\<lambda>(r, st). st = RuleCoverageUnsupported \<and> map_of now r = None) before))\<rparr>"

text \<open>What a device said before; a missing entry of the map reads as the empty map.\<close>

definition coverage_of :: "RuleCoverageStore \<Rightarrow> uuid \<Rightarrow> device_coverage" where
  "coverage_of s d = (case map_of s d of None \<Rightarrow> [] | Some m \<Rightarrow> m)"

definition Report :: "uuid \<Rightarrow> coverage_entry list \<Rightarrow> RuleCoverageStore \<Rightarrow> RuleCoverageDelta \<times> RuleCoverageStore" where
  "Report d entries s =
     (let states = report_states entries [] in
      if states = [] then (no_delta, s)
      else (diffCoverage (coverage_of s d) states, gomap_put d states s))"

definition Forget :: "uuid \<Rightarrow> RuleCoverageStore \<Rightarrow> RuleCoverageStore" where
  "Forget d s = gomap_del d s"

section \<open>The kept rows\<close>

record coverage_row =
  cr_tenant :: uuid
  cr_organization :: uuid
  cr_device :: uuid
  cr_rule :: string

definition has_coverage_row :: "coverage_row list \<Rightarrow> uuid \<Rightarrow> string \<Rightarrow> bool" where
  "has_coverage_row rows d r \<longleftrightarrow> list_ex (\<lambda>row. cr_device row = d \<and> cr_rule row = r) rows"

definition MarkUnsupported :: "bool \<Rightarrow> uuid \<Rightarrow> uuid \<Rightarrow> uuid \<Rightarrow> string \<Rightarrow> coverage_row list \<Rightarrow> coverage_row list" where
  "MarkUnsupported refused tenant org d r rows =
     (if refused \<or> has_coverage_row rows d r then rows
      else rows @ [\<lparr>cr_tenant = tenant, cr_organization = org, cr_device = d, cr_rule = r\<rparr>])"

definition ClearUnsupported :: "bool \<Rightarrow> uuid \<Rightarrow> uuid \<Rightarrow> string \<Rightarrow> coverage_row list \<Rightarrow> coverage_row list" where
  "ClearUnsupported refused tenant d r rows =
     (if refused then rows
      else filter (\<lambda>row. \<not> (cr_tenant row = tenant \<and> cr_device row = d \<and> cr_rule row = r)) rows)"

definition CountUnsupported :: "uuid \<Rightarrow> uuid \<Rightarrow> coverage_row list \<Rightarrow> (string, int) gomap" where
  "CountUnsupported tenant org rows =
     (let mine = filter (\<lambda>row. cr_tenant row = tenant \<and> cr_organization row = org) rows in
      map (\<lambda>r. (r, int (length (filter (\<lambda>row. cr_rule row = r) mine)))) (remdups (map cr_rule mine)))"

text \<open>\<open>refused\<close> says which rule's statement fails; the others are carried out all the same.\<close>

definition persistRuleCoverage ::
  "(string \<Rightarrow> bool) \<Rightarrow> uuid \<Rightarrow> uuid \<Rightarrow> uuid \<Rightarrow> RuleCoverageDelta \<Rightarrow> coverage_row list \<Rightarrow> coverage_row list" where
  "persistRuleCoverage refused tenant org d delta rows =
     fold (\<lambda>r. ClearUnsupported (refused r) tenant d r) (dl_NowActive delta)
       (fold (\<lambda>r. MarkUnsupported (refused r) tenant org d r) (dl_NowUnsupported delta) rows)"

definition recordRuleCoverage ::
  "(string \<Rightarrow> bool) \<Rightarrow> uuid \<Rightarrow> uuid \<Rightarrow> uuid \<Rightarrow> coverage_entry list \<Rightarrow> RuleCoverageStore \<Rightarrow> coverage_row list \<Rightarrow>
   bool \<times> RuleCoverageStore \<times> coverage_row list" where
  "recordRuleCoverage refused tenant org d entries s rows =
     (if entries = [] then (False, s, rows)
      else (case Report d entries s of
              (delta, s') \<Rightarrow> (0 < dl_Recorded delta, s', persistRuleCoverage refused tenant org d delta rows)))"

section \<open>The fleet split\<close>

record RuleCoverageCounts =
  rc_Active :: int
  rc_Throttled :: int
  rc_Unsupported :: int
  rc_Unknown :: int

definition no_counts :: RuleCoverageCounts where
  "no_counts = \<lparr>rc_Active = 0, rc_Throttled = 0, rc_Unsupported = 0, rc_Unknown = 0\<rparr>"

definition counts_at :: "(string, RuleCoverageCounts) gomap \<Rightarrow> string \<Rightarrow> RuleCoverageCounts" where
  "counts_at m r = (case map_of m r of None \<Rightarrow> no_counts | Some c \<Rightarrow> c)"

definition count_state :: "string \<times> RuleCoverageState \<Rightarrow> (string, RuleCoverageCounts) gomap \<Rightarrow> (string, RuleCoverageCounts) gomap" where
  "count_state e m =
     (let c = counts_at m (fst e) in
      gomap_put (fst e)
        (case snd e of
           RuleCoverageThrottled \<Rightarrow> c\<lparr>rc_Throttled := rc_Throttled c + 1\<rparr>
         | RuleCoverageUnsupported \<Rightarrow> c
         | _ \<Rightarrow> c\<lparr>rc_Active := rc_Active c + 1\<rparr>) m)"

definition count_unknown :: "int \<Rightarrow> RuleCoverageCounts \<Rightarrow> RuleCoverageCounts" where
  "count_unknown fleetSize c =
     (let unknown = fleetSize - rc_Active c - rc_Unsupported c - rc_Throttled c in
      if 0 < unknown then c\<lparr>rc_Unknown := unknown\<rparr> else c)"

definition Aggregate :: "int \<Rightarrow> (string, int) gomap \<Rightarrow> RuleCoverageStore \<Rightarrow> (string, RuleCoverageCounts) gomap" where
  "Aggregate fleetSize unsupported s =
     (let live = fold (\<lambda>(d, states). fold count_state states) s [];
          counts = fold (\<lambda>(r, n) m. gomap_put r ((counts_at m r)\<lparr>rc_Unsupported := n\<rparr>) m) unsupported live
      in map (\<lambda>(r, c). (r, count_unknown fleetSize c)) counts)"

text \<open>A failed read of the rows counts none.\<close>

definition RuleCoverage ::
  "bool \<Rightarrow> uuid \<Rightarrow> uuid \<Rightarrow> int \<Rightarrow> coverage_row list \<Rightarrow> RuleCoverageStore \<Rightarrow> (string, RuleCoverageCounts) gomap" where
  "RuleCoverage refused tenant org fleetSize rows s =
     Aggregate fleetSize (if refused then [] else CountUnsupported tenant org rows) s"

definition ByState :: "RuleCoverageCounts \<Rightarrow> (string, int) gomap" where
  "ByState c = [(''active'', rc_Active c), (''throttled'', rc_Throttled c), (''unsupported'', rc_Unsupported c),
                (''unknown'', rc_Unknown c)]"

text \<open>The counts of the whole install, over the rows of every tenant.\<close>

definition FleetCoverage :: "coverage_row list \<Rightarrow> (string, int) gomap" where
  "FleetCoverage rows = map (\<lambda>r. (r, int (length (filter (\<lambda>row. cr_rule row = r) rows)))) (remdups (map cr_rule rows))"

definition FleetRuleCoverage :: "int \<Rightarrow> coverage_row list \<Rightarrow> RuleCoverageStore \<Rightarrow> (string, (string, int) gomap) gomap" where
  "FleetRuleCoverage machines rows s = map (\<lambda>(r, c). (r, ByState c)) (Aggregate machines (FleetCoverage rows) s)"

section \<open>Sanitized names\<close>

lemma redacted_fits:
  "length (runes ''[redacted]'') \<le> 64 \<and> \<not> ContainsAny ''[redacted]'' [CHR '' '', CHR 0x09, CHR 0x0D, CHR 0x0A]"
  by (simp add: runes_def string_bytes_def byte_of_def chunks_step ContainsAny_def)

text \<open>
  A name is dropped, replaced by \<open>[redacted]\<close>, or at most 64 characters long without a blank, tab or
  line break; the kept rows' check on the name therefore never refuses one.
\<close>

lemma sanitizeAlertRuleID_fits:
  assumes "sanitizeAlertRuleID name = r" "r \<noteq> ''''"
  shows "length (runes r) \<le> 64 \<and> \<not> ContainsAny r [CHR '' '', CHR 0x09, CHR 0x0D, CHR 0x0A]"
proof -
  let ?s = "TrimSpace name" and ?blank = "[CHR '' '', CHR 0x09, CHR 0x0D, CHR 0x0A]"
  have "r = (if ?s = '''' then '''' else if ContainsAny ?s ?blank then ''[redacted]''
      else if 64 < length (runes ?s) then rune_string (take 64 (runes ?s)) else ?s)"
    using assms(1) unfolding sanitizeAlertRuleID_def maxAlertRuleIDLen_def Let_def by (rule sym)
  then consider "r = ''[redacted]''" | "\<not> ContainsAny ?s ?blank" "64 < length (runes ?s)" "r = rune_string (take 64 (runes ?s))"
    | "\<not> ContainsAny ?s ?blank" "length (runes ?s) \<le> 64" "r = ?s"
    using assms(2) by (meson not_less)
  then show ?thesis
  proof cases
    case 1
    show ?thesis unfolding 1 by (rule redacted_fits)
  next
    case 2
    have v: "\<forall>x \<in> set (take 64 (runes ?s)). valid_rune x" using runes_valid by (meson in_set_takeD)
    have "runes r = take 64 (runes ?s)" unfolding 2 by (rule runes_rune_string [OF v])
    moreover have "c \<in> set ?s" if "c \<in> set r" "byte_of c < 128" for c
    proof -
      have "byte_of c \<in> set (runes ?s)" using rune_string_small [of c] that v 2(3) by (metis in_set_takeD)
      then show ?thesis using runes_small [of "byte_of c" ?s] that(2) by (simp add: byte_of_def)
    qed
    moreover have "byte_of c < 128" if "c \<in> set ?blank" for c using that by (auto simp: byte_of_def)
    ultimately show ?thesis using 2(1) unfolding ContainsAny_def list_ex_iff by (metis length_take min.cobounded2)
  next
    case 3
    then show ?thesis by blast
  qed
qed

section \<open>Reports\<close>

lemma report_states_wf:
  assumes "gomap_wf m" "length m \<le> 64" "\<forall>(r, st) \<in> set m. r \<noteq> '''' \<and> recognised st"
  shows "gomap_wf (report_states es m) \<and> length (report_states es m) \<le> 64 \<and>
         (\<forall>(r, st) \<in> set (report_states es m). r \<noteq> '''' \<and> recognised st)"
  using assms
proof (induction es m rule: report_states.induct)
  case (2 e es m)
  let ?r = "sanitizeAlertRuleID (ce_RuleID e)"
  show ?case
  proof (cases "64 \<le> length m \<or> ?r = '''' \<or> \<not> recognised (ce_State e)")
    case True
    then show ?thesis using 2 by (auto simp: maxRuleCoverageEntries_def Let_def)
  next
    case False
    have "length (gomap_put ?r (ce_State e) m) \<le> 64"
      using gomap_put_length [of ?r "ce_State e" m] False by linarith
    moreover have "\<forall>(r, st) \<in> set (gomap_put ?r (ce_State e) m). r \<noteq> '''' \<and> recognised st"
      using 2(5) False by (auto simp: gomap_put_def)
    ultimately show ?thesis using 2(2) [OF _ refl] 2(3) False by (simp add: maxRuleCoverageEntries_def Let_def)
  qed
qed simp

lemma report_wf: "gomap_wf (report_states es [])"
  using report_states_wf [of "[]" es] by simp

lemma coverage_of_put [simp]: "coverage_of (gomap_put d m s) e = (if e = d then m else coverage_of s e)"
  by (simp add: coverage_of_def)

lemma coverage_of_Forget [simp]: "coverage_of (Forget d s) e = (if e = d then [] else coverage_of s e)"
  by (simp add: coverage_of_def Forget_def)

lemma diffCoverage_unsupported:
  assumes "gomap_wf now"
  shows "r \<in> set (dl_NowUnsupported (diffCoverage before now)) \<longleftrightarrow>
     map_of now r = Some RuleCoverageUnsupported \<and> map_of before r \<noteq> Some RuleCoverageUnsupported"
  by (auto simp: diffCoverage_def image_iff gomap_mem_map_of [OF assms] split: prod.splits)

lemma diffCoverage_active:
  assumes "gomap_wf now" "gomap_wf before"
  shows "r \<in> set (dl_NowActive (diffCoverage before now)) \<longleftrightarrow>
     map_of now r \<noteq> Some RuleCoverageUnsupported \<and> map_of before r = Some RuleCoverageUnsupported"
proof -
  have "r \<in> set (dl_NowActive (diffCoverage before now)) \<longleftrightarrow>
     (\<exists>st. (r, st) \<in> set now \<and> st \<noteq> RuleCoverageUnsupported \<and> map_of before r = Some RuleCoverageUnsupported) \<or>
     (r, RuleCoverageUnsupported) \<in> set before \<and> map_of now r = None"
    by (force simp: diffCoverage_def image_iff)
  then show ?thesis
    by (cases "map_of now r") (auto simp: gomap_mem_map_of [OF assms(1)] gomap_mem_map_of [OF assms(2)])
qed

lemma has_row_Mark:
  "has_coverage_row (MarkUnsupported refused tenant org d r rows) e q \<longleftrightarrow>
     has_coverage_row rows e q \<or> e = d \<and> q = r \<and> \<not> refused"
  by (auto simp: MarkUnsupported_def has_coverage_row_def)

lemma has_row_fold_Mark:
  "has_coverage_row (fold (\<lambda>r. MarkUnsupported (refused r) tenant org d r) rs rows) e q \<longleftrightarrow>
     has_coverage_row rows e q \<or> e = d \<and> q \<in> set rs \<and> \<not> refused q"
  by (induction rs arbitrary: rows) (auto simp: has_row_Mark)

text \<open>A device keeps to its tenant: every row of it carries the tenant of its connection.\<close>

definition rows_in_tenant :: "coverage_row list \<Rightarrow> uuid \<Rightarrow> uuid \<Rightarrow> bool" where
  "rows_in_tenant rows tenant d \<longleftrightarrow> list_all (\<lambda>row. cr_device row = d \<longrightarrow> cr_tenant row = tenant) rows"

lemma rows_in_tenant_keeps:
  "rows_in_tenant rows tenant d \<Longrightarrow> rows_in_tenant (MarkUnsupported refused tenant org d r rows) tenant d"
  "rows_in_tenant rows tenant d \<Longrightarrow> rows_in_tenant (ClearUnsupported refused tenant d r rows) tenant d"
  by (auto simp: rows_in_tenant_def MarkUnsupported_def ClearUnsupported_def list_all_iff)

lemma rows_in_tenant_fold:
  "rows_in_tenant rows tenant d \<Longrightarrow> rows_in_tenant (fold (\<lambda>r. MarkUnsupported (refused r) tenant org d r) rs rows) tenant d"
  "rows_in_tenant rows tenant d \<Longrightarrow> rows_in_tenant (fold (\<lambda>r. ClearUnsupported (refused r) tenant d r) rs rows) tenant d"
  by (induction rs arbitrary: rows) (auto intro: rows_in_tenant_keeps)

lemma has_row_Clear:
  "rows_in_tenant rows tenant d \<Longrightarrow>
     has_coverage_row (ClearUnsupported refused tenant d r rows) e q \<longleftrightarrow>
     has_coverage_row rows e q \<and> \<not> (e = d \<and> q = r \<and> \<not> refused)"
  by (auto simp: ClearUnsupported_def has_coverage_row_def list_ex_iff rows_in_tenant_def list_all_iff)

lemma has_row_fold_Clear:
  "rows_in_tenant rows tenant d \<Longrightarrow>
     has_coverage_row (fold (\<lambda>r. ClearUnsupported (refused r) tenant d r) rs rows) e q \<longleftrightarrow>
     has_coverage_row rows e q \<and> \<not> (e = d \<and> q \<in> set rs \<and> \<not> refused q)"
  by (induction rs arbitrary: rows) (auto simp: has_row_Clear rows_in_tenant_keeps)

lemma has_row_persist:
  assumes "rows_in_tenant rows tenant d"
  shows "has_coverage_row (persistRuleCoverage refused tenant org d delta rows) e q \<longleftrightarrow>
     (has_coverage_row rows e q \<or> e = d \<and> q \<in> set (dl_NowUnsupported delta) \<and> \<not> refused q) \<and>
     \<not> (e = d \<and> q \<in> set (dl_NowActive delta) \<and> \<not> refused q)"
  unfolding persistRuleCoverage_def
  by (simp only: has_row_fold_Clear [OF rows_in_tenant_fold(1) [OF assms]] has_row_fold_Mark)

text \<open>A report moves exactly the rows of the rules whose state crossed unsupported since the last one.\<close>

lemma recordRuleCoverage_rows:
  assumes "gomap_wf (coverage_of s d)" "rows_in_tenant rows tenant d"
    and r: "recordRuleCoverage refused tenant org d entries s rows = (rec, s', rows')"
  shows "s' = (if report_states entries [] = [] then s else gomap_put d (report_states entries []) s)"
    "has_coverage_row rows' e q \<longleftrightarrow>
       (if e = d \<and> report_states entries [] \<noteq> [] \<and> \<not> refused q \<and>
           (map_of (report_states entries []) q = Some RuleCoverageUnsupported) \<noteq> (map_of (coverage_of s d) q = Some RuleCoverageUnsupported)
        then map_of (report_states entries []) q = Some RuleCoverageUnsupported
        else has_coverage_row rows e q)"
    "rec \<longleftrightarrow> report_states entries [] \<noteq> []"
    "rows_in_tenant rows' tenant d"
proof -
  let ?now = "report_states entries []"
  have *: "s' = (if ?now = [] then s else gomap_put d ?now s) \<and>
      rows' = persistRuleCoverage refused tenant org d (if ?now = [] then no_delta else diffCoverage (coverage_of s d) ?now) rows \<and>
      (rec \<longleftrightarrow> ?now \<noteq> [])"
  proof (cases "entries = []")
    case True
    then show ?thesis using r by (auto simp: recordRuleCoverage_def persistRuleCoverage_def no_delta_def)
  next
    case False
    then show ?thesis using r
      by (auto simp: recordRuleCoverage_def Report_def Let_def no_delta_def diffCoverage_def split: if_splits)
  qed
  then show "s' = (if ?now = [] then s else gomap_put d ?now s)" "rec \<longleftrightarrow> ?now \<noteq> []" by blast+
  show "rows_in_tenant rows' tenant d"
    unfolding conjunct1 [OF conjunct2 [OF *]] persistRuleCoverage_def
    by (rule rows_in_tenant_fold(2) [OF rows_in_tenant_fold(1) [OF assms(2)]])
  show "has_coverage_row rows' e q \<longleftrightarrow>
       (if e = d \<and> ?now \<noteq> [] \<and> \<not> refused q \<and>
           (map_of ?now q = Some RuleCoverageUnsupported) \<noteq> (map_of (coverage_of s d) q = Some RuleCoverageUnsupported)
        then map_of ?now q = Some RuleCoverageUnsupported else has_coverage_row rows e q)"
  proof (cases "?now = []")
    case True
    then show ?thesis using * by (simp add: persistRuleCoverage_def no_delta_def)
  next
    case False
    then have rows': "rows' = persistRuleCoverage refused tenant org d (diffCoverage (coverage_of s d) ?now) rows"
      using * by simp
    show ?thesis
      unfolding rows' has_row_persist [OF assms(2)] diffCoverage_unsupported [OF report_wf] diffCoverage_active [OF report_wf assms(1)]
      using False by simp blast
  qed
qed

section \<open>Rows and reports\<close>

text \<open>The rows of a device are the rules its last report said it cannot evaluate.\<close>

definition coverage_agrees :: "coverage_row list \<Rightarrow> RuleCoverageStore \<Rightarrow> uuid \<Rightarrow> bool" where
  "coverage_agrees rows s d \<longleftrightarrow>
     (\<forall>r. has_coverage_row rows d r \<longleftrightarrow> map_of (coverage_of s d) r = Some RuleCoverageUnsupported)"

fun record_all ::
  "(string \<Rightarrow> bool) \<Rightarrow> uuid \<Rightarrow> uuid \<Rightarrow> uuid \<Rightarrow> coverage_entry list list \<Rightarrow> RuleCoverageStore \<Rightarrow> coverage_row list \<Rightarrow>
   RuleCoverageStore \<times> coverage_row list" where
  "record_all refused tenant org d [] s rows = (s, rows)"
| "record_all refused tenant org d (es # reports) s rows =
     (case recordRuleCoverage refused tenant org d es s rows of
        (rec, s', rows') \<Rightarrow> record_all refused tenant org d reports s' rows')"


definition demo_report :: "RuleCoverageState \<Rightarrow> coverage_entry list" where
  "demo_report st = [\<lparr>ce_RuleID = ''cpu'', ce_State = st\<rparr>]"

lemma sanitize_cpu: "sanitizeAlertRuleID ''cpu'' = ''cpu''"
proof -
  have b: "string_bytes ''cpu'' = [99, 112, 117]" by (simp add: string_bytes_def byte_of_def)
  have c: "chunks [99, 112, 117] = [(99, [99]), (112, [112]), (117, [117])]" by (simp add: chunks_step)
  have "TrimSpace ''cpu'' = ''cpu''"
    using bytes_string_bytes [of "''cpu''"] unfolding TrimSpace_def b c by (simp add: IsSpace_def)
  moreover have "length (runes ''cpu'') = 3" unfolding runes_def b c by simp
  ultimately show ?thesis by (simp add: sanitizeAlertRuleID_def ContainsAny_def maxAlertRuleIDLen_def)
qed

lemma demo_report_states: "recognised st \<Longrightarrow> report_states (demo_report st) [] = [(''cpu'', st)]"
  by (simp add: demo_report_def sanitize_cpu maxRuleCoverageEntries_def gomap_put_def)


text \<open>
  C40. A reconnection orphans a row. The end of a connection forgets what the machine reported, so from
  then on no report deletes the row of a rule the machine evaluates again: as long as it does not
  name the rule unsupported once more, the row stays.
\<close>

theorem reconnect_orphans_row:
  assumes "gomap_wf (coverage_of s d)" "rows_in_tenant rows tenant d" "has_coverage_row rows d r"
    and "list_all (\<lambda>es. map_of (report_states es []) r \<noteq> Some RuleCoverageUnsupported) reports"
    and "record_all refused tenant org d reports (Forget d s) rows = (s', rows')"
  shows "has_coverage_row rows' d r"
proof -
  have "has_coverage_row rows' d r"
    if "gomap_wf (coverage_of s d)" "map_of (coverage_of s d) r \<noteq> Some RuleCoverageUnsupported"
      "record_all refused tenant org d reports s rows = (s', rows')" for s
    using that assms(2-4)
  proof (induction reports arbitrary: s rows)
    case (Cons es reports)
    obtain rec s1 rows1 where 1: "recordRuleCoverage refused tenant org d es s rows = (rec, s1, rows1)" by (metis prod_cases3)
    note rows = recordRuleCoverage_rows [OF Cons.prems(1,4) 1]
    have now: "coverage_of s1 d = (if report_states es [] = [] then coverage_of s d else report_states es [])"
      unfolding rows(1) by simp
    have "gomap_wf (coverage_of s1 d)" "map_of (coverage_of s1 d) r \<noteq> Some RuleCoverageUnsupported"
      using now report_wf Cons.prems by simp_all
    moreover have "has_coverage_row rows1 d r" unfolding rows(2) using Cons.prems by simp
    ultimately show ?case using Cons.IH [OF _ _ _ rows(4)] Cons.prems 1 by simp
  qed simp
  from this [OF _ _ assms(5)] show ?thesis by simp
qed

theorem reconnect_orphans_row_witness:
  "has_coverage_row
     (snd (record_all (\<lambda>_. False) 1 2 3 [demo_report RuleCoverageActive]
             (Forget 3 [(3, [(''cpu'', RuleCoverageUnsupported)])])
             [\<lparr>cr_tenant = 1, cr_organization = 2, cr_device = 3, cr_rule = ''cpu''\<rparr>])) 3 ''cpu''"
  by (rule reconnect_orphans_row [OF _ _ _ _ surjective_pairing, where
        rows = "[\<lparr>cr_tenant = 1, cr_organization = 2, cr_device = 3, cr_rule = ''cpu''\<rparr>]"])
    (simp_all add: coverage_of_def gomap_wf_def rows_in_tenant_def has_coverage_row_def demo_report_states)

section \<open>The split\<close>

text \<open>How many of the machines in the store say a rule is in a state of the given kind.\<close>

definition reporting :: "(RuleCoverageState \<Rightarrow> bool) \<Rightarrow> RuleCoverageStore \<Rightarrow> string \<Rightarrow> int" where
  "reporting P s r = int (length (filter (\<lambda>(d, m). \<exists>st. map_of m r = Some st \<and> P st) s))"

fun counts_active :: "RuleCoverageState \<Rightarrow> bool" where
  "counts_active RuleCoverageThrottled = False"
| "counts_active RuleCoverageUnsupported = False"
| "counts_active _ = True"

text \<open>The counts of a rule after one more entry, and after the entries of one machine.\<close>

lemma map_of_count_state:
  "map_of (count_state e m) r =
     (if r = fst e
      then Some ((counts_at m r)\<lparr>rc_Active := rc_Active (counts_at m r) + (if counts_active (snd e) then 1 else 0),
                   rc_Throttled := rc_Throttled (counts_at m r) + (if snd e = RuleCoverageThrottled then 1 else 0)\<rparr>)
      else map_of m r)"
  by (cases "snd e") (auto simp: count_state_def Let_def)

lemma map_of_count_device:
  assumes "gomap_wf states"
  shows "map_of (fold count_state states m) r =
     (case map_of states r of
        None \<Rightarrow> map_of m r
      | Some st \<Rightarrow> Some ((counts_at m r)\<lparr>rc_Active := rc_Active (counts_at m r) + (if counts_active st then 1 else 0),
                   rc_Throttled := rc_Throttled (counts_at m r) + (if st = RuleCoverageThrottled then 1 else 0)\<rparr>))"
  using assms
proof (induction states arbitrary: m)
  case (Cons e states)
  have wf: "gomap_wf states" and new: "map_of states (fst e) = None"
    using Cons.prems by (auto simp: gomap_wf_def map_of_eq_None_iff)
  have at: "counts_at (count_state e m) r = counts_at m r" if "r \<noteq> fst e"
    using that by (simp add: counts_at_def map_of_count_state)
  show ?case
    using Cons.IH [OF wf, of "count_state e m"] new at
    by (cases e) (auto simp: map_of_count_state split: option.splits)
qed simp

definition live_counts :: "RuleCoverageStore \<Rightarrow> (string, RuleCoverageCounts) gomap \<Rightarrow> (string, RuleCoverageCounts) gomap" where
  "live_counts s m = fold (\<lambda>(d, states). fold count_state states) s m"

lemma reporting_Cons:
  "reporting P ((d, m) # s) r = (case map_of m r of Some st \<Rightarrow> if P st then 1 else 0 | None \<Rightarrow> 0) + reporting P s r"
  by (auto simp: reporting_def split: option.splits)

lemma counts_at_live:
  assumes "list_all (\<lambda>(d, m). gomap_wf m) s"
  shows "counts_at (live_counts s m) r =
     (counts_at m r)\<lparr>rc_Active := rc_Active (counts_at m r) + reporting counts_active s r,
                     rc_Throttled := rc_Throttled (counts_at m r) + reporting (\<lambda>st. st = RuleCoverageThrottled) s r\<rparr> \<and>
     (map_of (live_counts s m) r = None \<longleftrightarrow> map_of m r = None \<and> reporting (\<lambda>_. True) s r = 0)"
  using assms
proof (induction s arbitrary: m)
  case Nil
  then show ?case by (simp add: live_counts_def reporting_def)
next
  case (Cons e s)
  obtain d states where e: "e = (d, states)" by fastforce
  let ?m = "fold count_state states m"
  have wf: "gomap_wf states" and s: "list_all (\<lambda>(d, m). gomap_wf m) s" using Cons.prems by (auto simp: e)
  have step: "live_counts ((d, states) # s) m = live_counts s ?m" by (simp add: live_counts_def)
  have at: "counts_at ?m r = (case map_of states r of None \<Rightarrow> counts_at m r
      | Some st \<Rightarrow> (counts_at m r)\<lparr>rc_Active := rc_Active (counts_at m r) + (if counts_active st then 1 else 0),
                   rc_Throttled := rc_Throttled (counts_at m r) + (if st = RuleCoverageThrottled then 1 else 0)\<rparr>)"
    unfolding counts_at_def [of ?m] map_of_count_device [OF wf] by (auto simp: counts_at_def split: option.splits)
  have nn: "0 \<le> reporting (\<lambda>_. True) s r" by (simp add: reporting_def)
  show ?case
    unfolding e step reporting_Cons using Cons.IH [OF s, of ?m] nn unfolding at map_of_count_device [OF wf]
    by (cases "map_of states r") (simp_all add: ac_simps)
qed

lemma map_of_put_unsupported:
  assumes "gomap_wf uns"
  shows "map_of (fold (\<lambda>(r, n) m. gomap_put r ((counts_at m r)\<lparr>rc_Unsupported := n\<rparr>) m) uns m) r =
     (case map_of uns r of None \<Rightarrow> map_of m r | Some n \<Rightarrow> Some ((counts_at m r)\<lparr>rc_Unsupported := n\<rparr>))"
  using assms
proof (induction uns arbitrary: m)
  case (Cons e uns)
  obtain q n where e: "e = (q, n)" by fastforce
  have wf: "gomap_wf uns" and new: "map_of uns q = None"
    using Cons.prems by (auto simp: e gomap_wf_def map_of_eq_None_iff)
  show ?case using Cons.IH [OF wf] new by (auto simp: e counts_at_def split: option.splits)
qed simp

lemma map_of_Aggregate:
  assumes "list_all (\<lambda>(d, m). gomap_wf m) s" "gomap_wf uns"
  shows "map_of (Aggregate n uns s) r =
     (if reporting (\<lambda>_. True) s r = 0 \<and> map_of uns r = None then None
      else Some (count_unknown n
             \<lparr>rc_Active = reporting counts_active s r, rc_Throttled = reporting (\<lambda>st. st = RuleCoverageThrottled) s r,
              rc_Unsupported = (case map_of uns r of None \<Rightarrow> 0 | Some k \<Rightarrow> k), rc_Unknown = 0\<rparr>))"
proof -
  have live: "counts_at (live_counts s []) r =
      \<lparr>rc_Active = reporting counts_active s r, rc_Throttled = reporting (\<lambda>st. st = RuleCoverageThrottled) s r,
       rc_Unsupported = 0, rc_Unknown = 0\<rparr>" "map_of (live_counts s []) r = None \<longleftrightarrow> reporting (\<lambda>_. True) s r = 0"
    using counts_at_live [OF assms(1), of "[]" r] by (simp_all add: counts_at_def no_counts_def)
  have some: "map_of (live_counts s []) r = Some (counts_at (live_counts s []) r)" if "map_of (live_counts s []) r \<noteq> None"
    using that by (auto simp: counts_at_def)
  have "map_of (Aggregate n uns s) r = map_option (count_unknown n)
      (case map_of uns r of None \<Rightarrow> map_of (live_counts s []) r
       | Some k \<Rightarrow> Some ((counts_at (live_counts s []) r)\<lparr>rc_Unsupported := k\<rparr>))"
    unfolding Aggregate_def Let_def live_counts_def [symmetric] map_of_map [unfolded comp_def] map_of_put_unsupported [OF assms(2)] ..
  then show ?thesis using live some by (cases "map_of uns r") auto
qed



text \<open>
  The split of one customer counts the machines of every customer: only the unsupported count
  depends on whose split it is.
\<close>

lemma RuleCoverage_mixes_customers:
  assumes "list_all (\<lambda>(d, m). gomap_wf m) s"
  shows "rc_Active (counts_at (RuleCoverage refused tenant org n rows s) r) =
         (if reporting (\<lambda>_. True) s r = 0 then 0 else reporting counts_active s r)"
proof -
  have wf: "gomap_wf (if refused then [] else CountUnsupported tenant org rows)"
    by (simp add: CountUnsupported_def Let_def gomap_wf_def comp_def)
  have "reporting counts_active s r = 0" if "reporting (\<lambda>_. True) s r = 0"
    using that by (auto simp: reporting_def filter_empty_conv)
  then show ?thesis unfolding RuleCoverage_def counts_at_def map_of_Aggregate [OF assms wf]
    by (auto simp: no_counts_def count_unknown_def Let_def)
qed

end
