(* ===== verification/Agent_Server.thy ===== *)
theory Agent_Server
  imports Cert_Properties Backfill_Scheduler Status_Gate Rule_Coverage
begin

text \<open>
  The connections of the agent server, \<open>server/internal/agentapi/server.go\<close>, \<open>server_connection.go\<close> and
  \<open>deregister.go\<close>: every connection is a thread that is admitted by its certificate, closes what it
  supersedes, registers, serves messages and unregisters. The steps are cut where the code takes a
  lock, touches a concurrent map or writes to the database, and the threads interleave.
\<close>

section \<open>State\<close>

text \<open>
  Where the thread of a connection is. The gate is held from \<open>PcRegistering\<close> until the swap, and from
  \<open>PcReleaseHeld\<close> until the status is written or the connection turns out to be replaced.
\<close>

datatype conn_pc =
    PcHandshaken "x509_cert list"
  | PcAdmitted admission
  | PcMarked bool "fingerprint list"
  | PcReady
  | PcRegistering
  | PcAnnounce
  | PcServing
  | PcHandling
  | PcInstalled "fingerprint list"
  | PcRestricted
  | PcReleasing
  | PcReleaseHeld
  | PcOffline
  | PcEnding
  | PcGone

text \<open>
  \<open>ac_host\<close> is the address \<open>remoteHost\<close> gives. \<open>ac_online\<close> records that the connection has written the
  device's status, \<open>ac_granted\<close> that the machine was told to drain, and \<open>ac_ordered\<close> that it was sent
  its removal order; closing the stream ends the server's sending side only.
\<close>

record agent_conn =
  ac_DeviceID :: uuid
  ac_TenantID :: uuid
  ac_certFP :: fingerprint
  ac_host :: string
  ac_closed :: bool
  ac_sendClosed :: bool
  ac_ordered :: bool
  ac_released :: bool
  ac_online :: bool
  ac_granted :: bool
  ac_pc :: conn_pc

record agent_server =
  sv_heap :: "agent_conn list"
  sv_conns :: "(uuid, addr) gomap"
  sv_restricted :: "addr list"
  sv_count :: int
  sv_gate :: "(uuid, addr) gomap"
  sv_retiring :: "(addr \<times> addr) list"
  sv_tombstones :: "uuid list"
  sv_status :: "(uuid, bool) gomap"
  sv_shared :: "(uuid, string list) gomap"
  sv_events :: "(uuid \<times> bool) list"
  sv_scheduler :: BackfillScheduler
  sv_coverage :: RuleCoverageStore
  sv_rows :: "coverage_row list"
  sv_ledger :: Ledger

abbreviation conn_at :: "agent_server \<Rightarrow> addr \<Rightarrow> agent_conn" where
  "conn_at s a \<equiv> sv_heap s ! a"

definition set_conn :: "addr \<Rightarrow> agent_conn \<Rightarrow> agent_server \<Rightarrow> agent_server" where
  "set_conn a c s = s\<lparr>sv_heap := (sv_heap s)[a := c]\<rparr>"

definition set_pc :: "addr \<Rightarrow> conn_pc \<Rightarrow> agent_server \<Rightarrow> agent_server" where
  "set_pc a pc s = set_conn a ((conn_at s a)\<lparr>ac_pc := pc\<rparr>) s"

section \<open>Admission\<close>

definition isTombstoned :: "agent_server \<Rightarrow> uuid \<Rightarrow> bool" where
  "isTombstoned s d = (d \<in> set (sv_tombstones s))"

text \<open>A connection whose handshake is complete, for the device its certificate names.\<close>

definition conn_arrives :: "uuid \<Rightarrow> uuid \<Rightarrow> string \<Rightarrow> x509_cert list \<Rightarrow> agent_server \<Rightarrow> agent_server" where
  "conn_arrives d tenant host peer s =
     s\<lparr>sv_heap := sv_heap s @ [\<lparr>ac_DeviceID = d, ac_TenantID = tenant, ac_certFP = [], ac_host = host, ac_closed = False,
                               ac_sendClosed = False, ac_ordered = False, ac_released = False,
                               ac_online = False, ac_granted = False, ac_pc = PcHandshaken peer\<rparr>]\<rparr>"

text \<open>A deleted machine is sent its removal order and a refused one is closed; neither goes further.\<close>

definition accept_admit :: "pki_ops \<Rightarrow> Manager \<Rightarrow> instant \<Rightarrow> bool \<Rightarrow> addr \<Rightarrow> agent_server \<Rightarrow> agent_server option" where
  "accept_admit ops m now unsent a s =
     (case ac_pc (conn_at s a) of
        PcHandshaken peer \<Rightarrow>
          Some (if isTombstoned s (ac_DeviceID (conn_at s a))
                then set_conn a ((conn_at s a)\<lparr>ac_closed := True, ac_sendClosed := True, ac_ordered := \<not> unsent, ac_pc := PcGone\<rparr>) s
                else (let verdict = admit ops m now (Some (sv_ledger s)) peer in
                      if ad_refusal verdict \<noteq> ''''
                      then set_conn a ((conn_at s a)\<lparr>ac_closed := True, ac_pc := PcGone\<rparr>) s
                      else set_conn a ((conn_at s a)\<lparr>ac_certFP := ad_fp verdict, ac_pc := PcAdmitted verdict\<rparr>) s))
      | _ \<Rightarrow> None)"

definition accept_mark :: "addr \<Rightarrow> agent_server \<Rightarrow> agent_server option" where
  "accept_mark a s =
     (case ac_pc (conn_at s a) of
        PcAdmitted verdict \<Rightarrow>
          (case MarkSeen (ad_fp verdict) (sv_ledger s) of
             (older, l) \<Rightarrow> Some (set_pc a (PcMarked (restricted verdict) older) (s\<lparr>sv_ledger := l\<rparr>)))
      | _ \<Rightarrow> None)"

text \<open>\<open>eachLiveConn\<close> visits the registered connections and the restricted ones.\<close>

definition eachLiveConn :: "agent_server \<Rightarrow> addr list" where
  "eachLiveConn s = map snd (sv_conns s) @ sv_restricted s"

definition closeSuperseded :: "fingerprint list \<Rightarrow> agent_server \<Rightarrow> agent_server" where
  "closeSuperseded prints s =
     fold (\<lambda>a s. if ac_certFP (conn_at s a) \<in> set prints then set_conn a ((conn_at s a)\<lparr>ac_closed := True\<rparr>) s else s)
       (eachLiveConn s) s"

definition accept_close :: "addr \<Rightarrow> agent_server \<Rightarrow> agent_server option" where
  "accept_close a s =
     (case ac_pc (conn_at s a) of
        PcMarked restr older \<Rightarrow>
          (let s' = closeSuperseded older s in
           Some (if restr then set_pc a PcRestricted (s'\<lparr>sv_restricted := a # sv_restricted s'\<rparr>)
                 else set_pc a PcReady s'))
      | _ \<Rightarrow> None)"

definition serveRestricted_end :: "addr \<Rightarrow> agent_server \<Rightarrow> agent_server option" where
  "serveRestricted_end a s =
     (if ac_pc (conn_at s a) = PcRestricted
      then Some (set_conn a ((conn_at s a)\<lparr>ac_closed := True, ac_pc := PcGone\<rparr>)
                   (s\<lparr>sv_restricted := filter (\<lambda>b. b \<noteq> a) (sv_restricted s)\<rparr>))
      else None)"

section \<open>Registering\<close>

definition register_enter :: "addr \<Rightarrow> agent_server \<Rightarrow> agent_server option" where
  "register_enter a s =
     (let d = ac_DeviceID (conn_at s a) in
      if ac_pc (conn_at s a) = PcReady \<and> map_of (sv_gate s) d = None
      then Some (set_pc a PcRegistering (s\<lparr>sv_gate := gomap_put d a (sv_gate s)\<rparr>))
      else None)"

definition registerConn :: "addr \<Rightarrow> agent_server \<Rightarrow> agent_server option" where
  "registerConn a s =
     (let d = ac_DeviceID (conn_at s a) in
      if ac_pc (conn_at s a) = PcRegistering
      then Some (set_pc a PcAnnounce
             (s\<lparr>sv_conns := gomap_put d a (sv_conns s),
                sv_count := (if map_of (sv_conns s) d = None then sv_count s + 1 else sv_count s),
                sv_gate := gomap_del d (sv_gate s),
                sv_retiring := (case map_of (sv_conns s) d of None \<Rightarrow> sv_retiring s | Some o' \<Rightarrow> (o', a) # sv_retiring s)\<rparr>))
      else None)"

text \<open>The online event, sent outside the gate.\<close>

definition announce :: "addr \<Rightarrow> agent_server \<Rightarrow> agent_server option" where
  "announce a s =
     (if ac_pc (conn_at s a) = PcAnnounce
      then Some (set_pc a PcServing (s\<lparr>sv_events := sv_events s @ [(ac_DeviceID (conn_at s a), True)]\<rparr>))
      else None)"

text \<open>
  The background closing of a replaced connection. \<open>answers\<close> says whether it answered the ping, and then
  the two addresses are recorded on the device's row, if it has one and the statement is not \<open>refused\<close>.
\<close>

definition retire :: "bool \<Rightarrow> bool \<Rightarrow> addr \<Rightarrow> addr \<Rightarrow> agent_server \<Rightarrow> agent_server option" where
  "retire answers refused older newer s =
     (let d = ac_DeviceID (conn_at s older) in
      if (older, newer) \<in> set (sv_retiring s)
      then Some (set_conn older ((conn_at s older)\<lparr>ac_closed := True\<rparr>)
             (s\<lparr>sv_retiring := remove1 (older, newer) (sv_retiring s),
                sv_shared := (if answers \<and> \<not> refused \<and> map_of (sv_status s) d \<noteq> None
                              then gomap_put d [ac_host (conn_at s older), ac_host (conn_at s newer)] (sv_shared s)
                              else sv_shared s)\<rparr>))
      else None)"

section \<open>Serving\<close>

definition serve_read :: "addr \<Rightarrow> agent_server \<Rightarrow> agent_server option" where
  "serve_read a s =
     (if ac_pc (conn_at s a) = PcServing \<and> \<not> ac_closed (conn_at s a) then Some (set_pc a PcHandling s) else None)"

text \<open>
  The control loop ends at any time; the teardown begins by releasing the connection, its backfill slot
  and what the device reported about its rules.
\<close>

definition unregisterConn :: "addr \<Rightarrow> agent_server \<Rightarrow> agent_server option" where
  "unregisterConn a s =
     (if ac_pc (conn_at s a) = PcServing
      then Some (set_conn a ((conn_at s a)\<lparr>ac_released := True, ac_pc := PcReleasing\<rparr>)
                   (s\<lparr>sv_scheduler := Release (ac_DeviceID (conn_at s a)) (sv_scheduler s),
                      sv_coverage := Forget (ac_DeviceID (conn_at s a)) (sv_coverage s)\<rparr>))
      else None)"

text \<open>
  A registration or a heartbeat sets the device online. \<open>refused\<close> is a statement that fails, which
  ends the control loop; a deleted device's message is dropped. A registration writes the row and then
  its status once more, and a heartbeat fails when there is no row.
\<close>

definition serve_online :: "bool \<Rightarrow> addr \<Rightarrow> agent_server \<Rightarrow> agent_server option" where
  "serve_online refused a s =
     (let d = ac_DeviceID (conn_at s a) in
      if ac_pc (conn_at s a) \<noteq> PcHandling then None
      else if isTombstoned s d then Some (set_pc a PcServing s)
      else if refused then unregisterConn a (set_pc a PcServing s)
      else Some (set_conn a ((conn_at s a)\<lparr>ac_online := True, ac_pc := PcServing\<rparr>)
                   (s\<lparr>sv_status := gomap_put d True (sv_status s)\<rparr>)))"

definition serve_register :: "bool \<Rightarrow> bool \<Rightarrow> addr \<Rightarrow> agent_server \<Rightarrow> agent_server option" where
  "serve_register upsertRefused statusRefused a s =
     (if \<not> upsertRefused \<and> statusRefused \<and> \<not> isTombstoned s (ac_DeviceID (conn_at s a))
      then Option.bind (serve_online False a s) (unregisterConn a)
      else serve_online upsertRefused a s)"

definition serve_heartbeat :: "bool \<Rightarrow> addr \<Rightarrow> agent_server \<Rightarrow> agent_server option" where
  "serve_heartbeat refused a s = serve_online (refused \<or> map_of (sv_status s) (ac_DeviceID (conn_at s a)) = None) a s"

text \<open>The part of a health summary that reports on the rules, of a device in the organization \<open>org\<close>.\<close>

definition serve_coverage ::
  "(string \<Rightarrow> bool) \<Rightarrow> uuid \<Rightarrow> coverage_entry list \<Rightarrow> addr \<Rightarrow> agent_server \<Rightarrow> agent_server option" where
  "serve_coverage refused org entries a s =
     (let c = conn_at s a in
      if ac_pc c \<noteq> PcHandling then None
      else if isTombstoned s (ac_DeviceID c) then Some (set_pc a PcServing s)
      else (case recordRuleCoverage refused (ac_TenantID c) org (ac_DeviceID c) entries (sv_coverage s) (sv_rows s) of
              (_, cov, rows) \<Rightarrow> Some (set_pc a PcServing (s\<lparr>sv_coverage := cov, sv_rows := rows\<rparr>))))"

definition serve_slot ::
  "BackfillSchedulerConfig \<Rightarrow> rat \<Rightarrow> instant \<Rightarrow> addr \<Rightarrow> agent_server \<Rightarrow> agent_server option" where
  "serve_slot cfg headroom now a s =
     (let c = conn_at s a in
      if ac_pc c \<noteq> PcHandling then None
      else if isTombstoned s (ac_DeviceID c) then Some (set_pc a PcServing s)
      else (case RequestSlot cfg headroom now (ac_DeviceID c) (ac_TenantID c) (sv_scheduler s) of
              (d, sched) \<Rightarrow>
                Some (set_conn a (c\<lparr>ac_granted := bd_Grant d, ac_pc := PcServing\<rparr>) (s\<lparr>sv_scheduler := sched\<rparr>))))"

definition serve_other :: "addr \<Rightarrow> agent_server \<Rightarrow> agent_server option" where
  "serve_other a s = (if ac_pc (conn_at s a) = PcHandling then Some (set_pc a PcServing s) else None)"

text \<open>An install notice for the certificate \<open>fp\<close> issued on this connection, then the closing of what it supersedes.\<close>

definition serve_installed :: "bool \<Rightarrow> fingerprint \<Rightarrow> instant \<Rightarrow> addr \<Rightarrow> agent_server \<Rightarrow> agent_server option" where
  "serve_installed refused fp now a s =
     (if ac_pc (conn_at s a) = PcHandling
      then (case MarkInstalled refused fp now (sv_ledger s) of
              ((older, _), l) \<Rightarrow>
                Some (set_conn a ((conn_at s a)\<lparr>ac_certFP := fp, ac_pc := PcInstalled older\<rparr>) (s\<lparr>sv_ledger := l\<rparr>)))
      else None)"

definition serve_close :: "addr \<Rightarrow> agent_server \<Rightarrow> agent_server option" where
  "serve_close a s =
     (case ac_pc (conn_at s a) of
        PcInstalled older \<Rightarrow> Some (set_pc a PcServing (closeSuperseded older s))
      | _ \<Rightarrow> None)"

section \<open>Unregistering\<close>

definition release_enter :: "addr \<Rightarrow> agent_server \<Rightarrow> agent_server option" where
  "release_enter a s =
     (let d = ac_DeviceID (conn_at s a) in
      if ac_pc (conn_at s a) = PcReleasing \<and> map_of (sv_gate s) d = None
      then Some (set_pc a PcReleaseHeld (s\<lparr>sv_gate := gomap_put d a (sv_gate s)\<rparr>))
      else None)"

definition releaseDeviceStatus :: "addr \<Rightarrow> agent_server \<Rightarrow> agent_server option" where
  "releaseDeviceStatus a s =
     (let d = ac_DeviceID (conn_at s a) in
      if ac_pc (conn_at s a) \<noteq> PcReleaseHeld then None
      else if map_of (sv_conns s) d = Some a
      then Some (set_pc a PcOffline (s\<lparr>sv_conns := gomap_del d (sv_conns s), sv_count := sv_count s - 1\<rparr>))
      else Some (set_pc a PcEnding (s\<lparr>sv_gate := gomap_del d (sv_gate s)\<rparr>)))"

text \<open>The status of a device that has no row stays unwritten.\<close>

definition release_offline :: "bool \<Rightarrow> addr \<Rightarrow> agent_server \<Rightarrow> agent_server option" where
  "release_offline refused a s =
     (let d = ac_DeviceID (conn_at s a) in
      if ac_pc (conn_at s a) = PcOffline
      then Some (set_pc a PcEnding
             (s\<lparr>sv_gate := gomap_del d (sv_gate s),
                sv_status := (if refused \<or> map_of (sv_status s) d = None then sv_status s
                              else gomap_put d False (sv_status s)),
                sv_events := sv_events s @ [(d, False)]\<rparr>))
      else None)"

definition conn_ends :: "addr \<Rightarrow> agent_server \<Rightarrow> agent_server option" where
  "conn_ends a s =
     (if ac_pc (conn_at s a) = PcEnding
      then Some (set_conn a ((conn_at s a)\<lparr>ac_closed := True, ac_pc := PcGone\<rparr>) s) else None)"

section \<open>The other callers\<close>

definition GetAgent :: "agent_server \<Rightarrow> uuid \<Rightarrow> addr option" where
  "GetAgent s d = map_of (sv_conns s) d"

definition tombstone :: "uuid \<Rightarrow> agent_server \<Rightarrow> agent_server" where
  "tombstone d s = s\<lparr>sv_tombstones := d # sv_tombstones s\<rparr>"

text \<open>The removal order is not sent on a released connection; \<open>unsent\<close> is a write that fails.\<close>

definition order_removal :: "bool \<Rightarrow> uuid \<Rightarrow> agent_server \<Rightarrow> agent_server" where
  "order_removal unsent d s =
     (case GetAgent s d of
        None \<Rightarrow> s
      | Some a \<Rightarrow> set_conn a ((conn_at s a)\<lparr>ac_sendClosed := True,
                     ac_ordered := ac_ordered (conn_at s a) \<or> \<not> unsent \<and> \<not> ac_released (conn_at s a)\<rparr>) s)"

definition DeregisterAgent :: "bool \<Rightarrow> uuid \<Rightarrow> agent_server \<Rightarrow> agent_server" where
  "DeregisterAgent unsent d s = order_removal unsent d (tombstone d s)"

definition ListConnectedAgents :: "agent_server \<Rightarrow> addr list" where
  "ListConnectedAgents s = map snd (sv_conns s)"

definition DeregisterTenant :: "(uuid \<Rightarrow> bool) \<Rightarrow> uuid \<Rightarrow> agent_server \<Rightarrow> agent_server" where
  "DeregisterTenant unsent tenant s =
     fold (\<lambda>a s. if ac_TenantID (conn_at s a) = tenant
                 then DeregisterAgent (unsent (ac_DeviceID (conn_at s a))) (ac_DeviceID (conn_at s a)) s else s)
       (ListConnectedAgents s) s"

text \<open>The row of a device is deleted by the administrator, and with it the rows kept for its rules.\<close>

definition device_Delete :: "uuid \<Rightarrow> agent_server \<Rightarrow> agent_server" where
  "device_Delete d s =
     s\<lparr>sv_status := gomap_del d (sv_status s), sv_rows := filter (\<lambda>row. cr_device row \<noteq> d) (sv_rows s)\<rparr>"

definition ConnectedAgentCount :: "agent_server \<Rightarrow> int" where
  "ConnectedAgentCount s = sv_count s"

section \<open>Interleaving\<close>

datatype agent_action =
    Arrive uuid uuid string "x509_cert list"
  | Admit instant bool addr
  | Mark addr
  | Close addr
  | RestrictedEnd addr
  | EnterRegister addr
  | Register addr
  | Announce addr
  | Retire bool bool addr addr
  | Read addr
  | Online bool bool addr
  | Heartbeat bool addr
  | Coverage "string \<Rightarrow> bool" uuid "coverage_entry list" addr
  | Slot BackfillSchedulerConfig rat instant addr
  | Other addr
  | Installed bool fingerprint instant addr
  | InstalledClose addr
  | Unregister addr
  | EnterRelease addr
  | ReleaseStatus addr
  | Offline bool addr
  | End addr
  | Tombstone uuid
  | OrderRemoval bool uuid
  | DeleteDevice uuid

fun action_conn :: "agent_action \<Rightarrow> addr option" where
  "action_conn (Admit now unsent a) = Some a"
| "action_conn (Mark a) = Some a"
| "action_conn (Close a) = Some a"
| "action_conn (RestrictedEnd a) = Some a"
| "action_conn (EnterRegister a) = Some a"
| "action_conn (Register a) = Some a"
| "action_conn (Announce a) = Some a"
| "action_conn (Retire answers refused a b) = Some a"
| "action_conn (Read a) = Some a"
| "action_conn (Online upsertRefused statusRefused a) = Some a"
| "action_conn (Heartbeat refused a) = Some a"
| "action_conn (Coverage refused' org entries a) = Some a"
| "action_conn (Slot cfg headroom now a) = Some a"
| "action_conn (Other a) = Some a"
| "action_conn (Installed refused fp now a) = Some a"
| "action_conn (InstalledClose a) = Some a"
| "action_conn (Unregister a) = Some a"
| "action_conn (EnterRelease a) = Some a"
| "action_conn (ReleaseStatus a) = Some a"
| "action_conn (Offline refused a) = Some a"
| "action_conn (End a) = Some a"
| "action_conn _ = None"

fun agent_effect :: "pki_ops \<Rightarrow> Manager \<Rightarrow> agent_action \<Rightarrow> agent_server \<Rightarrow> agent_server option" where
  "agent_effect ops m (Arrive d tenant host peer) s = Some (conn_arrives d tenant host peer s)"
| "agent_effect ops m (Admit now unsent a) s = accept_admit ops m now unsent a s"
| "agent_effect ops m (Mark a) s = accept_mark a s"
| "agent_effect ops m (Close a) s = accept_close a s"
| "agent_effect ops m (RestrictedEnd a) s = serveRestricted_end a s"
| "agent_effect ops m (EnterRegister a) s = register_enter a s"
| "agent_effect ops m (Register a) s = registerConn a s"
| "agent_effect ops m (Announce a) s = announce a s"
| "agent_effect ops m (Retire answers refused a b) s = retire answers refused a b s"
| "agent_effect ops m (Read a) s = serve_read a s"
| "agent_effect ops m (Online upsertRefused statusRefused a) s = serve_register upsertRefused statusRefused a s"
| "agent_effect ops m (Heartbeat refused a) s = serve_heartbeat refused a s"
| "agent_effect ops m (Coverage refused' org entries a) s = serve_coverage refused' org entries a s"
| "agent_effect ops m (Slot cfg headroom now a) s = serve_slot cfg headroom now a s"
| "agent_effect ops m (Other a) s = serve_other a s"
| "agent_effect ops m (Installed refused fp now a) s = serve_installed refused fp now a s"
| "agent_effect ops m (InstalledClose a) s = serve_close a s"
| "agent_effect ops m (Unregister a) s = unregisterConn a s"
| "agent_effect ops m (EnterRelease a) s = release_enter a s"
| "agent_effect ops m (ReleaseStatus a) s = releaseDeviceStatus a s"
| "agent_effect ops m (Offline refused a) s = release_offline refused a s"
| "agent_effect ops m (End a) s = conn_ends a s"
| "agent_effect ops m (Tombstone d) s = Some (tombstone d s)"
| "agent_effect ops m (OrderRemoval unsent d) s = Some (order_removal unsent d s)"
| "agent_effect ops m (DeleteDevice d) s = Some (device_Delete d s)"

definition agent_do :: "pki_ops \<Rightarrow> Manager \<Rightarrow> agent_action \<Rightarrow> agent_server \<Rightarrow> agent_server option" where
  "agent_do ops m act s =
     (case action_conn act of
        None \<Rightarrow> agent_effect ops m act s
      | Some a \<Rightarrow> if a < length (sv_heap s) then agent_effect ops m act s else None)"

text \<open>Between the steps of the connections the ledger takes any step of its own and the administrator deletes devices.\<close>

inductive agent_step :: "pki_ops \<Rightarrow> Manager \<Rightarrow> agent_server \<Rightarrow> agent_server \<Rightarrow> bool" for ops m where
  agent_acts: "agent_do ops m act s = Some s' \<Longrightarrow> agent_step ops m s s'"
| agent_ledger: "ledger_step (pki_ledger ops) (sv_ledger s) l \<Longrightarrow> agent_step ops m s (s\<lparr>sv_ledger := l\<rparr>)"

text \<open>The server starts with the ledger and the deny-list it warmed up and the rows in the tables.\<close>

definition NewAgentServer :: "Ledger \<Rightarrow> uuid list \<Rightarrow> (uuid, bool) gomap \<Rightarrow> coverage_row list \<Rightarrow> agent_server" where
  "NewAgentServer l tombstones status rows =
     \<lparr>sv_heap = [], sv_conns = [], sv_restricted = [], sv_count = 0, sv_gate = [], sv_retiring = [],
      sv_tombstones = tombstones, sv_status = status, sv_shared = [], sv_events = [],
      sv_scheduler = NewBackfillScheduler, sv_coverage = NewRuleCoverageStore, sv_rows = rows, sv_ledger = l\<rparr>"

definition agent_start :: "agent_server \<Rightarrow> bool" where
  "agent_start s \<longleftrightarrow> (\<exists>l tombstones status rows. ledger_start l \<and> s = NewAgentServer l tombstones status rows)"

fun agent_run :: "pki_ops \<Rightarrow> Manager \<Rightarrow> agent_action list \<Rightarrow> agent_server \<Rightarrow> agent_server option" where
  "agent_run ops m [] s = Some s"
| "agent_run ops m (act # acts) s =
     (case agent_do ops m act s of None \<Rightarrow> None | Some s' \<Rightarrow> agent_run ops m acts s')"

lemma agent_run_reachable:
  "reachable agent_start (agent_step ops m) s \<Longrightarrow> agent_run ops m acts s = Some s' \<Longrightarrow>
   reachable agent_start (agent_step ops m) s'"
proof (induction acts arbitrary: s)
  case (Cons act acts)
  then obtain s1 where "agent_do ops m act s = Some s1" "agent_run ops m acts s1 = Some s'"
    by (auto split: option.splits)
  then show ?case using Cons.IH reachable_step [OF Cons.prems(1) agent_acts] by blast
qed simp

section \<open>The invariant of the registry\<close>

fun pc_holds_gate :: "conn_pc \<Rightarrow> bool" where
  "pc_holds_gate PcRegistering = True"
| "pc_holds_gate PcReleaseHeld = True"
| "pc_holds_gate PcOffline = True"
| "pc_holds_gate _ = False"

fun pc_listed :: "conn_pc \<Rightarrow> bool" where
  "pc_listed PcAnnounce = True"
| "pc_listed PcServing = True"
| "pc_listed PcHandling = True"
| "pc_listed (PcInstalled older) = True"
| "pc_listed PcReleasing = True"
| "pc_listed PcReleaseHeld = True"
| "pc_listed _ = False"

fun pc_early :: "conn_pc \<Rightarrow> bool" where
  "pc_early (PcHandshaken peer) = True"
| "pc_early (PcAdmitted verdict) = True"
| "pc_early (PcMarked restr older) = True"
| "pc_early PcReady = True"
| "pc_early PcRegistering = True"
| "pc_early _ = False"

text \<open>
  The map names connections of their own device that have registered and are not past their release;
  the gate of a device is held by the connection that is inside it; and no status is written offline
  while a connection of the device is in the map.
\<close>

definition agent_inv :: "agent_server \<Rightarrow> bool" where
  "agent_inv s \<longleftrightarrow>
     gomap_wf (sv_conns s) \<and> sv_count s = int (length (sv_conns s)) \<and>
     (\<forall>d a. map_of (sv_conns s) d = Some a \<longrightarrow>
        a < length (sv_heap s) \<and> ac_DeviceID (conn_at s a) = d \<and> pc_listed (ac_pc (conn_at s a)) \<and>
        (ac_online (conn_at s a) \<longrightarrow> map_of (sv_status s) d \<noteq> Some False)) \<and>
     (\<forall>a < length (sv_heap s). pc_holds_gate (ac_pc (conn_at s a)) \<longrightarrow> map_of (sv_gate s) (ac_DeviceID (conn_at s a)) = Some a) \<and>
     (\<forall>a < length (sv_heap s). ac_pc (conn_at s a) = PcOffline \<longrightarrow> map_of (sv_conns s) (ac_DeviceID (conn_at s a)) = None) \<and>
     (\<forall>a < length (sv_heap s). pc_early (ac_pc (conn_at s a)) \<longrightarrow> \<not> ac_online (conn_at s a))"

lemma agent_invD:
  assumes "agent_inv s"
  shows "gomap_wf (sv_conns s)" "sv_count s = int (length (sv_conns s))"
    "map_of (sv_conns s) d = Some a \<Longrightarrow> a < length (sv_heap s)"
    "map_of (sv_conns s) d = Some a \<Longrightarrow> ac_DeviceID (conn_at s a) = d"
    "map_of (sv_conns s) d = Some a \<Longrightarrow> pc_listed (ac_pc (conn_at s a))"
    "map_of (sv_conns s) d = Some a \<Longrightarrow> ac_online (conn_at s a) \<Longrightarrow> map_of (sv_status s) d \<noteq> Some False"
    "a < length (sv_heap s) \<Longrightarrow> pc_holds_gate (ac_pc (conn_at s a)) \<Longrightarrow> map_of (sv_gate s) (ac_DeviceID (conn_at s a)) = Some a"
    "a < length (sv_heap s) \<Longrightarrow> ac_pc (conn_at s a) = PcOffline \<Longrightarrow> map_of (sv_conns s) (ac_DeviceID (conn_at s a)) = None"
    "a < length (sv_heap s) \<Longrightarrow> pc_early (ac_pc (conn_at s a)) \<Longrightarrow> \<not> ac_online (conn_at s a)"
  using assms unfolding agent_inv_def by blast+

text \<open>What the invariant reads of a connection.\<close>

definition conn_view :: "agent_conn \<Rightarrow> uuid \<times> bool \<times> conn_pc" where
  "conn_view c = (ac_DeviceID c, ac_online c, ac_pc c)"

lemma agent_inv_same:
  assumes v: "map conn_view (sv_heap s') = map conn_view (sv_heap s)"
    and e: "sv_conns s' = sv_conns s" "sv_count s' = sv_count s" "sv_gate s' = sv_gate s" "sv_status s' = sv_status s"
    and inv: "agent_inv s"
  shows "agent_inv s'"
proof -
  have len: "length (sv_heap s') = length (sv_heap s)" using v by (metis length_map)
  then have "conn_view (conn_at s' a) = conn_view (conn_at s a)" if "a < length (sv_heap s)" for a
    using v that by (metis nth_map)
  then have c: "ac_DeviceID (conn_at s' a) = ac_DeviceID (conn_at s a)" "ac_online (conn_at s' a) = ac_online (conn_at s a)"
    "ac_pc (conn_at s' a) = ac_pc (conn_at s a)" if "a < length (sv_heap s)" for a
    using that by (auto simp: conn_view_def)
  show ?thesis unfolding agent_inv_def len e
  proof (intro conjI allI impI)
    fix d a assume a: "map_of (sv_conns s) d = Some a"
    show l: "a < length (sv_heap s)" using a by (rule agent_invD(3) [OF inv])
    show "ac_DeviceID (conn_at s' a) = d" "pc_listed (ac_pc (conn_at s' a))"
      using agent_invD(4,5) [OF inv a] by (simp_all add: c [OF l])
    assume "ac_online (conn_at s' a)"
    then show "map_of (sv_status s) d \<noteq> Some False" using agent_invD(6) [OF inv a] by (simp add: c [OF l])
  next
    fix a assume a: "a < length (sv_heap s)"
    { assume "pc_holds_gate (ac_pc (conn_at s' a))"
      then show "map_of (sv_gate s) (ac_DeviceID (conn_at s' a)) = Some a" using agent_invD(7) [OF inv a] by (simp add: c [OF a]) }
    { assume "ac_pc (conn_at s' a) = PcOffline"
      then show "map_of (sv_conns s) (ac_DeviceID (conn_at s' a)) = None" using agent_invD(8) [OF inv a] by (simp add: c [OF a]) }
    { assume "pc_early (ac_pc (conn_at s' a))"
      then show "\<not> ac_online (conn_at s' a)" using agent_invD(9) [OF inv a] by (simp add: c [OF a]) }
  qed (rule agent_invD(1,2) [OF inv])+
qed

lemma agent_inv_cong:
  assumes "map conn_view (sv_heap s') = map conn_view (sv_heap s)"
    "sv_conns s' = sv_conns s" "sv_count s' = sv_count s" "sv_gate s' = sv_gate s" "sv_status s' = sv_status s"
  shows "agent_inv s' = agent_inv s"
  using agent_inv_same [OF assms] agent_inv_same [OF assms [symmetric]] by blast

lemma agent_inv_rest [simp]:
  "agent_inv (s\<lparr>sv_restricted := r\<rparr>) = agent_inv s" "agent_inv (s\<lparr>sv_retiring := rt\<rparr>) = agent_inv s"
  "agent_inv (s\<lparr>sv_tombstones := ts\<rparr>) = agent_inv s" "agent_inv (s\<lparr>sv_scheduler := sc\<rparr>) = agent_inv s"
  "agent_inv (s\<lparr>sv_ledger := l\<rparr>) = agent_inv s" "agent_inv (s\<lparr>sv_shared := sh\<rparr>) = agent_inv s"
  "agent_inv (s\<lparr>sv_events := ev\<rparr>) = agent_inv s" "agent_inv (s\<lparr>sv_coverage := cov\<rparr>) = agent_inv s"
  "agent_inv (s\<lparr>sv_rows := rows\<rparr>) = agent_inv s"
  by (rule agent_inv_cong, simp_all)+

text \<open>A connection that moves on without entering or leaving the gate or writing a status.\<close>

lemma agent_inv_moves:
  assumes inv: "agent_inv s" and a: "a < length (sv_heap s)"
    and c: "ac_DeviceID c = ac_DeviceID (conn_at s a)" "ac_online c \<longrightarrow> ac_online (conn_at s a)"
    "\<not> pc_holds_gate (ac_pc c)" "pc_listed (ac_pc (conn_at s a)) \<longrightarrow> pc_listed (ac_pc c)"
    "pc_early (ac_pc c) \<longrightarrow> pc_early (ac_pc (conn_at s a))"
  shows "agent_inv (set_conn a c s)"
proof -
  let ?s = "set_conn a c s"
  have at': "conn_at ?s b = (if b = a then c else conn_at s b)" for b using a by (simp add: set_conn_def)
  have rest: "sv_conns ?s = sv_conns s" "sv_count ?s = sv_count s" "sv_gate ?s = sv_gate s" "sv_status ?s = sv_status s"
    "length (sv_heap ?s) = length (sv_heap s)" by (simp_all add: set_conn_def)
  have off: "ac_pc c \<noteq> PcOffline" using c(3) by auto
  show ?thesis unfolding agent_inv_def rest
  proof (intro conjI allI impI)
    fix d b assume b: "map_of (sv_conns s) d = Some b"
    show "b < length (sv_heap s)" "ac_DeviceID (conn_at ?s b) = d" "pc_listed (ac_pc (conn_at ?s b))"
      using agent_invD(3,4,5) [OF inv b] c by (auto simp: at')
    assume "ac_online (conn_at ?s b)"
    then have "ac_online (conn_at s b)" using c(2) by (auto simp: at' split: if_splits)
    then show "map_of (sv_status s) d \<noteq> Some False" by (rule agent_invD(6) [OF inv b])
  next
    fix b assume b: "b < length (sv_heap s)"
    { assume h: "pc_holds_gate (ac_pc (conn_at ?s b))"
      then have "b \<noteq> a" using c(3) by (auto simp: at')
      then show "map_of (sv_gate s) (ac_DeviceID (conn_at ?s b)) = Some b" using h agent_invD(7) [OF inv b] by (simp add: at') }
    { assume h: "ac_pc (conn_at ?s b) = PcOffline"
      then have "b \<noteq> a" using off by (auto simp: at')
      then show "map_of (sv_conns s) (ac_DeviceID (conn_at ?s b)) = None" using h agent_invD(8) [OF inv b] by (simp add: at') }
    { assume "pc_early (ac_pc (conn_at ?s b))"
      then show "\<not> ac_online (conn_at ?s b)" using agent_invD(9) [OF inv b] c(2,5) by (auto simp: at' split: if_splits) }
  qed (rule agent_invD(1,2) [OF inv])+
qed

lemma agent_inv_pc:
  assumes "agent_inv s" "a < length (sv_heap s)" "\<not> pc_holds_gate pc" "pc_listed (ac_pc (conn_at s a)) \<longrightarrow> pc_listed pc"
    "pc_early pc \<longrightarrow> pc_early (ac_pc (conn_at s a))"
  shows "agent_inv (set_pc a pc s)"
  unfolding set_pc_def by (rule agent_inv_moves [OF assms(1,2)]) (use assms in simp_all)

lemma closeSuperseded_view:
  "map conn_view (sv_heap (closeSuperseded prints s)) = map conn_view (sv_heap s)"
  "sv_conns (closeSuperseded prints s) = sv_conns s" "sv_count (closeSuperseded prints s) = sv_count s"
  "sv_gate (closeSuperseded prints s) = sv_gate s" "sv_status (closeSuperseded prints s) = sv_status s"
  "sv_restricted (closeSuperseded prints s) = sv_restricted s" "sv_ledger (closeSuperseded prints s) = sv_ledger s"
proof -
  let ?f = "\<lambda>a s. if ac_certFP (conn_at s a) \<in> set prints then set_conn a ((conn_at s a)\<lparr>ac_closed := True\<rparr>) s else s"
  have "map conn_view (sv_heap (?f a s)) = map conn_view (sv_heap s)" for a s
  proof (cases "a < length (sv_heap s)")
    case True
    then show ?thesis by (simp add: set_conn_def map_update conn_view_def list_update_same_conv)
  next
    case False
    then show ?thesis by (simp add: set_conn_def list_update_beyond)
  qed
  then have "map conn_view (sv_heap (fold ?f as s)) = map conn_view (sv_heap s)" for as
    by (induction as arbitrary: s) simp_all
  then show "map conn_view (sv_heap (closeSuperseded prints s)) = map conn_view (sv_heap s)"
    by (simp only: closeSuperseded_def)
  have "sv_conns (fold ?f as s) = sv_conns s \<and> sv_count (fold ?f as s) = sv_count s \<and> sv_gate (fold ?f as s) = sv_gate s \<and>
      sv_status (fold ?f as s) = sv_status s \<and> sv_restricted (fold ?f as s) = sv_restricted s \<and>
      sv_ledger (fold ?f as s) = sv_ledger s" for as
    by (induction as arbitrary: s) (simp_all add: set_conn_def)
  then show "sv_conns (closeSuperseded prints s) = sv_conns s" "sv_count (closeSuperseded prints s) = sv_count s"
    "sv_gate (closeSuperseded prints s) = sv_gate s" "sv_status (closeSuperseded prints s) = sv_status s"
    "sv_restricted (closeSuperseded prints s) = sv_restricted s" "sv_ledger (closeSuperseded prints s) = sv_ledger s"
    by (simp_all only: closeSuperseded_def)
qed

lemma closeSuperseded_inv: "agent_inv (closeSuperseded prints s) = agent_inv s"
  by (rule agent_inv_cong) (rule closeSuperseded_view)+

lemma closeSuperseded_pc:
  assumes "a < length (sv_heap s)"
  shows "length (sv_heap (closeSuperseded prints s)) = length (sv_heap s)"
    "ac_pc (conn_at (closeSuperseded prints s) a) = ac_pc (conn_at s a)"
proof -
  show len: "length (sv_heap (closeSuperseded prints s)) = length (sv_heap s)"
    using closeSuperseded_view(1) by (metis length_map)
  have "conn_view (conn_at (closeSuperseded prints s) a) = conn_view (conn_at s a)"
    using closeSuperseded_view(1) assms len by (metis nth_map)
  then show "ac_pc (conn_at (closeSuperseded prints s) a) = ac_pc (conn_at s a)" by (simp add: conn_view_def)
qed

text \<open>Entering the gate when it is free.\<close>

lemma agent_inv_enters:
  assumes inv: "agent_inv s" and a: "a < length (sv_heap s)" and free: "map_of (sv_gate s) (ac_DeviceID (conn_at s a)) = None"
    and pc: "pc_listed (ac_pc (conn_at s a)) \<longrightarrow> pc_listed pc" "pc \<noteq> PcOffline" "pc_early pc \<longrightarrow> pc_early (ac_pc (conn_at s a))"
  shows "agent_inv (set_pc a pc (s\<lparr>sv_gate := gomap_put (ac_DeviceID (conn_at s a)) a (sv_gate s)\<rparr>))"
proof -
  let ?s = "set_pc a pc (s\<lparr>sv_gate := gomap_put (ac_DeviceID (conn_at s a)) a (sv_gate s)\<rparr>)"
  have at': "conn_at ?s b = (if b = a then (conn_at s a)\<lparr>ac_pc := pc\<rparr> else conn_at s b)" for b
    using a by (simp add: set_pc_def set_conn_def)
  have rest: "sv_conns ?s = sv_conns s" "sv_count ?s = sv_count s" "sv_status ?s = sv_status s" "length (sv_heap ?s) = length (sv_heap s)"
    by (simp_all add: set_pc_def set_conn_def)
  have gate: "map_of (sv_gate ?s) d = (if d = ac_DeviceID (conn_at s a) then Some a else map_of (sv_gate s) d)" for d
    by (simp add: set_pc_def set_conn_def)
  show ?thesis unfolding agent_inv_def rest
  proof (intro conjI allI impI)
    fix d b assume b: "map_of (sv_conns s) d = Some b"
    show "b < length (sv_heap s)" "ac_DeviceID (conn_at ?s b) = d" "pc_listed (ac_pc (conn_at ?s b))"
      using agent_invD(3,4,5) [OF inv b] pc by (auto simp: at')
    assume "ac_online (conn_at ?s b)"
    then show "map_of (sv_status s) d \<noteq> Some False" using agent_invD(6) [OF inv b] by (auto simp: at' split: if_splits)
  next
    fix b assume b: "b < length (sv_heap s)"
    { assume h: "pc_holds_gate (ac_pc (conn_at ?s b))"
      show "map_of (sv_gate ?s) (ac_DeviceID (conn_at ?s b)) = Some b"
      proof (cases "b = a")
        case True
        then show ?thesis by (simp add: at' gate)
      next
        case False
        then have "map_of (sv_gate s) (ac_DeviceID (conn_at s b)) = Some b" using h agent_invD(7) [OF inv b] by (simp add: at')
        then show ?thesis using free False by (auto simp: at' gate)
      qed }
    { assume h: "ac_pc (conn_at ?s b) = PcOffline"
      then show "map_of (sv_conns s) (ac_DeviceID (conn_at ?s b)) = None"
        using agent_invD(8) [OF inv b] pc(2) by (auto simp: at' split: if_splits) }
    { assume "pc_early (ac_pc (conn_at ?s b))"
      then show "\<not> ac_online (conn_at ?s b)" using agent_invD(9) [OF inv b] pc(3) by (auto simp: at' split: if_splits) }
  qed (rule agent_invD(1,2) [OF inv])+
qed

text \<open>
  Leaving the gate: the thread inside changes what the map and the table hold for its device, and no
  other thread is inside.
\<close>

lemma agent_inv_leaves:
  assumes inv: "agent_inv s" and a: "a < length (sv_heap s)" and g: "pc_holds_gate (ac_pc (conn_at s a))"
    and d: "d = ac_DeviceID (conn_at s a)"
    and G: "\<And>x. x \<noteq> d \<Longrightarrow> map_of G x = map_of (sv_gate s) x" and pcG: "pc_holds_gate pc \<longrightarrow> map_of G d = Some a"
    and K: "gomap_wf K" "n = int (length K)" "\<And>x. x \<noteq> d \<Longrightarrow> map_of K x = map_of (sv_conns s) x"
      "\<And>b. map_of K d = Some b \<Longrightarrow> b = a \<and> pc_listed pc \<and> \<not> ac_online (conn_at s a) \<or> b \<noteq> a \<and> map_of (sv_conns s) d = Some b"
    and S: "\<And>x. x \<noteq> d \<or> map_of K d \<noteq> None \<Longrightarrow> map_of S x = map_of (sv_status s) x"
    and off: "pc = PcOffline \<longrightarrow> map_of K d = None" "\<not> pc_early pc"
    and s': "s' = s\<lparr>sv_conns := K, sv_count := n, sv_gate := G, sv_retiring := rt, sv_status := S\<rparr>"
  shows "agent_inv (set_pc a pc s')"
proof -
  let ?s = "set_pc a pc s'"
  have at': "conn_at ?s b = (if b = a then (conn_at s a)\<lparr>ac_pc := pc\<rparr> else conn_at s b)" for b
    using a by (simp add: set_pc_def set_conn_def s')
  have rest: "sv_conns ?s = K" "sv_count ?s = n" "sv_status ?s = S" "sv_gate ?s = G" "length (sv_heap ?s) = length (sv_heap s)"
    by (simp_all add: set_pc_def set_conn_def s')
  have alone: "b = a" if "b < length (sv_heap s)" "pc_holds_gate (ac_pc (conn_at s b))" "ac_DeviceID (conn_at s b) = d" for b
  proof -
    have "map_of (sv_gate s) d = Some b" using agent_invD(7) [OF inv that(1,2)] unfolding that(3) .
    moreover have "map_of (sv_gate s) d = Some a" unfolding d by (rule agent_invD(7) [OF inv a g])
    ultimately show "b = a" by simp
  qed
  have listed: "b < length (sv_heap s) \<and> ac_DeviceID (conn_at ?s b) = x \<and> pc_listed (ac_pc (conn_at ?s b)) \<and>
      (ac_online (conn_at ?s b) \<longrightarrow> map_of S x \<noteq> Some False)" if b: "map_of K x = Some b" for x b
  proof (cases "x = d \<and> b = a")
    case True
    then have "pc_listed pc" "\<not> ac_online (conn_at s a)" using K(4) [of a] b by simp_all
    then show ?thesis using True a d by (simp add: at')
  next
    case False
    then have o: "map_of (sv_conns s) x = Some b" using b K(3) [of x] K(4) [of b] by (cases "x = d") auto
    have x: "ac_DeviceID (conn_at s b) = x" by (rule agent_invD(4) [OF inv o])
    then have "b \<noteq> a" using False d by auto
    moreover have "map_of S x = map_of (sv_status s) x" using S [of x] b by (cases "x = d") auto
    ultimately show ?thesis using agent_invD(3,5,6) [OF inv o] x by (simp add: at')
  qed
  show ?thesis unfolding agent_inv_def rest
  proof (intro conjI allI impI)
    fix x b assume b: "map_of K x = Some b"
    show "b < length (sv_heap s)" "ac_DeviceID (conn_at ?s b) = x" "pc_listed (ac_pc (conn_at ?s b))" using listed [OF b] by blast+
    assume "ac_online (conn_at ?s b)"
    then show "map_of S x \<noteq> Some False" using listed [OF b] by blast
  next
    fix b assume b: "b < length (sv_heap s)"
    { assume h: "pc_holds_gate (ac_pc (conn_at ?s b))"
      show "map_of G (ac_DeviceID (conn_at ?s b)) = Some b"
      proof (cases "b = a")
        case True
        then show ?thesis using h pcG d by (simp add: at')
      next
        case False
        then have "map_of (sv_gate s) (ac_DeviceID (conn_at s b)) = Some b" "ac_DeviceID (conn_at s b) \<noteq> d"
          using h agent_invD(7) [OF inv b] alone [OF b] False unfolding at' by (simp_all, blast)
        then show ?thesis using G [of "ac_DeviceID (conn_at s b)"] False by (simp add: at')
      qed }
    { assume h: "ac_pc (conn_at ?s b) = PcOffline"
      show "map_of K (ac_DeviceID (conn_at ?s b)) = None"
      proof (cases "b = a")
        case True
        then have "conn_at ?s b = (conn_at s a)\<lparr>ac_pc := pc\<rparr>" by (simp add: at')
        then show ?thesis using h off(1) unfolding d by simp
      next
        case False
        then have p: "ac_pc (conn_at s b) = PcOffline" using h by (simp add: at')
        then have "map_of (sv_conns s) (ac_DeviceID (conn_at s b)) = None" by (rule agent_invD(8) [OF inv b])
        moreover have "ac_DeviceID (conn_at s b) \<noteq> d" using alone [OF b] p False by auto
        ultimately show ?thesis using K(3) [of "ac_DeviceID (conn_at s b)"] False by (simp add: at')
      qed }
    { assume "pc_early (ac_pc (conn_at ?s b))"
      then show "\<not> ac_online (conn_at ?s b)" using agent_invD(9) [OF inv b] off by (auto simp: at' split: if_splits) }
  qed (rule K(1), rule K(2))
qed

lemma registerConn_inv:
  assumes inv: "agent_inv s" and a: "a < length (sv_heap s)" and r: "registerConn a s = Some s'"
  shows "agent_inv s'"
proof -
  let ?d = "ac_DeviceID (conn_at s a)"
  have pc: "ac_pc (conn_at s a) = PcRegistering" using r by (auto simp: registerConn_def Let_def split: if_splits)
  define s1 where "s1 = s\<lparr>sv_conns := gomap_put ?d a (sv_conns s),
      sv_count := (if map_of (sv_conns s) ?d = None then sv_count s + 1 else sv_count s),
      sv_gate := gomap_del ?d (sv_gate s),
      sv_retiring := (case map_of (sv_conns s) ?d of None \<Rightarrow> sv_retiring s | Some o' \<Rightarrow> (o', a) # sv_retiring s)\<rparr>"
  have s': "s' = set_pc a PcAnnounce s1"
    using r pc by (simp add: registerConn_def Let_def s1_def split del: if_split)
  have n: "(if map_of (sv_conns s) ?d = None then sv_count s + 1 else sv_count s) = int (length (gomap_put ?d a (sv_conns s)))"
  proof (cases "map_of (sv_conns s) ?d")
    case None
    then show ?thesis using gomap_del_none [OF None] agent_invD(2) [OF inv] by (simp add: gomap_put_def gomap_del_def)
  next
    case (Some o')
    then show ?thesis using length_gomap_del [OF agent_invD(1) [OF inv] Some, of "\<lambda>p. True"] agent_invD(2) [OF inv]
      by (simp add: gomap_put_def gomap_del_def)
  qed
  have on: "\<not> ac_online (conn_at s a)" using agent_invD(9) [OF inv a] pc by simp
  show ?thesis unfolding s'
    by (rule agent_inv_leaves [OF inv a _ refl _ _ _ n, where S = "sv_status s"])
      (use pc on agent_invD(1) [OF inv] in \<open>simp_all add: s1_def\<close>)
qed

lemma releaseDeviceStatus_inv:
  assumes inv: "agent_inv s" and a: "a < length (sv_heap s)" and r: "releaseDeviceStatus a s = Some s'"
  shows "agent_inv s'"
proof -
  let ?d = "ac_DeviceID (conn_at s a)"
  have pc: "ac_pc (conn_at s a) = PcReleaseHeld" using r by (auto simp: releaseDeviceStatus_def Let_def split: if_splits)
  have gate: "map_of (sv_gate s) ?d = Some a" using agent_invD(7) [OF inv a] pc by simp
  show ?thesis
  proof (cases "map_of (sv_conns s) ?d = Some a")
    case True
    define s1 where "s1 = s\<lparr>sv_conns := gomap_del ?d (sv_conns s), sv_count := sv_count s - 1\<rparr>"
    have s': "s' = set_pc a PcOffline s1" using r pc True by (simp add: releaseDeviceStatus_def Let_def s1_def)
    have n: "sv_count s - 1 = int (length (gomap_del ?d (sv_conns s)))"
      using length_gomap_del [OF agent_invD(1) [OF inv] True, of "\<lambda>p. True"] agent_invD(2) [OF inv] by simp
    show ?thesis unfolding s'
      by (rule agent_inv_leaves [OF inv a _ refl _ _ _ n, where S = "sv_status s" and G = "sv_gate s" and rt = "sv_retiring s"])
        (use pc gate agent_invD(1) [OF inv] in \<open>simp_all add: s1_def\<close>)
  next
    case False
    define s1 where "s1 = s\<lparr>sv_gate := gomap_del ?d (sv_gate s)\<rparr>"
    have s': "s' = set_pc a PcEnding s1" using r pc False by (simp add: releaseDeviceStatus_def Let_def s1_def)
    have o: "b \<noteq> a" if "map_of (sv_conns s) ?d = Some b" for b using that False by auto
    show ?thesis unfolding s'
      by (rule agent_inv_leaves [OF inv a _ refl, where S = "sv_status s" and K = "sv_conns s" and n = "sv_count s" and rt = "sv_retiring s" and G = "gomap_del ?d (sv_gate s)"])
        (use pc o agent_invD(1,2) [OF inv] in \<open>simp_all add: s1_def\<close>)
  qed
qed

lemma release_offline_inv:
  assumes inv: "agent_inv s" and a: "a < length (sv_heap s)" and r: "release_offline refused a s = Some s'"
  shows "agent_inv s'"
proof -
  let ?d = "ac_DeviceID (conn_at s a)"
  have pc: "ac_pc (conn_at s a) = PcOffline" using r by (auto simp: release_offline_def Let_def split: if_splits)
  have none: "map_of (sv_conns s) ?d = None" by (rule agent_invD(8) [OF inv a pc])
  define S where "S = (if refused \<or> map_of (sv_status s) ?d = None then sv_status s else gomap_put ?d False (sv_status s))"
  define s1 where "s1 = s\<lparr>sv_gate := gomap_del ?d (sv_gate s), sv_status := S\<rparr>"
  have "s' = set_pc a PcEnding (s1\<lparr>sv_events := sv_events s @ [(?d, False)]\<rparr>)"
    using r pc by (simp add: release_offline_def Let_def s1_def S_def)
  then have s': "s' = (set_pc a PcEnding s1)\<lparr>sv_events := sv_events s @ [(?d, False)]\<rparr>"
    by (cases s1) (simp add: set_pc_def set_conn_def)
  have S: "map_of S x = map_of (sv_status s) x" if "x \<noteq> ?d" for x using that by (simp add: S_def)
  show ?thesis unfolding s' agent_inv_rest
    by (rule agent_inv_leaves [OF inv a _ refl, where S = S and K = "sv_conns s" and n = "sv_count s" and rt = "sv_retiring s" and G = "gomap_del ?d (sv_gate s)"])
      (use pc none S agent_invD(1,2) [OF inv] in \<open>simp_all add: s1_def\<close>)
qed

lemma conn_arrives_inv:
  assumes inv: "agent_inv s"
  shows "agent_inv (conn_arrives d tenant host peer s)"
proof -
  let ?s = "conn_arrives d tenant host peer s"
  obtain c where c: "sv_heap ?s = sv_heap s @ [c]" "ac_pc c = PcHandshaken peer" "\<not> ac_online c"
    by (simp add: conn_arrives_def)
  have rest: "sv_conns ?s = sv_conns s" "sv_count ?s = sv_count s" "sv_gate ?s = sv_gate s" "sv_status ?s = sv_status s"
    by (simp_all add: conn_arrives_def)
  show ?thesis unfolding agent_inv_def rest c(1) length_append_singleton
  proof (intro conjI allI impI)
    fix x b assume b: "map_of (sv_conns s) x = Some b"
    have l: "b < length (sv_heap s)" by (rule agent_invD(3) [OF inv b])
    show "b < Suc (length (sv_heap s))" "ac_DeviceID ((sv_heap s @ [c]) ! b) = x" "pc_listed (ac_pc ((sv_heap s @ [c]) ! b))"
      using agent_invD(4,5) [OF inv b] l by (simp_all add: nth_append)
    assume "ac_online ((sv_heap s @ [c]) ! b)"
    then show "map_of (sv_status s) x \<noteq> Some False" using agent_invD(6) [OF inv b] l by (simp add: nth_append)
  next
    fix b assume b: "b < Suc (length (sv_heap s))"
    have "map_of (sv_gate s) (ac_DeviceID ((sv_heap s @ [c]) ! b)) = Some b \<or> \<not> pc_holds_gate (ac_pc ((sv_heap s @ [c]) ! b))"
      "map_of (sv_conns s) (ac_DeviceID ((sv_heap s @ [c]) ! b)) = None \<or> ac_pc ((sv_heap s @ [c]) ! b) \<noteq> PcOffline"
      "\<not> ac_online ((sv_heap s @ [c]) ! b) \<or> \<not> pc_early (ac_pc ((sv_heap s @ [c]) ! b))"
      using b agent_invD(7,8,9) [OF inv, of b] c(2,3)
      by (cases "b = length (sv_heap s)"; auto simp: nth_append)+
    then show "pc_holds_gate (ac_pc ((sv_heap s @ [c]) ! b)) \<Longrightarrow> map_of (sv_gate s) (ac_DeviceID ((sv_heap s @ [c]) ! b)) = Some b"
      "ac_pc ((sv_heap s @ [c]) ! b) = PcOffline \<Longrightarrow> map_of (sv_conns s) (ac_DeviceID ((sv_heap s @ [c]) ! b)) = None"
      "pc_early (ac_pc ((sv_heap s @ [c]) ! b)) \<Longrightarrow> \<not> ac_online ((sv_heap s @ [c]) ! b)" by blast+
  qed (rule agent_invD(1,2) [OF inv])+
qed

lemma serve_online_inv:
  assumes inv: "agent_inv s" and a: "a < length (sv_heap s)" and pc: "ac_pc (conn_at s a) = PcHandling"
  shows "agent_inv (set_conn a ((conn_at s a)\<lparr>ac_online := True, ac_pc := PcServing\<rparr>)
           (s\<lparr>sv_status := gomap_put (ac_DeviceID (conn_at s a)) True (sv_status s)\<rparr>))" (is "agent_inv ?s")
proof -
  let ?d = "ac_DeviceID (conn_at s a)"
  have at': "conn_at ?s b = (if b = a then (conn_at s a)\<lparr>ac_online := True, ac_pc := PcServing\<rparr> else conn_at s b)" for b
    using a by (simp add: set_conn_def)
  have rest: "sv_conns ?s = sv_conns s" "sv_count ?s = sv_count s" "sv_gate ?s = sv_gate s" "length (sv_heap ?s) = length (sv_heap s)"
    "sv_status ?s = gomap_put ?d True (sv_status s)"
    by (simp_all add: set_conn_def)
  show ?thesis unfolding agent_inv_def rest
  proof (intro conjI allI impI)
    fix x b assume b: "map_of (sv_conns s) x = Some b"
    show "b < length (sv_heap s)" "ac_DeviceID (conn_at ?s b) = x" "pc_listed (ac_pc (conn_at ?s b))"
      using agent_invD(3,4,5) [OF inv b] by (auto simp: at')
    assume "ac_online (conn_at ?s b)"
    then show "map_of (gomap_put ?d True (sv_status s)) x \<noteq> Some False"
      using agent_invD(4,6) [OF inv b] by (cases "b = a") (auto simp: at')
  next
    fix b assume b: "b < length (sv_heap s)"
    show "map_of (sv_gate s) (ac_DeviceID (conn_at ?s b)) = Some b" if "pc_holds_gate (ac_pc (conn_at ?s b))"
      using that agent_invD(7) [OF inv b] by (cases "b = a") (simp_all add: at')
    show "map_of (sv_conns s) (ac_DeviceID (conn_at ?s b)) = None" if "ac_pc (conn_at ?s b) = PcOffline"
      using that agent_invD(8) [OF inv b] by (cases "b = a") (simp_all add: at')
    show "\<not> ac_online (conn_at ?s b)" if "pc_early (ac_pc (conn_at ?s b))"
      using that agent_invD(9) [OF inv b] by (cases "b = a") (simp_all add: at')
  qed (rule agent_invD(1,2) [OF inv])+
qed

lemma device_Delete_inv:
  assumes inv: "agent_inv s"
  shows "agent_inv (device_Delete d s)"
proof -
  have rest: "sv_heap (device_Delete d s) = sv_heap s" "sv_conns (device_Delete d s) = sv_conns s"
    "sv_count (device_Delete d s) = sv_count s" "sv_gate (device_Delete d s) = sv_gate s"
    "map_of (sv_status (device_Delete d s)) = (map_of (sv_status s))(d := None)"
    by (simp_all add: device_Delete_def)
  show ?thesis using inv unfolding agent_inv_def rest by (simp add: fun_upd_def)
qed

lemma accept_inv:
  assumes "agent_inv s" "a < length (sv_heap s)"
  shows "accept_admit ops m now unsent a s = Some s' \<Longrightarrow> agent_inv s'"
    "accept_mark a s = Some s' \<Longrightarrow> agent_inv s'"
    "accept_close a s = Some s' \<Longrightarrow> agent_inv s'"
    "serveRestricted_end a s = Some s' \<Longrightarrow> agent_inv s'"
proof -
  show "agent_inv s'" if "accept_admit ops m now unsent a s = Some s'"
  proof (cases "ac_pc (conn_at s a)")
    case (PcHandshaken peer)
    then show ?thesis using that assms
      by (auto simp: accept_admit_def Let_def split: if_splits intro!: agent_inv_moves)
  qed (use that in \<open>simp_all add: accept_admit_def\<close>)
  show "agent_inv s'" if "accept_mark a s = Some s'"
  proof (cases "ac_pc (conn_at s a)")
    case (PcAdmitted verdict)
    then show ?thesis using that assms
      by (auto simp: accept_mark_def split: prod.splits intro!: agent_inv_pc)
  qed (use that in \<open>simp_all add: accept_mark_def\<close>)
  show "agent_inv s'" if "accept_close a s = Some s'"
  proof (cases "ac_pc (conn_at s a)")
    case (PcMarked restr older)
    then show ?thesis using that assms
      by (auto simp: accept_close_def Let_def closeSuperseded_inv closeSuperseded_pc intro!: agent_inv_pc)
  qed (use that in \<open>simp_all add: accept_close_def\<close>)
  show "agent_inv s'" if "serveRestricted_end a s = Some s'"
    using that assms by (auto simp: serveRestricted_end_def split: if_splits intro!: agent_inv_moves)
qed

lemma unregisterConn_inv:
  assumes "agent_inv s" "a < length (sv_heap s)" "unregisterConn a s = Some s'"
  shows "agent_inv s'"
  using assms by (auto simp: unregisterConn_def split: if_splits intro!: agent_inv_moves)

lemma set_pc_simps [simp]:
  "length (sv_heap (set_pc a pc s)) = length (sv_heap s)"
  "b < length (sv_heap s) \<Longrightarrow> conn_at (set_pc a pc s) b = (if b = a then (conn_at s a)\<lparr>ac_pc := pc\<rparr> else conn_at s b)"
  by (simp_all add: set_pc_def set_conn_def)

lemma serve_inv:
  assumes "agent_inv s" "a < length (sv_heap s)"
  shows "serve_read a s = Some s' \<Longrightarrow> agent_inv s'"
    "serve_online refused a s = Some s' \<Longrightarrow> agent_inv s'"
    "serve_coverage refused' org entries a s = Some s' \<Longrightarrow> agent_inv s'"
    "serve_slot cfg headroom now a s = Some s' \<Longrightarrow> agent_inv s'"
    "serve_other a s = Some s' \<Longrightarrow> agent_inv s'"
    "serve_installed refused fp now a s = Some s' \<Longrightarrow> agent_inv s'"
    "serve_close a s = Some s' \<Longrightarrow> agent_inv s'"
    "announce a s = Some s' \<Longrightarrow> agent_inv s'"
    "conn_ends a s = Some s' \<Longrightarrow> agent_inv s'"
proof -
  have serving: "agent_inv (set_pc a PcServing t)"
    if "agent_inv t" "a < length (sv_heap t)" "ac_pc (conn_at t a) \<in> {PcHandling, PcAnnounce}" for t
    using that by (auto intro!: agent_inv_pc)
  show "agent_inv s'" if "serve_read a s = Some s'"
    using that assms by (auto simp: serve_read_def split: if_splits intro!: agent_inv_pc)
  show "agent_inv s'" if r: "serve_online refused a s = Some s'"
  proof -
    have pc: "ac_pc (conn_at s a) = PcHandling" using r by (auto simp: serve_online_def Let_def split: if_splits)
    consider "s' = set_pc a PcServing s" | "unregisterConn a (set_pc a PcServing s) = Some s'"
      | "s' = set_conn a ((conn_at s a)\<lparr>ac_online := True, ac_pc := PcServing\<rparr>)
           (s\<lparr>sv_status := gomap_put (ac_DeviceID (conn_at s a)) True (sv_status s)\<rparr>)"
      using r pc unfolding serve_online_def Let_def
      by (cases "isTombstoned s (ac_DeviceID (conn_at s a))"; cases refused) simp_all
    then show ?thesis
    proof cases
      case 2
      then show ?thesis using unregisterConn_inv [OF serving [OF assms] _ 2] pc assms(2) by simp
    qed (use serving [OF assms] serve_online_inv [OF assms pc] pc in simp_all)
  qed
  show "agent_inv s'" if "serve_coverage refused' org entries a s = Some s'"
    using that assms serving [of s] serving [of "s\<lparr>sv_coverage := cov, sv_rows := rows\<rparr>" for cov rows]
    by (auto simp: serve_coverage_def Let_def split: if_splits prod.splits)
  show "agent_inv s'" if "serve_slot cfg headroom now a s = Some s'"
    using that assms serving [of s]
    by (auto simp: serve_slot_def Let_def split: if_splits prod.splits intro!: agent_inv_moves)
  show "agent_inv s'" if "serve_other a s = Some s'"
    using that assms serving [of s] by (auto simp: serve_other_def split: if_splits)
  show "agent_inv s'" if "serve_installed refused fp now a s = Some s'"
    using that assms by (auto simp: serve_installed_def split: if_splits prod.splits intro!: agent_inv_moves)
  show "agent_inv s'" if "serve_close a s = Some s'"
  proof (cases "ac_pc (conn_at s a)")
    case (PcInstalled older)
    then show ?thesis using that assms
      by (auto simp: serve_close_def closeSuperseded_inv closeSuperseded_pc intro!: agent_inv_pc)
  qed (use that in \<open>simp_all add: serve_close_def\<close>)
  show "agent_inv s'" if "announce a s = Some s'"
    using that assms serving [of "s\<lparr>sv_events := ev\<rparr>" for ev] by (auto simp: announce_def split: if_splits)
  show "agent_inv s'" if "conn_ends a s = Some s'"
    using that assms by (auto simp: conn_ends_def split: if_splits intro!: agent_inv_moves)
qed

lemma serve_register_inv:
  assumes inv: "agent_inv s" and a: "a < length (sv_heap s)" and r: "serve_register upsertRefused statusRefused a s = Some s'"
  shows "agent_inv s'"
proof (cases "\<not> upsertRefused \<and> statusRefused \<and> \<not> isTombstoned s (ac_DeviceID (conn_at s a))")
  case True
  then obtain t where t: "serve_online False a s = Some t" "unregisterConn a t = Some s'"
    using r by (auto simp: serve_register_def bind_eq_Some_conv)
  have "length (sv_heap t) = length (sv_heap s)"
    using t(1) True by (auto simp: serve_online_def Let_def set_conn_def split: if_splits)
  then show ?thesis using unregisterConn_inv [OF serve_inv(2) [OF inv a t(1)] _ t(2)] a by simp
next
  case False
  then show ?thesis using r serve_inv(2) [OF inv a] unfolding serve_register_def by metis
qed

lemma other_inv:
  assumes "agent_inv s"
  shows "a < length (sv_heap s) \<Longrightarrow> retire answers refused a b s = Some s' \<Longrightarrow> agent_inv s'"
    "agent_inv (order_removal unsent d s)" "agent_inv (tombstone d s)"
proof -
  have same: "agent_inv (set_conn x c t)" if "agent_inv t" "conn_view c = conn_view (conn_at t x)" for x c t
  proof (cases "x < length (sv_heap t)")
    case True
    then show ?thesis using agent_inv_cong [of "set_conn x c t" t] that
      by (simp add: set_conn_def map_update list_update_same_conv)
  next
    case False
    then show ?thesis using that by (simp add: set_conn_def list_update_beyond)
  qed
  show "agent_inv s'" if "a < length (sv_heap s)" "retire answers refused a b s = Some s'"
    using that assms by (auto simp: retire_def Let_def conn_view_def split: if_splits intro!: same)
  show "agent_inv (order_removal unsent d s)"
    using assms by (auto simp: order_removal_def conn_view_def split: option.splits intro!: same)
  show "agent_inv (tombstone d s)" using assms by (simp add: tombstone_def)
qed

lemma enter_inv:
  assumes "agent_inv s" "a < length (sv_heap s)"
  shows "register_enter a s = Some s' \<Longrightarrow> agent_inv s'" "release_enter a s = Some s' \<Longrightarrow> agent_inv s'"
  using assms by (auto simp: register_enter_def release_enter_def Let_def split: if_splits intro!: agent_inv_enters)

lemma agent_do_inv:
  assumes inv: "agent_inv s" and act: "agent_do ops m act s = Some s'"
  shows "agent_inv s'"
proof -
  have e: "agent_effect ops m act s = Some s'" and a: "action_conn act = Some a \<Longrightarrow> a < length (sv_heap s)" for a
    using act by (auto simp: agent_do_def split: option.splits if_splits)
  note rules = accept_inv [OF inv] serve_inv [OF inv] other_inv(1) [OF inv] enter_inv [OF inv] registerConn_inv [OF inv]
    releaseDeviceStatus_inv [OF inv] release_offline_inv [OF inv] unregisterConn_inv [OF inv] serve_register_inv [OF inv]
  show ?thesis
  proof (cases act)
    case (Arrive d tenant host peer)
    then show ?thesis using e conn_arrives_inv [OF inv] by auto
  next
    case (Heartbeat refused b)
    then show ?thesis using e a serve_inv(2) [OF inv] by (auto simp: serve_heartbeat_def)
  next
    case (DeleteDevice d)
    then show ?thesis using e device_Delete_inv [OF inv] by auto
  next
    case (OrderRemoval unsent d)
    then show ?thesis using e other_inv(2) [OF inv] by auto
  next
    case (Tombstone d)
    then show ?thesis using e other_inv(3) [OF inv] by auto
  qed (use e a in \<open>simp, elim rules [rotated]; simp\<close>)+
qed

interpretation agents: step_invariant agent_start "agent_step ops m" agent_inv for ops m
proof
  fix s assume "agent_start s"
  then show "agent_inv s" by (auto simp: agent_start_def NewAgentServer_def agent_inv_def)
next
  fix s s' assume "agent_inv s" "agent_step ops m s s'"
  then show "agent_inv s'" by (auto elim!: agent_step.cases intro: agent_do_inv)
qed

end
