(* ===== verification/Agent_Properties.thy ===== *)
theory Agent_Properties
  imports Agent_Server
begin

text \<open>
  What the interleavings of the agent server keep, and three runs that they allow: every run is a list
  of steps evaluated from a server with two certificates of one device in its ledger.
\<close>

section \<open>The registry\<close>


section \<open>Runs\<close>

definition demo_first :: x509_cert where "demo_first = demo_device_leaf 1 (1000 * demo_day)"
definition demo_second :: x509_cert where "demo_second = demo_device_leaf 2 (1061 * demo_day)"
definition demo_now :: instant where "demo_now = 1062 * demo_day"

lemma demo_leaves [simp]:
  "x_Raw demo_first = [1]" "x_Raw demo_second = [2]" "x_CN demo_first = ''xxx''" "x_CN demo_second = ''xxx''"
  "x_NotBefore demo_first \<le> demo_now" "x_NotBefore demo_second \<le> demo_now"
  "demo_now \<le> x_NotAfter demo_first" "demo_now \<le> x_NotAfter demo_second" "demo_now \<le> x_NotAfter demo_issuer"
  by (simp_all add: demo_first_def demo_second_def demo_device_leaf_def demo_now_def demo_issuer_def)

definition demo_rows :: "ledger_row list" where
  "demo_rows = [\<lparr>row_entry = demo_cert_entry 1 (1000 * demo_day) SourceEnroll, row_firstSeenAt = None\<rparr>,
                \<lparr>row_entry = demo_cert_entry 2 (1061 * demo_day) SourceRenew, row_firstSeenAt = None\<rparr>]"

definition demo_index :: "bool \<Rightarrow> bool \<Rightarrow> Ledger" where
  "demo_index seen1 seen2 =
     \<lparr>l_heap = [(demo_cert_entry 1 (1000 * demo_day) SourceEnroll)\<lparr>e_Seen := seen1\<rparr>,
                (demo_cert_entry 2 (1061 * demo_day) SourceRenew)\<lparr>e_Seen := seen2\<rparr>],
      l_byPrint = [([2], 1), ([1], 0)], l_byDevice = [(3, [0, 1])], l_table = demo_rows\<rparr>"

definition demo_server :: agent_server where
  "demo_server = NewAgentServer (demo_index False False) [] [] []"

lemma demo_index_start: "ledger_start (demo_index False False)"
proof -
  have "demo_index False False = snd (Warm None (new_Ledger demo_rows))"
    by (simp add: demo_index_def Warm_def new_Ledger_def demo_rows_def indexLocked_def scan_row_def demo_cert_entry_def
        device_addrs_def gomap_put_def Let_def)
  moreover have "distinct (map (\<lambda>r. e_Fingerprint (row_entry r)) demo_rows)"
    by (simp add: demo_rows_def demo_cert_entry_def)
  ultimately show ?thesis unfolding ledger_start_def by blast
qed

lemma demo_server_reachable: "reachable agent_start (agent_step ops m) demo_server"
  by (rule reachable_start) (auto simp: agent_start_def demo_server_def intro: demo_index_start)

lemma demo_sightings:
  "MarkSeen [1] (demo_index seen1 seen2) = ([], demo_index True seen2)"
  "MarkSeen [2] (demo_index seen1 False) = ([[1]], demo_index seen1 True)"
  by (simp_all add: MarkSeen_def see_def demo_index_def demo_cert_entry_def Let_def device_addrs_def later_def)

definition demo_verdict :: "x509_cert \<Rightarrow> admission" where
  "demo_verdict leaf =
     \<lparr>ad_class = Some \<lparr>cl_DeviceID = 3, cl_Leaf = leaf, cl_Authority = authority demo_pki demo_issuer RoleIssuer,
        cl_Standing = StandingFull, cl_Expired = False\<rparr>,
      ad_fp = x_Raw leaf, ad_refusal = ''''\<rparr>"

lemma demo_classified:
  assumes "leaf = demo_first \<or> leaf = demo_second"
  shows "Classify demo_pki demo_manager demo_now [leaf] =
     Inr \<lparr>cl_DeviceID = 3, cl_Leaf = leaf, cl_Authority = authority demo_pki demo_issuer RoleIssuer,
        cl_Standing = StandingFull, cl_Expired = False\<rparr>"
proof -
  have "verifyAtIssuance demo_pki demo_manager leaf = Inr (authority demo_pki demo_issuer RoleIssuer)"
    by (simp add: verifyAtIssuance_def demo_pki_def demo_manager_def newManager_def demo_trust_def authorities_def
        authority_def cert_Equal_def Let_def)
  moreover have "x_CN leaf = ''xxx''" "x_NotBefore leaf \<le> demo_now" "demo_now \<le> x_NotAfter leaf"
    using assms by auto
  moreover have "op_uuid_parse (pki_ledger demo_pki) ''xxx'' = Some 3" by (simp add: demo_pki_def)
  ultimately show ?thesis
    by (simp add: Classify_def Let_def cert_expiry_def authority_def not_less)
qed

lemma demo_admits:
  "admit demo_pki demo_manager demo_now (Some (demo_index seen1 False)) [demo_first] = demo_verdict demo_first"
  "admit demo_pki demo_manager demo_now (Some (demo_index seen1 False)) [demo_second] = demo_verdict demo_second"
  "ad_refusal (demo_verdict leaf) = ''''" "ad_fp (demo_verdict leaf) = x_Raw leaf" "restricted (demo_verdict leaf) = False"
proof -
  have s: "\<not> Superseded (demo_index seen1 False) [1]" "\<not> Superseded (demo_index seen1 False) [2]"
    "\<exists>e. Lookup (demo_index seen1 False) [1] = Some e" "\<exists>e. Lookup (demo_index seen1 False) [2] = Some e"
    by (simp_all add: Superseded_def supersededLocked_def demo_index_def demo_cert_entry_def device_addrs_def later_def Lookup_def)
  have h: "op_sha256 (pki_ledger demo_pki) x = x" for x by (simp add: demo_pki_def)
  show "admit demo_pki demo_manager demo_now (Some (demo_index seen1 False)) [demo_first] = demo_verdict demo_first"
    "admit demo_pki demo_manager demo_now (Some (demo_index seen1 False)) [demo_second] = demo_verdict demo_second"
    using s by (auto simp: admit_def demo_classified h Let_def demo_verdict_def)
  show "ad_refusal (demo_verdict leaf) = ''''" "ad_fp (demo_verdict leaf) = x_Raw leaf" "restricted (demo_verdict leaf) = False"
    by (simp_all add: demo_verdict_def restricted_def)
qed

text \<open>The steps of a connection until it may register, and of its registration.\<close>

definition demo_ready :: "addr \<Rightarrow> x509_cert \<Rightarrow> agent_action list" where
  "demo_ready a leaf = [Arrive 3 1 ''host'' [leaf], Admit demo_now False a, Mark a, Close a]"

definition demo_registers :: "addr \<Rightarrow> agent_action list" where
  "demo_registers a = [EnterRegister a, Register a, Announce a]"

lemma agent_run_append:
  "agent_run ops m (xs @ ys) s = (case agent_run ops m xs s of None \<Rightarrow> None | Some s' \<Rightarrow> agent_run ops m ys s')"
  by (induction xs arbitrary: s) (auto split: option.split)

definition demo_ready_conn :: "byte \<Rightarrow> agent_conn" where
  "demo_ready_conn n = \<lparr>ac_DeviceID = 3, ac_TenantID = 1, ac_certFP = [n], ac_host = ''host'', ac_closed = False,
     ac_sendClosed = False, ac_ordered = False, ac_released = False, ac_online = False, ac_granted = False, ac_pc = PcReady\<rparr>"

lemma closeSuperseded_Nil [simp]: "closeSuperseded [] s = s"
proof -
  have "fold (\<lambda>a s. s) as s = s" for as :: "addr list" and s :: agent_server by (induction as) simp_all
  then show ?thesis by (simp add: closeSuperseded_def)
qed

lemma demo_ready_first:
  assumes "3 \<notin> set (sv_tombstones s)" "sv_ledger s = demo_index seen1 False" "a = length (sv_heap s)"
  shows "agent_run demo_pki demo_manager (demo_ready a demo_first) s =
     Some (s\<lparr>sv_heap := sv_heap s @ [demo_ready_conn 1], sv_ledger := demo_index True False\<rparr>)"
  using assms
  by (simp add: demo_ready_def agent_do_def conn_arrives_def accept_admit_def isTombstoned_def demo_admits accept_mark_def
      demo_sightings set_conn_def set_pc_def Let_def accept_close_def demo_ready_conn_def nth_append)

section \<open>A device that stays online\<close>

text \<open>
  The first connection sets the device online and is replaced while it handles a heartbeat; the second
  ends and sets the device offline; then the heartbeat is written and the first connection ends.
\<close>

definition stuck_run :: "agent_action list" where
  "stuck_run = demo_ready 0 demo_first @ demo_registers 0 @ [Read 0, Online False False 0, Read 0] @
     demo_ready 1 demo_first @ demo_registers 1 @
     [Unregister 1, EnterRelease 1, ReleaseStatus 1, Offline False 1, End 1,
      Heartbeat False 0, Retire False False 0 1, Unregister 0, EnterRelease 0, ReleaseStatus 0, End 0]"

lemmas run_defs = agent_do_def register_enter_def registerConn_def announce_def serve_read_def serve_online_def serve_register_def serve_heartbeat_def
  isTombstoned_def unregisterConn_def release_enter_def releaseDeviceStatus_def release_offline_def conn_ends_def retire_def
  serve_slot_def set_pc_def set_conn_def Let_def

lemma demo_registered:
  assumes "a < length (sv_heap s)" "conn_at s a = demo_ready_conn n" "map_of (sv_gate s) 3 = None"
  shows "agent_run ops m (demo_registers a) s =
     Some (s\<lparr>sv_heap := (sv_heap s)[a := (demo_ready_conn n)\<lparr>ac_pc := PcServing\<rparr>], sv_conns := gomap_put 3 a (sv_conns s),
             sv_count := (if map_of (sv_conns s) 3 = None then sv_count s + 1 else sv_count s),
             sv_gate := gomap_del 3 (gomap_put 3 a (sv_gate s)),
             sv_retiring := (case map_of (sv_conns s) 3 of None \<Rightarrow> sv_retiring s | Some o' \<Rightarrow> (o', a) # sv_retiring s),
             sv_events := sv_events s @ [(3, True)]\<rparr>)"
  using assms by (cases "map_of (sv_conns s) 3") (simp_all add: demo_registers_def run_defs demo_ready_conn_def)

lemma stuck_run_result:
  "\<exists>s. agent_run demo_pki demo_manager stuck_run demo_server = Some s \<and> map_of (sv_status s) 3 = Some True \<and>
     sv_conns s = [] \<and> sv_gate s = [] \<and> sv_retiring s = [] \<and> list_all (\<lambda>c. ac_pc c = PcGone) (sv_heap s)"
  unfolding stuck_run_def agent_run_append
  by (simp add: demo_ready_first demo_registered demo_server_def NewAgentServer_def run_defs gomap_put_def gomap_del_def demo_ready_conn_def)


section \<open>A superseded certificate that stays connected\<close>

text \<open>
  A connection on the first certificate is admitted; one on the second arrives, supersedes the first
  and closes nothing, because the first is not registered yet; then the first registers.
\<close>

definition superseded_run :: "agent_action list" where
  "superseded_run = demo_ready 0 demo_first @ demo_ready 1 demo_second @ demo_registers 1 @ demo_registers 0 @ [Retire False False 1 0]"

lemma demo_ready_second:
  assumes "3 \<notin> set (sv_tombstones s)" "sv_ledger s = demo_index seen1 False" "a = length (sv_heap s)"
    "sv_conns s = []" "sv_restricted s = []"
  shows "agent_run demo_pki demo_manager (demo_ready a demo_second) s =
     Some (s\<lparr>sv_heap := sv_heap s @ [demo_ready_conn 2], sv_ledger := demo_index seen1 True\<rparr>)"
  using assms
  by (simp add: demo_ready_def agent_do_def conn_arrives_def accept_admit_def isTombstoned_def demo_admits accept_mark_def
      demo_sightings set_conn_def set_pc_def Let_def accept_close_def demo_ready_conn_def nth_append closeSuperseded_def eachLiveConn_def)

lemma superseded_run_result:
  "\<exists>s. agent_run demo_pki demo_manager superseded_run demo_server = Some s \<and> GetAgent s 3 = Some 0 \<and>
     ac_pc (conn_at s 0) = PcServing \<and> ac_certFP (conn_at s 0) = [1] \<and> \<not> ac_closed (conn_at s 0) \<and>
     ac_certFP (conn_at s 1) = [2] \<and> ac_closed (conn_at s 1) \<and> sv_ledger s = demo_index True True"
  unfolding superseded_run_def agent_run_append
  by (simp add: demo_ready_first demo_ready_second demo_registered demo_server_def NewAgentServer_def run_defs gomap_put_def
      gomap_del_def demo_ready_conn_def GetAgent_def)


section \<open>A late teardown\<close>

text \<open>
  The second connection replaces the first, is granted a backfill slot and reports on its rules; then
  the first one ends.
\<close>

definition teardown_run :: "agent_action list" where
  "teardown_run = demo_ready 0 demo_first @ demo_registers 0 @ demo_ready 1 demo_first @ demo_registers 1 @
     [Read 1, Slot DefaultBackfillSchedulerConfig 1 demo_now 1,
      Read 1, Coverage (\<lambda>_. False) 2 (demo_report RuleCoverageActive) 1, Unregister 0]"

lemma teardown_run_result:
  "\<exists>s. agent_run demo_pki demo_manager teardown_run demo_server = Some s \<and> GetAgent s 3 = Some 1 \<and>
     ac_pc (conn_at s 1) = PcServing \<and> ac_granted (conn_at s 1) \<and> bs_grants (sv_scheduler s) = [] \<and> sv_coverage s = []"
proof -
  let ?sched = "\<lparr>bs_grants = [(3, \<lparr>bg_tenant = 1, bg_deadline = demo_now + GrantTTL DefaultBackfillSchedulerConfig\<rparr>)],
      bs_tenantCount = [(1, 1)], bs_firstReq = []\<rparr>"
  have slot: "RequestSlot DefaultBackfillSchedulerConfig 1 demo_now 3 1 NewBackfillScheduler =
      (bs_grant DefaultBackfillSchedulerConfig 1 demo_now, ?sched)"
    by (simp add: RequestSlot_def reap_def NewBackfillScheduler_def tenant_count_def gomap_put_def gomap_del_def Let_def)
      (simp add: DefaultBackfillSchedulerConfig_def)
  have cov: "recordRuleCoverage (\<lambda>_. False) 1 2 3 (demo_report RuleCoverageActive) [] [] =
      (True, [(3, [(''cpu'', RuleCoverageActive)])], [])"
    using demo_report_states [of RuleCoverageActive]
    by (simp add: recordRuleCoverage_def Report_def diffCoverage_def coverage_of_def persistRuleCoverage_def gomap_put_def)
      (simp add: demo_report_def)
  have rel: "bs_grants (Release 3 ?sched) = []" by (simp add: Release_def bs_release_def gomap_del_def Let_def)
  show ?thesis
    unfolding teardown_run_def agent_run_append
    by (simp add: demo_ready_first demo_registered demo_server_def NewAgentServer_def run_defs gomap_put_def gomap_del_def
        demo_ready_conn_def GetAgent_def slot bs_grant_def serve_coverage_def NewRuleCoverageStore_def cov rel Forget_def)
qed



end
