(* ===== verification/Incident_Rooms.thy ===== *)
theory Incident_Rooms
  imports Rule_Delivery Go_Text
begin

text \<open>
  The store of machine-reported alerts and of the incident rooms they fold into,
  \<open>server/internal/alerts\<close>, over the tables of \<open>014_investigations.up.sql\<close>. Every exported operation is
  one transaction: a function from the database to a result and the next database, which is the old
  one when the transaction is rolled back. The statements are list operations with the checks, keys
  and cascades the tables declare; what makes a statement fail beyond those (a lost connection, a
  refused text encoding, an unknown user) is the argument \<open>refused\<close>. The clock and the random
  identifiers are arguments. Log lines and display names are left out.
\<close>

section \<open>The vocabulary\<close>

text \<open>The closed sets are strings in the code; any other string is kept apart.\<close>

datatype Severity = SeverityInfo | SeverityWarning | SeverityCritical | SeverityOther string

datatype room_scope = ScopeDevice | ScopeSite | ScopeOrganization | ScopeOther string

datatype Status = StatusNew | StatusAcknowledged | StatusInvestigating | StatusResolved | StatusOther string

text \<open>\<open>CauseNone\<close> is the empty string of a \<open>Change\<close> and the null of the column.\<close>

datatype CauseCode = CauseNone | CauseResolvedSelf | CauseFixedByTech | CauseHardwareFault | CauseExpectedLoad
  | CauseFalsePositive | CauseDuplicate | CauseWontFix | CauseOther string

datatype Outcome = Stored | Duplicate | CeilingSuppressed

datatype room_error = ErrTenantRequired | ErrGroupingUnusable | ErrIncidentNotFound | ErrUnknownStatus
  | ErrUnknownCause | ErrIllegalTransition | ErrCauseRequired | ErrCauseNotAllowed | ErrKeyAlreadyOpen
  | ErrAlertNotFound | ErrNoEvidence | ErrCommentUnusable | ErrHorizonNotPositive | ErrLimits | ErrNoMachine
  | ErrStatement

definition StormRuleID :: string where
  "StormRuleID = ''alert-storm''"

definition StormSeverity :: Severity where
  "StormSeverity = SeverityWarning"

definition StormHold :: duration where
  "StormHold = time_hour"

definition MaxEvidenceBytes :: nat where
  "MaxEvidenceBytes = 64 * 1024"

text \<open>\<open>Evidence\<close> is \<open>None\<close> for a nil slice.\<close>

record Alert =
  al_ID :: uuid
  al_OrganizationID :: uuid
  al_DeviceID :: uuid
  al_RuleID :: string
  al_RuleVersion :: "32 word"
  al_Severity :: Severity
  al_Metric :: string
  al_Value :: "float64 option"
  al_WindowStart :: instant
  al_WindowEnd :: instant
  al_ObservedAt :: instant
  al_Backfilled :: bool
  al_Evidence :: "bytes option"
  al_EvidenceCodec :: string

text \<open>\<open>Time.Truncate(time.Microsecond)\<close>\<close>

definition truncate_us :: "instant \<Rightarrow> instant" where
  "truncate_us t = t - t mod 1000"

definition normalized :: "Alert \<Rightarrow> Alert" where
  "normalized a =
     (let b = a\<lparr>al_WindowStart := truncate_us (al_WindowStart a), al_WindowEnd := truncate_us (al_WindowEnd a),
                al_ObservedAt := truncate_us (al_ObservedAt a)\<rparr> in
      if al_Evidence a = None \<or> al_Evidence a = Some [] then b\<lparr>al_Evidence := None, al_EvidenceCodec := ''''\<rparr> else b)"

section \<open>Grouping and moves\<close>

record Grouping =
  gr_Scope :: room_scope
  gr_Window :: duration

fun known_scope :: "room_scope \<Rightarrow> bool" where
  "known_scope (ScopeOther s) = False"
| "known_scope _ = True"

definition Grouping_check :: "Grouping \<Rightarrow> room_error option" where
  "Grouping_check g =
     (if \<not> known_scope (gr_Scope g) then Some ErrGroupingUnusable
      else if gr_Window g \<le> 0 then Some ErrGroupingUnusable else None)"

definition spans :: "Grouping \<Rightarrow> instant \<Rightarrow> instant \<Rightarrow> instant \<Rightarrow> bool" where
  "spans g firstSeen lastSeen t \<longleftrightarrow> \<not> t > lastSeen + gr_Window g \<and> \<not> t < firstSeen + - gr_Window g"

definition lapsed :: "Grouping \<Rightarrow> instant \<Rightarrow> instant \<Rightarrow> bool" where
  "lapsed g lastSeen t \<longleftrightarrow> t > lastSeen + gr_Window g"

fun nextStatuses :: "Status \<Rightarrow> Status list option" where
  "nextStatuses StatusNew = Some [StatusAcknowledged, StatusInvestigating, StatusResolved]"
| "nextStatuses StatusAcknowledged = Some [StatusNew, StatusInvestigating, StatusResolved]"
| "nextStatuses StatusInvestigating = Some [StatusNew, StatusAcknowledged, StatusResolved]"
| "nextStatuses StatusResolved = Some []"
| "nextStatuses (StatusOther s) = None"

definition knownCauses :: "CauseCode list" where
  "knownCauses = [CauseResolvedSelf, CauseFixedByTech, CauseHardwareFault, CauseExpectedLoad, CauseFalsePositive,
     CauseDuplicate, CauseWontFix]"

definition knownCause :: "CauseCode \<Rightarrow> bool" where
  "knownCause c \<longleftrightarrow> list_ex (\<lambda>known. known = c) knownCauses"

definition allows :: "Status \<Rightarrow> Status \<Rightarrow> bool" where
  "allows before to =
     (case nextStatuses before of None \<Rightarrow> False | Some nexts \<Rightarrow> list_ex (\<lambda>n. n = to) nexts)"

text \<open>A zero \<open>Actor\<close> is the system.\<close>

record Change =
  ch_To :: Status
  ch_Cause :: CauseCode
  ch_Actor :: uuid

definition Change_check :: "Change \<Rightarrow> Status \<Rightarrow> room_error option" where
  "Change_check c before =
     (if nextStatuses (ch_To c) = None then Some ErrUnknownStatus
      else if ch_Cause c \<noteq> CauseNone \<and> \<not> knownCause (ch_Cause c) then Some ErrUnknownCause
      else if \<not> allows before (ch_To c) then Some ErrIllegalTransition
      else if ch_To c = StatusResolved \<and> ch_Cause c = CauseNone then Some ErrCauseRequired
      else if ch_To c \<noteq> StatusResolved \<and> ch_Cause c \<noteq> CauseNone then Some ErrCauseNotAllowed
      else None)"

section \<open>The tables\<close>

record alert_row =
  ar_alert :: Alert
  ar_tenant :: uuid
  ar_received :: instant
  ar_incident :: "uuid option"

record incident_row =
  in_ID :: uuid
  in_tenant :: uuid
  in_org :: uuid
  in_rule :: string
  in_scope :: room_scope
  in_scope_key :: uuid
  in_severity :: Severity
  in_status :: Status
  in_assignee :: "uuid option"
  in_opened_at :: instant
  in_first_seen :: instant
  in_last_seen :: instant
  in_resolved_at :: "instant option"
  in_cause :: CauseCode
  in_occurrences :: int
  in_device_count :: int

record transitionBody =
  tb_From :: Status
  tb_To :: Status
  tb_Cause :: CauseCode
  tb_Reopened :: bool

text \<open>The kind of a line follows from its body but for a move, where it is a column of its own.\<close>

datatype event_kind = KindStatusChange | KindResolution | KindAssignment | KindComment

datatype event_body = Reason string | Moved transitionBody | AssignedTo uuid | Unassigned | Commented string

record event_row =
  ev_ID :: uuid
  ev_tenant :: uuid
  ev_org :: uuid
  ev_incident :: uuid
  ev_at :: instant
  ev_kind :: event_kind
  ev_actor :: "uuid option"
  ev_body :: event_body

text \<open>What the statements read of the other tables: a device's tenant, site and maintenance flag, and the
  tenant every customer belongs to.\<close>

record device_row =
  dr_ID :: uuid
  dr_tenant :: uuid
  dr_site :: "uuid option"
  dr_maintenance :: bool

record limits_row =
  lr_tenant :: uuid
  lr_limits :: Limits

record rooms_db =
  db_alerts :: "alert_row list"
  db_incidents :: "incident_row list"
  db_events :: "event_row list"
  db_limits :: "limits_row list"
  db_devices :: "device_row list"
  db_orgs :: "(uuid, uuid) gomap"

definition update_where :: "('a \<Rightarrow> bool) \<Rightarrow> ('a \<Rightarrow> 'a) \<Rightarrow> 'a list \<Rightarrow> 'a list" where
  "update_where P f xs = map (\<lambda>x. if P x then f x else x) xs"

section \<open>Transactions\<close>

record Tenant =
  tn_TenantID :: uuid
  tn_IsAdmin :: bool

text \<open>The row policy of the tenant tables.\<close>

definition tenant_visible :: "Tenant \<Rightarrow> uuid \<Rightarrow> bool" where
  "tenant_visible tn t \<longleftrightarrow> tn_IsAdmin tn \<or> t = tn_TenantID tn"

definition TenantFromContext :: "Tenant option \<Rightarrow> Tenant option" where
  "TenantFromContext ctx =
     (case ctx of None \<Rightarrow> None | Some tn \<Rightarrow> if tn_TenantID tn = uuid_Nil then None else Some tn)"

type_synonym 'r tx = "room_error + ('r \<times> rooms_db)"

definition Scoped :: "Tenant option \<Rightarrow> bool \<Rightarrow> (Tenant \<Rightarrow> rooms_db \<Rightarrow> 'r tx) \<Rightarrow> rooms_db \<Rightarrow> (room_error + 'r) \<times> rooms_db" where
  "Scoped ctx refused fn db =
     (case TenantFromContext ctx of
        None \<Rightarrow> (Inl ErrTenantRequired, db)
      | Some tn \<Rightarrow>
          (case fn tn db of
             Inl e \<Rightarrow> (Inl e, db)
           | Inr (r, db') \<Rightarrow> if refused then (Inl ErrStatement, db) else (Inr r, db')))"

definition try_tx :: "'r tx \<Rightarrow> ('r \<Rightarrow> rooms_db \<Rightarrow> 's tx) \<Rightarrow> 's tx" where
  "try_tx m k = (case m of Inl e \<Rightarrow> Inl e | Inr (r, db) \<Rightarrow> k r db)"

text \<open>A new line of history; an identifier in use is refused by the primary key.\<close>

definition insert_events :: "event_row list \<Rightarrow> rooms_db \<Rightarrow> unit tx" where
  "insert_events evs db =
     (if distinct (map ev_ID evs) \<and> list_all (\<lambda>e. \<not> list_ex (\<lambda>old. ev_ID old = ev_ID e) (db_events db)) evs
      then Inr ((), db\<lparr>db_events := db_events db @ evs\<rparr>) else Inl ErrStatement)"

text \<open>The line the system writes when it closes a room.\<close>

definition system_resolution :: "uuid \<Rightarrow> instant \<Rightarrow> string \<Rightarrow> incident_row \<Rightarrow> event_row" where
  "system_resolution evID t why i =
     \<lparr>ev_ID = evID, ev_tenant = in_tenant i, ev_org = in_org i, ev_incident = in_ID i, ev_at = t,
      ev_kind = KindResolution, ev_actor = None, ev_body = Reason why\<rparr>"

definition room_open :: "incident_row \<Rightarrow> bool" where
  "room_open i \<longleftrightarrow> in_status i \<noteq> StatusResolved"

text \<open>
  The statements that close rooms: every open room that \<open>P\<close> selects is resolved at \<open>t\<close> and gets one
  line of history.
\<close>

definition close_rooms :: "(incident_row \<Rightarrow> bool) \<Rightarrow> (incident_row \<Rightarrow> instant) \<Rightarrow> string \<Rightarrow> (uuid \<Rightarrow> uuid) \<Rightarrow>
    rooms_db \<Rightarrow> nat tx" where
  "close_rooms P t why ids db =
     (let closed = filter (\<lambda>i. room_open i \<and> P i) (db_incidents db) in
      try_tx
        (insert_events (map (\<lambda>i. system_resolution (ids (in_ID i)) (t i) why i) closed)
          (db\<lparr>db_incidents := update_where (\<lambda>i. room_open i \<and> P i)
                (\<lambda>i. i\<lparr>in_status := StatusResolved, in_resolved_at := Some (t i)\<rparr>) (db_incidents db)\<rparr>))
        (\<lambda>_ db'. Inr (length closed, db')))"

section \<open>Budgets\<close>

definition limitsIn :: "Tenant \<Rightarrow> uuid \<Rightarrow> rooms_db \<Rightarrow> Limits" where
  "limitsIn tn org db =
     (case find (\<lambda>l. lr_tenant l = tn_TenantID tn \<and> li_OrganizationID (lr_limits l) = org) (db_limits db) of
        Some l \<Rightarrow> lr_limits l
      | None \<Rightarrow> DefaultLimits org)"

definition UpsertLimits :: "Tenant option \<Rightarrow> bool \<Rightarrow> Limits \<Rightarrow> rooms_db \<Rightarrow> (room_error + unit) \<times> rooms_db" where
  "UpsertLimits ctx refused l db =
     (if ValidateLimits l \<noteq> None then (Inl ErrLimits, db)
      else Scoped ctx refused (\<lambda>tn db.
        case find (\<lambda>r. li_OrganizationID (lr_limits r) = li_OrganizationID l) (db_limits db) of
          Some r \<Rightarrow>
            if \<not> tenant_visible tn (lr_tenant r) then Inl ErrStatement
            else Inr ((), db\<lparr>db_limits := update_where (\<lambda>r. li_OrganizationID (lr_limits r) = li_OrganizationID l)
                            (\<lambda>r. r\<lparr>lr_limits := l\<rparr>) (db_limits db)\<rparr>)
        | None \<Rightarrow>
            if map_of (db_orgs db) (li_OrganizationID l) \<noteq> Some (tn_TenantID tn) then Inl ErrStatement
            else Inr ((), db\<lparr>db_limits := db_limits db @ [\<lparr>lr_tenant = tn_TenantID tn, lr_limits = l\<rparr>]\<rparr>)) db)"

section \<open>Folding an alert into its room\<close>

record groupingKey =
  gk_organizationID :: uuid
  gk_ruleID :: string
  gk_scope :: room_scope
  gk_scopeKey :: uuid

definition key_of :: "incident_row \<Rightarrow> groupingKey" where
  "key_of i = \<lparr>gk_organizationID = in_org i, gk_ruleID = in_rule i, gk_scope = in_scope i, gk_scopeKey = in_scope_key i\<rparr>"

definition deviceSite :: "Tenant \<Rightarrow> uuid \<Rightarrow> rooms_db \<Rightarrow> device_row option" where
  "deviceSite tn d db = find (\<lambda>r. dr_tenant r = tn_TenantID tn \<and> dr_ID r = d) (db_devices db)"

definition scopeKeyFor :: "Tenant \<Rightarrow> Alert \<Rightarrow> room_scope \<Rightarrow> rooms_db \<Rightarrow> room_error + groupingKey" where
  "scopeKeyFor tn a sc db =
     (let key = (\<lambda>s k. \<lparr>gk_organizationID = al_OrganizationID a, gk_ruleID = al_RuleID a, gk_scope = s, gk_scopeKey = k\<rparr>) in
      case sc of
        ScopeOrganization \<Rightarrow> Inr (key sc (al_OrganizationID a))
      | ScopeDevice \<Rightarrow> Inr (key sc (al_DeviceID a))
      | ScopeSite \<Rightarrow>
          (case deviceSite tn (al_DeviceID a) db of
             None \<Rightarrow> Inl ErrNoMachine
           | Some r \<Rightarrow>
               (case dr_site r of
                  None \<Rightarrow> Inr (key ScopeDevice (al_DeviceID a))
                | Some site \<Rightarrow> Inr (key sc site)))
      | ScopeOther s \<Rightarrow> Inl ErrGroupingUnusable)"

definition lockOpenRoomForKey :: "Tenant \<Rightarrow> groupingKey \<Rightarrow> rooms_db \<Rightarrow> incident_row option" where
  "lockOpenRoomForKey tn key db =
     find (\<lambda>i. in_tenant i = tn_TenantID tn \<and> key_of i = key \<and> room_open i) (db_incidents db)"

definition no_alert_reason :: string where
  "no_alert_reason = ''no alert within the reopen window''"

definition closeLapsed :: "Tenant \<Rightarrow> Grouping \<Rightarrow> incident_row \<Rightarrow> uuid \<Rightarrow> rooms_db \<Rightarrow> unit tx" where
  "closeLapsed tn g room evID db =
     try_tx
       (close_rooms (\<lambda>i. in_tenant i = tn_TenantID tn \<and> in_ID i = in_ID room)
          (\<lambda>_. in_last_seen room + gr_Window g) no_alert_reason (\<lambda>_. evID) db)
       (\<lambda>_ db'. Inr ((), db'))"

text \<open>The observations of a key that wait for a room, inside the window around an alert.\<close>

definition pending :: "Tenant \<Rightarrow> groupingKey \<Rightarrow> instant \<Rightarrow> instant \<Rightarrow> rooms_db \<Rightarrow> alert_row \<Rightarrow> bool" where
  "pending tn key start stop db r \<longleftrightarrow>
     ar_tenant r = tn_TenantID tn \<and> ar_incident r = None \<and>
     al_OrganizationID (ar_alert r) = gk_organizationID key \<and> al_RuleID (ar_alert r) = gk_ruleID key \<and>
     al_Severity (ar_alert r) = SeverityInfo \<and>
     start \<le> al_ObservedAt (ar_alert r) \<and> al_ObservedAt (ar_alert r) \<le> stop \<and>
     (gk_scope key = ScopeOrganization \<or>
      gk_scope key = ScopeDevice \<and> al_DeviceID (ar_alert r) = gk_scopeKey key \<or>
      gk_scope key = ScopeSite \<and>
        list_ex (\<lambda>d. tenant_visible tn (dr_tenant d) \<and> dr_ID d = al_DeviceID (ar_alert r) \<and> dr_site d = Some (gk_scopeKey key))
          (db_devices db))"

definition coOccurrenceWindow :: "Grouping \<Rightarrow> Alert \<Rightarrow> instant \<times> instant" where
  "coOccurrenceWindow g a = (al_ObservedAt a + - gr_Window g, al_ObservedAt a + gr_Window g)"

definition opensARoom :: "Tenant \<Rightarrow> Alert \<Rightarrow> Grouping \<Rightarrow> groupingKey \<Rightarrow> rooms_db \<Rightarrow> bool" where
  "opensARoom tn a g key db =
     (if al_Severity a \<noteq> SeverityInfo then True
      else if gk_scope key = ScopeDevice then False
      else (case coOccurrenceWindow g a of
              (start, stop) \<Rightarrow>
                1 < length (remdups (map (al_DeviceID \<circ> ar_alert) (filter (pending tn key start stop db) (db_alerts db))))))"

text \<open>The alerts a room holds, as the statement that restates it sees them.\<close>

definition held_by :: "uuid \<Rightarrow> alert_row list \<Rightarrow> alert_row list" where
  "held_by room rows = filter (\<lambda>r. ar_incident r = Some room) rows"

definition machines_of :: "alert_row list \<Rightarrow> int" where
  "machines_of rows = int (length (remdups (map (al_DeviceID \<circ> ar_alert) rows)))"

definition worst_severity :: "alert_row list \<Rightarrow> Severity" where
  "worst_severity rows =
     (if list_ex (\<lambda>r. al_Severity (ar_alert r) = SeverityCritical) rows then SeverityCritical
      else if list_ex (\<lambda>r. al_Severity (ar_alert r) = SeverityWarning) rows then SeverityWarning
      else SeverityInfo)"

definition observed :: "alert_row list \<Rightarrow> instant set" where
  "observed rows = set (map (al_ObservedAt \<circ> ar_alert) rows)"

definition restate_from :: "alert_row list \<Rightarrow> incident_row \<Rightarrow> incident_row" where
  "restate_from held i = i\<lparr>in_occurrences := int (length held), in_device_count := machines_of held,
     in_first_seen := Min (observed held), in_last_seen := Max (observed held), in_severity := worst_severity held\<rparr>"

definition restateRoomFromItsAlerts :: "Tenant \<Rightarrow> uuid \<Rightarrow> rooms_db \<Rightarrow> rooms_db" where
  "restateRoomFromItsAlerts tn room db =
     (let held = filter (\<lambda>r. tenant_visible tn (ar_tenant r)) (held_by room (db_alerts db)) in
      if held = [] then db
      else db\<lparr>db_incidents := update_where (\<lambda>i. in_tenant i = tn_TenantID tn \<and> in_ID i = room) (restate_from held)
               (db_incidents db)\<rparr>)"

definition fileInto :: "Tenant \<Rightarrow> Alert \<Rightarrow> uuid \<Rightarrow> rooms_db \<Rightarrow> rooms_db" where
  "fileInto tn a room db =
     restateRoomFromItsAlerts tn room
       (db\<lparr>db_alerts := update_where (\<lambda>r. ar_tenant r = tn_TenantID tn \<and> al_ID (ar_alert r) = al_ID a)
              (\<lambda>r. r\<lparr>ar_incident := Some room\<rparr>) (db_alerts db)\<rparr>)"

text \<open>
  An insert of a room: the open room that holds the key already is met by the conflict clause, whose
  update is \<open>join\<close>; an identifier in use and a customer of another tenant are refused.
\<close>

definition insert_room :: "Tenant \<Rightarrow> incident_row \<Rightarrow> (incident_row \<Rightarrow> incident_row) \<Rightarrow> rooms_db \<Rightarrow> uuid tx" where
  "insert_room tn new join db =
     (case find (\<lambda>i. key_of i = key_of new \<and> room_open i) (db_incidents db) of
        Some old \<Rightarrow>
          if \<not> tenant_visible tn (in_tenant old) \<or> in_last_seen (join old) < in_first_seen (join old) then Inl ErrStatement
          else Inr (in_ID old, db\<lparr>db_incidents := update_where (\<lambda>i. in_ID i = in_ID old) join (db_incidents db)\<rparr>)
      | None \<Rightarrow>
          if list_ex (\<lambda>i. in_ID i = in_ID new) (db_incidents db) \<or>
             map_of (db_orgs db) (in_org new) \<noteq> Some (in_tenant new)
          then Inl ErrStatement
          else Inr (in_ID new, db\<lparr>db_incidents := db_incidents db @ [new]\<rparr>))"

definition new_room :: "uuid \<Rightarrow> uuid \<Rightarrow> groupingKey \<Rightarrow> Severity \<Rightarrow> instant \<Rightarrow> instant \<Rightarrow> int \<Rightarrow> incident_row" where
  "new_room room tenant key sev now seen occ =
     \<lparr>in_ID = room, in_tenant = tenant, in_org = gk_organizationID key, in_rule = gk_ruleID key, in_scope = gk_scope key,
      in_scope_key = gk_scopeKey key, in_severity = sev, in_status = StatusNew, in_assignee = None, in_opened_at = now,
      in_first_seen = seen, in_last_seen = seen, in_resolved_at = None, in_cause = CauseNone,
      in_occurrences = occ, in_device_count = 0\<rparr>"

definition openRoom :: "Tenant \<Rightarrow> Alert \<Rightarrow> Grouping \<Rightarrow> groupingKey \<Rightarrow> instant \<Rightarrow> uuid \<Rightarrow> rooms_db \<Rightarrow> unit tx" where
  "openRoom tn a g key now freshID db =
     try_tx
       (insert_room tn (new_room freshID (tn_TenantID tn) key (al_Severity a) now (al_ObservedAt a) 0)
          (\<lambda>i. i\<lparr>in_last_seen := max (in_last_seen i) (al_ObservedAt a)\<rparr>) db)
       (\<lambda>room db1.
          case coOccurrenceWindow g a of
            (start, stop) \<Rightarrow>
              Inr ((), fileInto tn a room
                (db1\<lparr>db_alerts := update_where (pending tn key start stop db1) (\<lambda>r. r\<lparr>ar_incident := Some room\<rparr>)
                       (db_alerts db1)\<rparr>)))"

definition fold_alert :: "Tenant \<Rightarrow> Alert \<Rightarrow> Grouping \<Rightarrow> instant \<Rightarrow> uuid \<Rightarrow> uuid \<Rightarrow> rooms_db \<Rightarrow> unit tx" where
  "fold_alert tn a g now freshID evID db =
     (case scopeKeyFor tn a (gr_Scope g) db of
        Inl e \<Rightarrow> Inl e
      | Inr key \<Rightarrow>
          (let opening = (\<lambda>db. if opensARoom tn a g key db then openRoom tn a g key now freshID db else Inr ((), db)) in
           case lockOpenRoomForKey tn key db of
             None \<Rightarrow> opening db
           | Some room \<Rightarrow>
               if spans g (in_first_seen room) (in_last_seen room) (al_ObservedAt a)
               then Inr ((), fileInto tn a (in_ID room) db)
               else if lapsed g (in_last_seen room) (al_ObservedAt a)
               then try_tx (closeLapsed tn g room evID db) (\<lambda>_. opening)
               else Inr ((), db)))"

section \<open>Recording an alert\<close>

definition same_identity :: "Alert \<Rightarrow> Alert \<Rightarrow> bool" where
  "same_identity a b \<longleftrightarrow> al_DeviceID a = al_DeviceID b \<and> al_RuleID a = al_RuleID b \<and>
     al_RuleVersion a = al_RuleVersion b \<and> al_WindowStart a = al_WindowStart b"

text \<open>The checks of the alerts table on a row; the rule version is a signed 32-bit column.\<close>

definition alert_checks :: "Alert \<Rightarrow> bool" where
  "alert_checks a \<longleftrightarrow>
     al_RuleID a \<noteq> '''' \<and> length (runes (al_RuleID a)) \<le> 64 \<and> 0 < al_RuleVersion a \<and>
     al_Severity a \<in> {SeverityInfo, SeverityWarning, SeverityCritical} \<and> length (runes (al_Metric a)) \<le> 64 \<and>
     al_WindowStart a \<le> al_WindowEnd a \<and>
     (case al_Evidence a of None \<Rightarrow> True | Some blob \<Rightarrow> length blob \<le> MaxEvidenceBytes) \<and>
     length (runes (al_EvidenceCodec a)) \<le> 32 \<and> (al_Evidence a = None) = (al_EvidenceCodec a = '''')"

definition received_since :: "uuid \<Rightarrow> uuid \<Rightarrow> instant \<Rightarrow> alert_row list \<Rightarrow> int" where
  "received_since tenant org start rows =
     int (length (filter (\<lambda>r. ar_tenant r = tenant \<and> al_OrganizationID (ar_alert r) = org \<and> ar_received r > start) rows))"

text \<open>The insert of an alert: \<open>Inr False\<close> when it returns no row.\<close>

definition storeAlertSQL :: "Tenant \<Rightarrow> Alert \<Rightarrow> instant \<Rightarrow> int \<Rightarrow> rooms_db \<Rightarrow> bool tx" where
  "storeAlertSQL tn a now hourly db =
     (if 2 ^ 31 \<le> uint (al_RuleVersion a) then Inl ErrStatement
      else if \<not> received_since (tn_TenantID tn) (al_OrganizationID a) (now + - time_hour) (db_alerts db) < hourly
      then Inr (False, db)
      else if \<not> alert_checks a then Inl ErrStatement
      else if list_ex (\<lambda>r. same_identity (ar_alert r) a) (db_alerts db) then Inr (False, db)
      else if list_ex (\<lambda>r. al_ID (ar_alert r) = al_ID a) (db_alerts db) \<or>
              \<not> list_ex (\<lambda>d. dr_ID d = al_DeviceID a) (db_devices db) \<or>
              map_of (db_orgs db) (al_OrganizationID a) \<noteq> Some (tn_TenantID tn)
      then Inl ErrStatement
      else Inr (True, db\<lparr>db_alerts := db_alerts db @
             [\<lparr>ar_alert = a, ar_tenant = tn_TenantID tn, ar_received = now, ar_incident = None\<rparr>]\<rparr>))"

definition identity :: "Tenant \<Rightarrow> Alert \<Rightarrow> rooms_db \<Rightarrow> uuid option" where
  "identity tn a db =
     map_option (al_ID \<circ> ar_alert) (find (\<lambda>r. ar_tenant r = tn_TenantID tn \<and> same_identity (ar_alert r) a) (db_alerts db))"

definition storm_key :: "uuid \<Rightarrow> groupingKey" where
  "storm_key org = \<lparr>gk_organizationID = org, gk_ruleID = StormRuleID, gk_scope = ScopeOrganization, gk_scopeKey = org\<rparr>"

definition foldIntoStorm :: "Tenant \<Rightarrow> uuid \<Rightarrow> instant \<Rightarrow> uuid \<Rightarrow> rooms_db \<Rightarrow> unit tx" where
  "foldIntoStorm tn org t freshID db =
     try_tx
       (insert_room tn (new_room freshID (tn_TenantID tn) (storm_key org) StormSeverity t t 1)
          (\<lambda>i. i\<lparr>in_occurrences := in_occurrences i + 1, in_last_seen := t\<rparr>) db)
       (\<lambda>_ db'. Inr ((), db'))"

definition Record :: "Tenant option \<Rightarrow> bool \<Rightarrow> instant \<Rightarrow> uuid \<Rightarrow> uuid \<Rightarrow> Alert \<Rightarrow> Grouping \<Rightarrow> rooms_db \<Rightarrow>
    (room_error + Outcome) \<times> rooms_db" where
  "Record ctx refused clock freshID evID alert g db =
     (case TenantFromContext ctx of
        None \<Rightarrow> (Inl ErrTenantRequired, db)
      | Some _ \<Rightarrow>
          (case Grouping_check g of
             Some e \<Rightarrow> (Inl e, db)
           | None \<Rightarrow>
               (let a = normalized alert; now = truncate_us clock in
                Scoped ctx refused (\<lambda>tn db.
                  try_tx (storeAlertSQL tn a now (li_OrganizationHourly (limitsIn tn (al_OrganizationID a) db)) db)
                    (\<lambda>stored db1.
                       if stored then try_tx (fold_alert tn a g now freshID evID db1) (\<lambda>_ db2. Inr (Stored, db2))
                       else if identity tn a db1 \<noteq> None then Inr (Duplicate, db1)
                       else try_tx (foldIntoStorm tn (al_OrganizationID a) now freshID db1)
                              (\<lambda>_ db2. Inr (CeilingSuppressed, db2)))) db)))"

definition AlertByIdentity :: "Tenant option \<Rightarrow> bool \<Rightarrow> uuid \<Rightarrow> string \<Rightarrow> 32 word \<Rightarrow> instant \<Rightarrow> rooms_db \<Rightarrow> room_error + uuid option" where
  "AlertByIdentity ctx refused d rule version windowStart db =
     fst (Scoped ctx refused (\<lambda>tn db.
       Inr (map_option (al_ID \<circ> ar_alert)
              (find (\<lambda>r. ar_tenant r = tn_TenantID tn \<and> al_DeviceID (ar_alert r) = d \<and> al_RuleID (ar_alert r) = rule \<and>
                 al_RuleVersion (ar_alert r) = version \<and> al_WindowStart (ar_alert r) = truncate_us windowStart) (db_alerts db)), db)) db)"

section \<open>Moves\<close>

text \<open>A zero identifier is the null of the column.\<close>

definition actorArg :: "uuid \<Rightarrow> uuid option" where
  "actorArg actor = (if actor = uuid_Nil then None else Some actor)"

definition eventKind :: "Status \<Rightarrow> event_kind" where
  "eventKind to = (if to = StatusResolved then KindResolution else KindStatusChange)"

definition roomUnderChange :: "Tenant \<Rightarrow> uuid \<Rightarrow> rooms_db \<Rightarrow> room_error + incident_row" where
  "roomUnderChange tn room db =
     (case find (\<lambda>i. in_tenant i = tn_TenantID tn \<and> in_ID i = room) (db_incidents db) of
        None \<Rightarrow> Inl ErrIncidentNotFound
      | Some i \<Rightarrow> Inr i)"

definition appendRoomEvent :: "Tenant \<Rightarrow> uuid \<Rightarrow> instant \<Rightarrow> event_kind \<Rightarrow> uuid option \<Rightarrow> event_body \<Rightarrow> uuid \<Rightarrow> rooms_db \<Rightarrow> unit tx" where
  "appendRoomEvent tn room t kind actor body evID db =
     insert_events
       (map (\<lambda>i. \<lparr>ev_ID = evID, ev_tenant = in_tenant i, ev_org = in_org i, ev_incident = in_ID i, ev_at = t,
                  ev_kind = kind, ev_actor = actor, ev_body = body\<rparr>)
         (filter (\<lambda>i. in_tenant i = tn_TenantID tn \<and> in_ID i = room) (db_incidents db))) db"

definition applyChange :: "Tenant \<Rightarrow> uuid \<Rightarrow> instant \<Rightarrow> Change \<Rightarrow> transitionBody \<Rightarrow> uuid \<Rightarrow> rooms_db \<Rightarrow> unit tx" where
  "applyChange tn room t c body evID db =
     appendRoomEvent tn room t (eventKind (ch_To c)) (actorArg (ch_Actor c)) (Moved body) evID
       (db\<lparr>db_incidents := update_where (\<lambda>i. in_tenant i = tn_TenantID tn \<and> in_ID i = room)
              (\<lambda>i. i\<lparr>in_status := ch_To c, in_resolved_at := (if ch_To c = StatusResolved then Some t else None),
                     in_cause := ch_Cause c\<rparr>) (db_incidents db)\<rparr>)"

definition Transition :: "Tenant option \<Rightarrow> bool \<Rightarrow> instant \<Rightarrow> uuid \<Rightarrow> uuid \<Rightarrow> Change \<Rightarrow> rooms_db \<Rightarrow> (room_error + unit) \<times> rooms_db" where
  "Transition ctx refused clock evID room c db =
     Scoped ctx refused (\<lambda>tn db.
       case roomUnderChange tn room db of
         Inl e \<Rightarrow> Inl e
       | Inr i \<Rightarrow>
           (case Change_check c (in_status i) of
              Some e \<Rightarrow> Inl e
            | None \<Rightarrow>
                applyChange tn room (truncate_us clock) c
                  \<lparr>tb_From = in_status i, tb_To = ch_To c, tb_Cause = ch_Cause c, tb_Reopened = False\<rparr> evID db)) db"

definition Reopen :: "Tenant option \<Rightarrow> bool \<Rightarrow> instant \<Rightarrow> uuid \<Rightarrow> uuid \<Rightarrow> uuid \<Rightarrow> rooms_db \<Rightarrow> (room_error + unit) \<times> rooms_db" where
  "Reopen ctx refused clock evID room actor db =
     Scoped ctx refused (\<lambda>tn db.
       case roomUnderChange tn room db of
         Inl e \<Rightarrow> Inl e
       | Inr i \<Rightarrow>
           if in_status i \<noteq> StatusResolved then Inl ErrIllegalTransition
           else (case lockOpenRoomForKey tn (key_of i) db of
                   Some _ \<Rightarrow> Inl ErrKeyAlreadyOpen
                 | None \<Rightarrow>
                     applyChange tn room (truncate_us clock)
                       \<lparr>ch_To = StatusInvestigating, ch_Cause = CauseNone, ch_Actor = actor\<rparr>
                       \<lparr>tb_From = in_status i, tb_To = StatusInvestigating, tb_Cause = CauseNone, tb_Reopened = True\<rparr> evID db)) db"

definition Assign :: "Tenant option \<Rightarrow> bool \<Rightarrow> instant \<Rightarrow> uuid \<Rightarrow> uuid \<Rightarrow> uuid \<Rightarrow> uuid \<Rightarrow> rooms_db \<Rightarrow> (room_error + unit) \<times> rooms_db" where
  "Assign ctx refused clock evID room assignee actor db =
     Scoped ctx refused (\<lambda>tn db.
       case roomUnderChange tn room db of
         Inl e \<Rightarrow> Inl e
       | Inr _ \<Rightarrow>
           appendRoomEvent tn room (truncate_us clock) KindAssignment (actorArg actor)
             (if assignee = uuid_Nil then Unassigned else AssignedTo assignee) evID
             (db\<lparr>db_incidents := update_where (\<lambda>i. in_tenant i = tn_TenantID tn \<and> in_ID i = room)
                    (\<lambda>i. i\<lparr>in_assignee := actorArg assignee\<rparr>) (db_incidents db)\<rparr>)) db"

definition maxCommentBytes :: nat where
  "maxCommentBytes = 4096"

definition Comment :: "Tenant option \<Rightarrow> bool \<Rightarrow> instant \<Rightarrow> uuid \<Rightarrow> uuid \<Rightarrow> uuid \<Rightarrow> string \<Rightarrow> rooms_db \<Rightarrow> (room_error + unit) \<times> rooms_db" where
  "Comment ctx refused clock evID room actor text db =
     (let note = TrimSpace text in
      if note = '''' \<or> maxCommentBytes < length note then (Inl ErrCommentUnusable, db)
      else Scoped ctx refused (\<lambda>tn db.
        case roomUnderChange tn room db of
          Inl e \<Rightarrow> Inl e
        | Inr _ \<Rightarrow> appendRoomEvent tn room (truncate_us clock) KindComment (actorArg actor) (Commented note) evID db) db)"

section \<open>Janitors and erasure\<close>

text \<open>
  The windows a room stays open for, and the storm's; \<open>window.Seconds()\<close> is exact for the whole seconds
  the catalogue gives.
\<close>

definition holds :: "(string, duration) gomap \<Rightarrow> (string, duration) gomap" where
  "holds windows = filter (\<lambda>(rule, window). \<not> (rule = StormRuleID \<or> window \<le> 0)) windows @ [(StormRuleID, StormHold)]"

definition stale :: "(string, duration) gomap \<Rightarrow> instant \<Rightarrow> device_row list \<Rightarrow> incident_row \<Rightarrow> bool" where
  "stale hs t devices i \<longleftrightarrow>
     (case map_of hs (in_rule i) of None \<Rightarrow> False | Some window \<Rightarrow> in_last_seen i + window \<le> t) \<and>
     \<not> (in_scope i = ScopeDevice \<and> list_ex (\<lambda>d. dr_ID d = in_scope_key i \<and> dr_maintenance d) devices)"

definition DefaultTenantID :: uuid where
  "DefaultTenantID = 2"

definition admin_context :: "uuid \<Rightarrow> Tenant option" where
  "admin_context t = Some \<lparr>tn_TenantID = t, tn_IsAdmin = True\<rparr>"

definition ResolveStale :: "bool \<Rightarrow> instant \<Rightarrow> (uuid \<Rightarrow> uuid) \<Rightarrow> (string, duration) gomap \<Rightarrow> rooms_db \<Rightarrow> (room_error + nat) \<times> rooms_db" where
  "ResolveStale refused clock ids windows db =
     Scoped (admin_context DefaultTenantID) refused (\<lambda>_ db.
       close_rooms (stale (holds windows) (truncate_us clock) (db_devices db))
         (\<lambda>i. in_last_seen i + (case map_of (holds windows) (in_rule i) of None \<Rightarrow> 0 | Some w \<Rightarrow> w)) no_alert_reason ids db) db"

definition recountRoomsLosingADevice :: "uuid \<Rightarrow> uuid \<Rightarrow> rooms_db \<Rightarrow> rooms_db" where
  "recountRoomsLosingADevice t d db =
     (let kept = (\<lambda>i. filter (\<lambda>r. al_DeviceID (ar_alert r) \<noteq> d) (held_by (in_ID i) (db_alerts db))) in
      db\<lparr>db_incidents := update_where
           (\<lambda>i. in_tenant i = t \<and> list_ex (\<lambda>r. ar_incident r = Some (in_ID i) \<and> al_DeviceID (ar_alert r) = d) (db_alerts db))
           (\<lambda>i. i\<lparr>in_occurrences := int (length (kept i)), in_device_count := machines_of (kept i)\<rparr>) (db_incidents db)\<rparr>)"

definition EraseDeviceAlerts :: "bool \<Rightarrow> instant \<Rightarrow> (uuid \<Rightarrow> uuid) \<Rightarrow> uuid \<Rightarrow> uuid \<Rightarrow> rooms_db \<Rightarrow> (room_error + unit) \<times> rooms_db" where
  "EraseDeviceAlerts refused clock ids t d db =
     Scoped (admin_context t) refused (\<lambda>_ db.
       let db1 = recountRoomsLosingADevice t d db in
       try_tx
         (close_rooms
            (\<lambda>i. in_tenant i = t \<and> in_occurrences i = 0 \<and>
                 list_ex (\<lambda>r. ar_incident r = Some (in_ID i) \<and> al_DeviceID (ar_alert r) = d) (db_alerts db1))
            (\<lambda>_. truncate_us clock) ''last device erased'' ids db1)
         (\<lambda>_ db2. Inr ((), db2\<lparr>db_alerts := filter (\<lambda>r. \<not> (ar_tenant r = t \<and> al_DeviceID (ar_alert r) = d)) (db_alerts db2)\<rparr>))) db"

text \<open>Deleting rooms takes their history with them and unfiles what still points at them.\<close>

definition delete_rooms :: "(incident_row \<Rightarrow> bool) \<Rightarrow> rooms_db \<Rightarrow> rooms_db" where
  "delete_rooms P db =
     (let gone = map in_ID (filter P (db_incidents db)) in
      db\<lparr>db_incidents := filter (\<lambda>i. \<not> P i) (db_incidents db),
         db_events := filter (\<lambda>e. ev_incident e \<notin> set gone) (db_events db),
         db_alerts := update_where (\<lambda>r. case ar_incident r of None \<Rightarrow> False | Some room \<Rightarrow> room \<in> set gone)
                        (\<lambda>r. r\<lparr>ar_incident := None\<rparr>) (db_alerts db)\<rparr>)"

definition EraseTenantInvestigations :: "bool \<Rightarrow> uuid \<Rightarrow> rooms_db \<Rightarrow> (room_error + unit) \<times> rooms_db" where
  "EraseTenantInvestigations refused t db =
     Scoped (admin_context t) refused (\<lambda>_ db.
       Inr ((), delete_rooms (\<lambda>i. in_tenant i = t)
         (db\<lparr>db_alerts := filter (\<lambda>r. ar_tenant r \<noteq> t) (db_alerts db)\<rparr>))) db"

text \<open>The device row of a purge: its alerts go by the cascade.\<close>

definition delete_device_row :: "uuid \<Rightarrow> uuid \<Rightarrow> rooms_db \<Rightarrow> rooms_db" where
  "delete_device_row t d db =
     (if list_ex (\<lambda>r. dr_tenant r = t \<and> dr_ID r = d) (db_devices db)
      then db\<lparr>db_devices := filter (\<lambda>r. \<not> (dr_tenant r = t \<and> dr_ID r = d)) (db_devices db),
              db_alerts := filter (\<lambda>r. al_DeviceID (ar_alert r) \<noteq> d) (db_alerts db)\<rparr>
      else db)"

section \<open>Retention\<close>

definition retentionBatch :: nat where
  "retentionBatch = 5000"

text \<open>The first \<open>n\<close> rows a condition selects are deleted; which ones come first is the table's affair.\<close>

fun drop_first :: "nat \<Rightarrow> ('a \<Rightarrow> bool) \<Rightarrow> 'a list \<Rightarrow> 'a list" where
  "drop_first n P [] = []"
| "drop_first 0 P xs = xs"
| "drop_first (Suc n) P (x # xs) = (if P x then drop_first n P xs else x # drop_first (Suc n) P xs)"

datatype retention_stage = StageAlerts | StageIncidents

definition room_expired :: "instant \<Rightarrow> rooms_db \<Rightarrow> incident_row \<Rightarrow> bool" where
  "room_expired cutoff db i \<longleftrightarrow> in_status i = StatusResolved \<and>
     (case in_resolved_at i of None \<Rightarrow> False | Some t \<Rightarrow> t < cutoff) \<and>
     \<not> list_ex (\<lambda>r. ar_incident r = Some (in_ID i)) (db_alerts db)"

text \<open>One batch of a stage: the rows removed and the tables without them.\<close>

fun delete_batch :: "retention_stage \<Rightarrow> instant \<Rightarrow> rooms_db \<Rightarrow> nat \<times> rooms_db" where
  "delete_batch StageAlerts cutoff db =
     (let rows = drop_first retentionBatch (\<lambda>r. ar_received r < cutoff) (db_alerts db) in
      (length (db_alerts db) - length rows, db\<lparr>db_alerts := rows\<rparr>))"
| "delete_batch StageIncidents cutoff db =
     (let gone = map in_ID (take retentionBatch (filter (room_expired cutoff db) (db_incidents db)));
          db' = delete_rooms (\<lambda>i. in_ID i \<in> set gone) db in
      (length (db_incidents db) - length (db_incidents db'), db'))"

lemma delete_batch_shrinks:
  "(removed, db') = delete_batch stage cutoff db \<Longrightarrow> \<not> removed < retentionBatch \<Longrightarrow>
     length (db_alerts db') + length (db_incidents db') < length (db_alerts db) + length (db_incidents db)"
  by (cases stage) (auto simp: retentionBatch_def delete_rooms_def update_where_def Let_def not_less)

text \<open>
  The loop over the batches: \<open>stop n\<close> says whether the context is cancelled or the statement refused at
  the n-th one. The result is the count, whether the loop gave up, and the tables.
\<close>

function drain :: "retention_stage \<Rightarrow> instant \<Rightarrow> (nat \<Rightarrow> bool) \<Rightarrow> nat \<Rightarrow> rooms_db \<Rightarrow> nat \<times> bool \<times> rooms_db" where
  "drain stage cutoff stop n db =
     (if stop n then (0, True, db)
      else (case delete_batch stage cutoff db of
              (removed, db') \<Rightarrow>
                if removed < retentionBatch then (removed, False, db')
                else (case drain stage cutoff stop (Suc n) db' of (rest, failed, db'') \<Rightarrow> (removed + rest, failed, db''))))"
  by pat_completeness auto
termination
  by (relation "measure (\<lambda>(stage, cutoff, stop, n, db). length (db_alerts db) + length (db_incidents db))")
    (auto simp: delete_batch_shrinks)

declare drain.simps [simp del]

definition SweepExpired :: "instant \<Rightarrow> duration \<Rightarrow> (nat \<Rightarrow> bool) \<Rightarrow> (nat \<Rightarrow> bool) \<Rightarrow> rooms_db \<Rightarrow> room_error option \<times> nat \<times> rooms_db" where
  "SweepExpired clock horizon stop1 stop2 db =
     (if horizon \<le> 0 then (Some ErrHorizonNotPositive, 0, db)
      else (case drain StageAlerts (clock + - horizon) stop1 0 db of
              (n1, failed1, db1) \<Rightarrow>
                if failed1 then (Some ErrStatement, n1, db1)
                else (case drain StageIncidents (clock + - horizon) stop2 0 db1 of
                        (n2, failed2, db2) \<Rightarrow> (if failed2 then Some ErrStatement else None, n1 + n2, db2))))"

end
