(* ===== verification/Incident_Invariant.thy ===== *)
theory Incident_Invariant
  imports Incident_Rooms
begin

text \<open>
  What every operation of the store keeps of its tables: one open room per grouping key, a life that
  the room's own history tells, and rooms that cover the alerts they hold.
\<close>

section \<open>Rewriting selected rows\<close>

lemma set_update_where: "set (update_where P f xs) = {if P x then f x else x | x. x \<in> set xs}"
  by (auto simp: update_where_def)

lemma map_update_where: "(\<And>x. h (f x) = h x) \<Longrightarrow> map h (update_where P f xs) = map h xs"
  by (simp add: update_where_def)

lemma length_update_where [simp]: "length (update_where P f xs) = length xs"
  by (simp add: update_where_def)

lemma update_where_twice:
  "(\<And>x. f (f x) = f x) \<Longrightarrow> (\<And>x. P (f x) = P x) \<Longrightarrow>
     update_where P f (update_where Q f xs) = update_where (\<lambda>x. P x \<or> Q x) f xs"
  by (auto simp: update_where_def)

lemma update_where_none: "(\<And>x. x \<in> set xs \<Longrightarrow> \<not> P x) \<Longrightarrow> update_where P f xs = xs"
  by (simp add: update_where_def map_idI)

lemma find_SomeD: "find P xs = Some x \<Longrightarrow> x \<in> set xs \<and> P x"
  by (induction xs) (auto split: if_splits)

lemma find_NoneD: "find P xs = None \<Longrightarrow> x \<in> set xs \<Longrightarrow> \<not> P x"
  by (auto simp: find_None_iff)

lemma Scoped_cases:
  assumes "snd (Scoped ctx refused fn db) = db'"
  obtains "db' = db"
  | tn r where "TenantFromContext ctx = Some tn" "fn tn db = Inr (r, db')"
  using assms by (auto simp: Scoped_def split: option.splits sum.splits prod.splits if_splits)

section \<open>One open room per key\<close>

definition rooms_wf :: "rooms_db \<Rightarrow> bool" where
  "rooms_wf db \<longleftrightarrow> distinct (map in_ID (db_incidents db)) \<and>
     (\<forall>i\<in>set (db_incidents db). \<forall>j\<in>set (db_incidents db).
        room_open i \<longrightarrow> room_open j \<longrightarrow> key_of i = key_of j \<longrightarrow> in_ID i = in_ID j) \<and>
     (\<forall>i\<in>set (db_incidents db). map_of (db_orgs db) (in_org i) = Some (in_tenant i))"

text \<open>Two rooms that both have one identifier are one.\<close>

lemma room_by_ID: "distinct (map in_ID rooms) \<Longrightarrow> i \<in> set rooms \<Longrightarrow> j \<in> set rooms \<Longrightarrow> in_ID i = in_ID j \<Longrightarrow> i = j"
  by (metis distinct_map inj_on_eq_iff)

text \<open>An update that keeps the identity of rooms and opens none keeps the first invariant.\<close>

lemma rooms_wf_update:
  assumes wf: "rooms_wf db"
    and keeps: "\<And>i. in_ID (f i) = in_ID i \<and> key_of (f i) = key_of i \<and> in_tenant (f i) = in_tenant i"
    and stays: "\<And>i. room_open (f i) \<Longrightarrow> room_open i"
    and db': "db_incidents db' = update_where P f (db_incidents db)" "db_orgs db' = db_orgs db"
  shows "rooms_wf db'"
proof -
  have org: "in_org (f i) = in_org i" for i using keeps [of i] by (simp add: key_of_def)
  have same: "map in_ID (db_incidents db') = map in_ID (db_incidents db)"
    unfolding db' by (rule map_update_where) (simp add: keeps)
  have orig: "\<exists>j\<in>set (db_incidents db). in_ID i = in_ID j \<and> key_of i = key_of j \<and> in_tenant i = in_tenant j \<and>
      in_org i = in_org j \<and> (room_open i \<longrightarrow> room_open j)" if "i \<in> set (db_incidents db')" for i
    using that unfolding db' by (auto simp: set_update_where keeps org dest: stays split: if_splits)
  show ?thesis unfolding rooms_wf_def
  proof (intro conjI ballI impI)
    show "distinct (map in_ID (db_incidents db'))" using wf same by (simp add: rooms_wf_def)
  next
    fix i j assume "i \<in> set (db_incidents db')" "j \<in> set (db_incidents db')" "room_open i" "room_open j" "key_of i = key_of j"
    then show "in_ID i = in_ID j"
      using orig [of i] orig [of j] wf unfolding rooms_wf_def by metis
  next
    fix i assume "i \<in> set (db_incidents db')"
    then show "map_of (db_orgs db') (in_org i) = Some (in_tenant i)"
      using orig [of i] wf unfolding rooms_wf_def db' by metis
  qed
qed

lemma rooms_wf_same:
  "rooms_wf db \<Longrightarrow> db_incidents db' = db_incidents db \<Longrightarrow> db_orgs db' = db_orgs db \<Longrightarrow> rooms_wf db'"
  by (metis rooms_wf_def)

lemma rooms_wf_filter:
  "rooms_wf db \<Longrightarrow> db_incidents db' = filter P (db_incidents db) \<Longrightarrow> db_orgs db' = db_orgs db \<Longrightarrow> rooms_wf db'"
  by (auto simp: rooms_wf_def distinct_map_filter)

lemma insert_room_cases:
  assumes "insert_room tn new join db = Inr (room, db')"
  obtains old where "old \<in> set (db_incidents db)" "key_of old = key_of new" "room_open old" "room = in_ID old"
      "tenant_visible tn (in_tenant old)" "in_first_seen (join old) \<le> in_last_seen (join old)"
      "db' = db\<lparr>db_incidents := update_where (\<lambda>i. in_ID i = in_ID old) join (db_incidents db)\<rparr>"
  | "\<And>i. i \<in> set (db_incidents db) \<Longrightarrow> in_ID i \<noteq> in_ID new" "map_of (db_orgs db) (in_org new) = Some (in_tenant new)"
      "\<And>i. i \<in> set (db_incidents db) \<Longrightarrow> room_open i \<Longrightarrow> key_of i \<noteq> key_of new"
      "room = in_ID new" "db' = db\<lparr>db_incidents := db_incidents db @ [new]\<rparr>"
proof (cases "find (\<lambda>i. key_of i = key_of new \<and> room_open i) (db_incidents db)")
  case None
  show thesis
  proof (rule that(2))
    show "in_ID i \<noteq> in_ID new" if "i \<in> set (db_incidents db)" for i
      using assms None that by (auto simp: insert_room_def list_ex_iff split: if_splits)
    show "key_of i \<noteq> key_of new" if "i \<in> set (db_incidents db)" "room_open i" for i
      using find_NoneD [OF None that(1)] that(2) by simp
  qed (use assms None in \<open>auto simp: insert_room_def split: if_splits\<close>)
next
  case (Some old)
  show thesis
  proof (rule that(1))
    show "old \<in> set (db_incidents db)" "key_of old = key_of new" "room_open old" using find_SomeD [OF Some] by auto
  qed (use assms Some in \<open>auto simp: insert_room_def split: if_splits\<close>)
qed

lemma rooms_wf_insert:
  assumes "rooms_wf db" "insert_room tn new join db = Inr (room, db')" "room_open new"
    and "\<And>i. in_ID (join i) = in_ID i \<and> key_of (join i) = key_of i \<and> in_tenant (join i) = in_tenant i"
    and "\<And>i. room_open (join i) = room_open i"
  shows "rooms_wf db'"
  using assms(2)
proof (cases rule: insert_room_cases)
  case (1 old)
  show ?thesis by (rule rooms_wf_update [OF assms(1) assms(4)]) (use 1 assms(5) in auto)
next
  case 2
  have rooms: "db_incidents db' = db_incidents db @ [new]" "db_orgs db' = db_orgs db" unfolding 2(5) by simp_all
  have not_in: "in_ID new \<notin> set (map in_ID (db_incidents db))" using 2(1) by (metis (no_types) imageE set_map)
  show ?thesis unfolding rooms_wf_def rooms
  proof (intro conjI ballI impI)
    show "distinct (map in_ID (db_incidents db @ [new]))" using assms(1) not_in by (simp add: rooms_wf_def)
  next
    fix i j assume "i \<in> set (db_incidents db @ [new])" "j \<in> set (db_incidents db @ [new])" "room_open i" "room_open j" "key_of i = key_of j"
    then consider "i \<in> set (db_incidents db)" "j \<in> set (db_incidents db)" | "i = j" using 2(3) by fastforce
    then show "in_ID i = in_ID j"
    proof cases
      case 1
      with \<open>room_open i\<close> \<open>room_open j\<close> \<open>key_of i = key_of j\<close> assms(1) show ?thesis unfolding rooms_wf_def by blast
    qed simp
  next
    fix i assume "i \<in> set (db_incidents db @ [new])"
    then show "map_of (db_orgs db) (in_org i) = Some (in_tenant i)" using assms(1) 2(2) unfolding rooms_wf_def by auto
  qed
qed

section \<open>A life the history tells\<close>

text \<open>What one line says of the status and the cause of its room, and a whole history after it.\<close>

definition tell :: "event_row \<Rightarrow> Status \<times> CauseCode \<Rightarrow> Status \<times> CauseCode" where
  "tell e s = (case ev_body e of Reason _ \<Rightarrow> (StatusResolved, CauseNone) | Moved b \<Rightarrow> (tb_To b, tb_Cause b) | _ \<Rightarrow> s)"

definition told :: "uuid \<Rightarrow> event_row list \<Rightarrow> Status \<times> CauseCode" where
  "told room evs = fold tell (filter (\<lambda>e. ev_incident e = room) evs) (StatusNew, CauseNone)"

definition life_ok :: "incident_row \<Rightarrow> bool" where
  "life_ok i \<longleftrightarrow> (in_status i = StatusResolved \<longleftrightarrow> in_resolved_at i \<noteq> None) \<and>
     (in_cause i \<noteq> CauseNone \<longrightarrow> in_status i = StatusResolved) \<and> nextStatuses (in_status i) \<noteq> None"

definition lives_wf :: "rooms_db \<Rightarrow> bool" where
  "lives_wf db \<longleftrightarrow>
     (\<forall>i\<in>set (db_incidents db). life_ok i \<and> told (in_ID i) (db_events db) = (in_status i, in_cause i)) \<and>
     (\<forall>e\<in>set (db_events db). ev_incident e \<in> in_ID ` set (db_incidents db))"

lemma told_append: "told room (evs @ new) = fold tell (filter (\<lambda>e. ev_incident e = room) new) (told room evs)"
  by (simp add: told_def)

lemma fold_const: "(\<And>x s. x \<in> set xs \<Longrightarrow> f x s = c) \<Longrightarrow> xs \<noteq> [] \<Longrightarrow> fold f xs s = c"
proof (induction xs arbitrary: s)
  case (Cons x xs)
  then show ?case by (cases "xs = []") auto
qed simp

lemma fold_keep: "(\<And>x s. x \<in> set xs \<Longrightarrow> f x s = s) \<Longrightarrow> fold f xs s = s"
  by (induction xs arbitrary: s) auto

text \<open>Lines that all say one thing of a room.\<close>

lemma told_lines:
  assumes "\<And>e s. e \<in> set new \<Longrightarrow> ev_incident e = room \<Longrightarrow> tell e s = c" and "room \<in> ev_incident ` set new"
  shows "told room (evs @ new) = c"
  unfolding told_append by (rule fold_const) (use assms in \<open>auto simp: filter_empty_conv\<close>)

lemma told_quiet:
  assumes "\<And>e s. e \<in> set new \<Longrightarrow> ev_incident e = room \<Longrightarrow> tell e s = s"
  shows "told room (evs @ new) = told room evs"
  unfolding told_append by (rule fold_keep) (use assms in auto)

lemma told_nothing: "room \<notin> ev_incident ` set evs \<Longrightarrow> told room evs = (StatusNew, CauseNone)"
proof -
  assume "room \<notin> ev_incident ` set evs"
  then have "filter (\<lambda>e. ev_incident e = room) evs = []" by (auto simp: filter_empty_conv)
  then show ?thesis by (simp add: told_def)
qed

lemma lives_wf_update:
  assumes wf: "lives_wf db"
    and keeps: "\<And>i. in_ID (f i) = in_ID i"
    and db': "db_incidents db' = update_where P f (db_incidents db)" "db_events db' = db_events db @ new"
    and refers: "\<And>e. e \<in> set new \<Longrightarrow> ev_incident e \<in> in_ID ` set (db_incidents db)"
    and moved: "\<And>i. i \<in> set (db_incidents db) \<Longrightarrow> P i \<Longrightarrow>
      life_ok (f i) \<and> told (in_ID i) (db_events db @ new) = (in_status (f i), in_cause (f i))"
    and unmoved: "\<And>i. i \<in> set (db_incidents db) \<Longrightarrow> \<not> P i \<Longrightarrow> told (in_ID i) (db_events db @ new) = told (in_ID i) (db_events db)"
  shows "lives_wf db'"
proof -
  have ids: "in_ID ` set (db_incidents db') = in_ID ` set (db_incidents db)"
    unfolding db' set_update_where by (auto simp: keeps image_iff split: if_splits) (metis keeps)
  have "life_ok i \<and> told (in_ID i) (db_events db') = (in_status i, in_cause i)" if member: "i \<in> set (db_incidents db')" for i
  proof -
    obtain j where j: "j \<in> set (db_incidents db)" "i = (if P j then f j else j)"
      using member unfolding db' set_update_where by blast
    show ?thesis using wf moved [OF j(1)] unmoved [OF j(1)] j unfolding lives_wf_def db'
      by (cases "P j") (auto simp: keeps)
  qed
  then show ?thesis using wf refers ids unfolding lives_wf_def db' by fastforce
qed

lemma lives_wf_insert:
  assumes "lives_wf db" "insert_room tn new join db = Inr (room, db')"
    and "in_status new = StatusNew" "in_resolved_at new = None" "in_cause new = CauseNone"
    and "\<And>i. in_ID (join i) = in_ID i \<and> in_status (join i) = in_status i \<and> in_resolved_at (join i) = in_resolved_at i \<and>
           in_cause (join i) = in_cause i"
  shows "lives_wf db'"
  using assms(2)
proof (cases rule: insert_room_cases)
  case (1 old)
  have db': "db_incidents db' = update_where (\<lambda>i. in_ID i = in_ID old) join (db_incidents db)" "db_events db' = db_events db @ []"
    unfolding 1(7) by simp_all
  show ?thesis
    by (rule lives_wf_update [OF assms(1) _ db']) (use assms(1,6) in \<open>auto simp: lives_wf_def life_ok_def\<close>)
next
  case 2
  have "in_ID new \<notin> ev_incident ` set (db_events db)"
    using assms(1) 2(1) unfolding lives_wf_def by (metis (no_types, lifting) imageE)
  then have "told (in_ID new) (db_events db) = (StatusNew, CauseNone)" by (rule told_nothing)
  with assms(1,3-5) show ?thesis unfolding 2(5) lives_wf_def life_ok_def by auto
qed

lemma lives_wf_same:
  "lives_wf db \<Longrightarrow> db_incidents db' = db_incidents db \<Longrightarrow> db_events db' = db_events db \<Longrightarrow> lives_wf db'"
  by (metis lives_wf_def)

text \<open>Rooms go with their history.\<close>

lemma told_filter:
  assumes "\<And>e. e \<in> set evs \<Longrightarrow> ev_incident e = room \<Longrightarrow> Q e"
  shows "told room (filter Q evs) = told room evs"
proof -
  have "filter (\<lambda>e. ev_incident e = room) (filter Q evs) = filter (\<lambda>e. ev_incident e = room) evs"
    unfolding filter_filter by (rule filter_cong) (use assms in auto)
  then show ?thesis by (simp add: told_def)
qed

lemma lives_wf_delete:
  assumes wf: "lives_wf db" and "rooms_wf db" shows "lives_wf (delete_rooms P db)"
proof -
  have ids: "distinct (map in_ID (db_incidents db))" using assms(2) by (simp add: rooms_wf_def)
  have keep: "in_ID i \<notin> in_ID ` {j \<in> set (db_incidents db). P j}" if "i \<in> set (db_incidents db)" "\<not> P i" for i
    using that room_by_ID [OF ids] by blast
  have "told (in_ID i) (db_events (delete_rooms P db)) = told (in_ID i) (db_events db)"
    if "i \<in> set (db_incidents db)" "\<not> P i" for i
    unfolding delete_rooms_def Let_def by simp (rule told_filter, use keep [OF that] in auto)
  then show ?thesis using wf by (auto simp: lives_wf_def delete_rooms_def Let_def image_iff) metis
qed

end
