(* ===== verification/Spec2Isabelle.thy ===== *)
theory Spec2Isabelle
  imports Wire_Frames Handshake Rule_Delivery Relay_Properties Mps_Handlers Mps_Open Mps_Server
    Agent_Properties Incident_Invariant
begin

text \<open>
  OpenGate: the server's wire protocol, its settings ladder and its rule pipeline.
\<close>

end
